(* ===== verification/Halow_Prelude.thy ===== *)
theory Halow_Prelude
  imports Main "HOL-Library.Word" "HOL-Library.Monad_Syntax"
begin

text \<open>
  Shared vocabulary of the development: the machine integer types of the 32-bit
  target, wrap-around comparison of millisecond ticks, null-terminated pointer chains
  (the intrusive singly linked lists of the driver), and the automation collections.

  A computation that may fail to return (a loop over a pointer chain, a wait) has an
  option type throughout the development: None means that it does not return.
\<close>

unbundle bit_operations_syntax

type_synonym u8 = "8 word"
type_synonym u16 = "16 word"
type_synonym u32 = "32 word"
type_synonym u64 = "64 word"
type_synonym ptr = "32 word"

named_theorems word_nat \<open>reading 32-bit words as natural numbers\<close>
named_theorems frame \<open>fields an operation leaves alone\<close>

section \<open>Machine words\<close>

lemma unat_lt_u32 [simp]: "unat (w :: u32) < 4294967296"
  using unsigned_less [of w, where ?'a = nat] by simp

lemma unat_add_u32 [word_nat]:
  "unat a + unat b < 4294967296 \<Longrightarrow> unat (a + b :: u32) = unat a + unat b"
  by (simp add: unat_word_ariths)

lemma unat_inc_u32: "f < n \<Longrightarrow> unat (f + 1 :: u32) = unat f + 1"
proof -
  assume "f < n"
  then have "unat f < unat n" by (simp add: word_less_nat_alt)
  with unat_lt_u32 [of n] have "unat f + 1 < 4294967296" by linarith
  then have "unat f + unat (1 :: u32) < 4294967296" by simp
  from unat_add_u32 [OF this] show ?thesis by simp
qed

lemma unat_sub_u32 [word_nat]:
  "unat b \<le> unat a \<Longrightarrow> unat (a - b :: u32) = unat a - unat b"
  by (simp add: unat_sub_if')

lemma unat_mult_u32 [word_nat]:
  "unat a * unat b < 4294967296 \<Longrightarrow> unat (a * b :: u32) = unat a * unat b"
  by (simp add: unat_word_ariths)

lemma unat_of_nat_u32 [word_nat]:
  "n < 4294967296 \<Longrightarrow> unat (of_nat n :: u32) = n"
  by (simp add: unat_of_nat)

lemma unat_neg_u32: "unat (- w :: u32) = (if w = 0 then 0 else 4294967296 - unat w)"
proof -
  have "unat (- w) = unat (0 - w)" by simp
  also have "\<dots> = (if w = 0 then 0 else 4294967296 - unat w)"
    by (subst unat_sub_if') (auto simp: unat_eq_0)
  finally show ?thesis .
qed

lemma of_nat_u32_eq_iff:
  "m < 4294967296 \<Longrightarrow> n < 4294967296 \<Longrightarrow> (of_nat m :: u32) = of_nat n \<longleftrightarrow> m = n"
  by (metis unat_of_nat_u32)

lemma of_nat_u32_eq_0_iff:
  "n < 4294967296 \<Longrightarrow> (of_nat n :: u32) = 0 \<longleftrightarrow> n = 0"
  using of_nat_u32_eq_iff [of n 0] by simp

lemma of_nat_unat_u32 [simp]: "of_nat (unat (w :: u32)) = w"
  by simp

lemma unat_diff_of_nat_u32:
  "b \<le> a \<Longrightarrow> a - b < 4294967296 \<Longrightarrow> unat (of_nat a - of_nat b :: u32) = a - b"
  by (simp add: of_nat_diff [symmetric] unat_of_nat_u32 del: of_nat_diff)

section \<open>Millisecond ticks that wrap\<close>

text \<open>
  The tick counter is a free-running 32-bit counter, and the code asks whether a
  deadline has come by the sign of the difference: \<open>(int32_t)(now - t) >= 0\<close>.
\<close>

definition tick_reached :: "u32 \<Rightarrow> u32 \<Rightarrow> bool" where
  "tick_reached now t \<longleftrightarrow> 0 \<le> sint (now - t)"

lemma sint_nonneg_u32: "0 \<le> sint (w :: u32) \<longleftrightarrow> unat w < 2147483648"
proof -
  let ?q = "unat w div 2147483648"
  have u: "uint w = int (unat w)" by simp
  have "0 \<le> sint w \<longleftrightarrow> \<not> bit (uint w) 31"
    by (simp add: sint_uint)
  also have "\<dots> \<longleftrightarrow> even (uint w div 2147483648)"
    by (simp add: bit_iff_odd)
  also have "uint w div 2147483648 = int ?q"
    unfolding u by (simp add: zdiv_int)
  also have "even (int ?q) \<longleftrightarrow> even ?q" by simp
  also have "\<dots> \<longleftrightarrow> ?q = 0"
  proof -
    have "?q < 2"
      by (rule less_mult_imp_div_less) (use unat_lt_u32 [of w] in simp)
    then consider "?q = 0" | "?q = 1" by linarith
    then show ?thesis by cases simp_all
  qed
  also have "\<dots> \<longleftrightarrow> unat w < 2147483648"
    by (simp add: div_eq_0_iff)
  finally show ?thesis .
qed

lemma tick_reached_iff: "tick_reached now t \<longleftrightarrow> unat (now - t) < 2147483648"
  by (simp add: tick_reached_def sint_nonneg_u32)

lemma tick_reached_refl [simp]: "tick_reached t t"
  by (simp add: tick_reached_iff)

text \<open>
  On readings taken less than 2^31 ms apart the sign test is the order of the true times.
\<close>

lemma tick_reached_of_nat:
  assumes "now < t + 2147483648" and "t \<le> now + 2147483648"
  shows "tick_reached (of_nat now) (of_nat t) \<longleftrightarrow> t \<le> now"
proof (cases "t \<le> now")
  case True
  with assms show ?thesis
    by (simp add: tick_reached_iff unat_diff_of_nat_u32)
next
  case False
  then have d: "0 < t - now" "t - now \<le> 2147483648" using assms by auto
  have "(of_nat now - of_nat t :: u32) = - (of_nat (t - now))"
    using False by (simp add: of_nat_diff)
  moreover have "unat (- (of_nat (t - now)) :: u32) = 4294967296 - (t - now)"
    using d by (simp add: unat_neg_u32 unat_of_nat_u32 of_nat_u32_eq_0_iff del: of_nat_diff)
  ultimately show ?thesis
    using False d by (simp add: tick_reached_iff)
qed

section \<open>Pointer chains\<close>

text \<open>
  \<open>chain nxt nul p as\<close>: following \<open>nxt\<close> from \<open>p\<close> visits exactly the nodes
  \<open>as\<close>, in that order, and ends at the null pointer \<open>nul\<close>.
\<close>

fun chain :: "('a \<Rightarrow> 'a) \<Rightarrow> 'a \<Rightarrow> 'a \<Rightarrow> 'a list \<Rightarrow> bool" where
  "chain nxt nul p [] \<longleftrightarrow> p = nul"
| "chain nxt nul p (a # as) \<longleftrightarrow> p = a \<and> a \<noteq> nul \<and> chain nxt nul (nxt a) as"

lemma chain_nul [simp]: "chain nxt nul nul as \<longleftrightarrow> as = []"
  by (cases as) auto

lemma chain_nonnul: "p \<noteq> nul \<Longrightarrow>
    chain nxt nul p as \<longleftrightarrow> (\<exists>bs. as = p # bs \<and> chain nxt nul (nxt p) bs)"
  by (cases as) auto

lemma chain_unique: "chain nxt nul p as \<Longrightarrow> chain nxt nul p bs \<Longrightarrow> as = bs"
  by (induction as arbitrary: p bs) (auto simp: chain_nonnul)

lemma chain_cong:
  "(\<And>a. a \<in> set as \<Longrightarrow> f a = g a) \<Longrightarrow> chain f nul p as \<longleftrightarrow> chain g nul p as"
  by (induction as arbitrary: p) auto

lemma chain_upd [simp]: "a \<notin> set as \<Longrightarrow> chain (nxt(a := x)) nul p as \<longleftrightarrow> chain nxt nul p as"
  by (rule chain_cong) auto

lemma chain_suffix: "chain nxt nul p (as @ bs) \<Longrightarrow> \<exists>q. chain nxt nul q bs"
  by (induction as arbitrary: p) auto

lemma chain_distinct: "chain nxt nul p as \<Longrightarrow> distinct as"
proof (induction as arbitrary: p)
  case Nil
  then show ?case by simp
next
  case (Cons a as)
  have "a \<notin> set as"
  proof
    assume "a \<in> set as"
    then obtain us vs where as: "as = us @ a # vs" by (auto simp: in_set_conv_decomp)
    from Cons.prems have "chain nxt nul (nxt a) as" by simp
    then obtain q where "chain nxt nul q (a # vs)"
      unfolding as by (rule chain_suffix [THEN exE])
    then have "chain nxt nul (nxt a) vs" by simp
    with \<open>chain nxt nul (nxt a) as\<close> have "as = vs" by (rule chain_unique)
    with as have "length as = length vs" by simp
    with as show False by simp
  qed
  with Cons show ?case by auto
qed

lemma chain_nul_notin: "chain nxt nul p as \<Longrightarrow> nul \<notin> set as"
  by (induction as arbitrary: p) auto

lemma chain_head_in: "chain nxt nul p as \<Longrightarrow> p \<noteq> nul \<Longrightarrow> p \<in> set as"
  by (cases as) auto

text \<open>Appending a fresh node behind the last one.\<close>

lemma chain_snoc:
  assumes "chain nxt nul p as" and "as \<noteq> []" and "x \<noteq> nul" and "x \<notin> set as"
    and "nxt' (last as) = x" and "nxt' x = nul"
    and "\<And>a. a \<in> set as \<Longrightarrow> a \<noteq> last as \<Longrightarrow> nxt' a = nxt a"
  shows "chain nxt' nul p (as @ [x])"
  using assms
proof (induction as arbitrary: p)
  case Nil
  then show ?case by simp
next
  case (Cons a as)
  show ?case
  proof (cases "as = []")
    case True
    with Cons.prems show ?thesis by auto
  next
    case False
    with Cons.prems have "a \<noteq> last as"
      using chain_distinct [of nxt nul p "a # as"] by auto
    with False Cons.prems have "nxt' a = nxt a" by auto
    moreover have "chain nxt' nul (nxt a) (as @ [x])"
      using Cons.prems False by (intro Cons.IH) auto
    ultimately show ?thesis using Cons.prems by auto
  qed
qed

text \<open>Taking one node out: its predecessor, or the head, is set to its successor.\<close>

lemma chain_unlink:
  assumes "chain nxt nul h (pre @ a # rest)"
  shows "chain (if pre = [] then nxt else nxt(last pre := nxt a)) nul (if pre = [] then nxt a else h) (pre @ rest)"
  using assms chain_distinct [OF assms]
proof (induction pre arbitrary: h)
  case Nil
  then show ?case by simp
next
  case (Cons b pre)
  show ?case
  proof (cases "pre = []")
    case True
    with Cons.prems show ?thesis by (auto simp del: fun_upd_apply simp: fun_upd_same)
  next
    case False
    then have "last pre \<noteq> b" using Cons.prems by auto
    with Cons.IH [of "nxt b"] Cons.prems False show ?thesis by auto
  qed
qed

end
