(* ===== verification/Halow_Port.thy ===== *)
theory Halow_Port
  imports Halow_Prelude
begin

text \<open>
  The embedding environment as the driver sees it (mm_halow_config.h): the millisecond
  tick, the interrupt-context test, the interrupt mask that the atomic sections save and
  restore, and a trace of the calls the driver makes out of the modelled code. The
  driver's own static variables are added by extending this record, one component at a
  time, so that every operation below runs on the state of the whole driver.

  Time is the true time in milliseconds, unbounded; the driver only ever sees its low
  32 bits. Straight-line code takes no time; the environment advances the clock whenever
  the driver gives up the processor.
\<close>

datatype mm_halow_pin = MM_HALOW_CS | MM_HALOW_RESET | MM_HALOW_WAKE | MM_HALOW_BUSY | MM_HALOW_IRQ

datatype event =
    Ev_heap_free ptr                \<comment> \<open>mm_halow_port_heap_free\<close>
  | Ev_turn nat                     \<comment> \<open>context switch into a task\<close>
  | Ev_callback ptr                 \<comment> \<open>a timer's callback is called\<close>
  | Ev_mutex_slow ptr nat u8 u32    \<comment> \<open>the slow mutex line: mutex, owner, its state, held for\<close>
  | Ev_log                          \<comment> \<open>one line of morselib's log let through\<close>
  | Ev_dropped u32                  \<comment> \<open>the line that counts dropped log lines\<close>
  | Ev_failure u32 u32 u32 u32      \<comment> \<open>the failure line: pc, lr, file, line\<close>
  | Ev_flow_control ptr u8          \<comment> \<open>morselib's flow control callback is called; the state it reads\<close>
  | Ev_pin_mode mm_halow_pin bool   \<comment> \<open>a pin is made an output (true) or an input\<close>
  | Ev_pin_write mm_halow_pin bool  \<comment> \<open>an output pin is driven\<close>
  | Ev_spi_init
  | Ev_spi_deinit
  | Ev_irq_config bool              \<comment> \<open>mm_halow_port_irq_config\<close>
  | Ev_irq_enable bool              \<comment> \<open>mm_halow_port_irq_enable\<close>
  | Ev_irq_handler ptr              \<comment> \<open>one of morselib's interrupt handlers is called\<close>
  | Ev_schedule_poll                \<comment> \<open>mm_halow_schedule_poll\<close>
  | Ev_print string                 \<comment> \<open>a line of the driver's own trace output\<close>
  | Ev_vendor string "u32 list"     \<comment> \<open>a morselib setting is pushed: function and arguments\<close>

record port_st =
  time_ms :: nat
  irq_ctx :: bool
  irq_off :: bool
  trace :: "event list"

definition mm_halow_ticks_ms :: "'a port_st_scheme \<Rightarrow> u32" where
  "mm_halow_ticks_ms s = of_nat (time_ms s)"

definition mm_halow_in_irq :: "'a port_st_scheme \<Rightarrow> bool" where
  "mm_halow_in_irq s = irq_ctx s"

definition emit :: "event \<Rightarrow> 'a port_st_scheme \<Rightarrow> 'a port_st_scheme" where
  "emit e s = s\<lparr>trace := trace s @ [e]\<rparr>"

section \<open>Atomic sections\<close>

text \<open>
  MM_HALOW_BEGIN_ATOMIC_SECTION masks interrupts and returns the previous mask, which
  MM_HALOW_END_ATOMIC_SECTION restores. \<open>atomically\<close> is the bracket the code writes
  around its short critical sections.
\<close>

definition begin_atomic :: "'a port_st_scheme \<Rightarrow> bool \<times> 'a port_st_scheme" where
  "begin_atomic s = (irq_off s, s\<lparr>irq_off := True\<rparr>)"

definition end_atomic :: "bool \<Rightarrow> 'a port_st_scheme \<Rightarrow> 'a port_st_scheme" where
  "end_atomic st s = s\<lparr>irq_off := st\<rparr>"

definition atomically ::
    "('a port_st_scheme \<Rightarrow> 'b \<times> 'a port_st_scheme) \<Rightarrow> 'a port_st_scheme \<Rightarrow> 'b \<times> 'a port_st_scheme" where
  "atomically f s =
     (let (st, s1) = begin_atomic s; (r, s2) = f s1 in (r, end_atomic st s2))"

lemmas atomic_defs = begin_atomic_def end_atomic_def atomically_def

lemma atomically_irq_off [simp]: "irq_off (snd (atomically f s)) = irq_off s"
  by (simp add: atomic_defs split: prod.split)

lemma atomically_eq:
  "atomically f s = (case f (s\<lparr>irq_off := True\<rparr>) of (r, s') \<Rightarrow> (r, s'\<lparr>irq_off := irq_off s\<rparr>))"
  by (simp add: atomic_defs split: prod.split)

end
