(* ===== verification/Halow_Heap.thy ===== *)
theory Halow_Heap
  imports Halow_Port
begin

text \<open>
  The driver's private heap (the first section of mm_halow_osal.c): a first-fit
  allocator over one pool taken from the host, with its block headers in the pool, in
  address order on a singly linked list, and adjacent free blocks coalesced on free.

  The pool is modelled at the level of addresses. A block header is a record stored at
  the block's address; payload bytes live in a byte memory of their own, which is sound
  because every block's header and payload are consecutive ranges of the pool and no two
  of them overlap (\<open>heap_rep\<close> and \<open>payloads_range\<close>).
  Addresses and sizes are 32-bit words, as on the Cortex-M target.
\<close>

section \<open>State and constants\<close>

record mm_halow_block =
  b_next :: ptr
  b_size :: u32
  b_used :: bool

record heap_st = port_st +
  mm_halow_heap_head :: ptr
  mm_halow_heap_mem :: ptr
  blk :: "ptr \<Rightarrow> mm_halow_block"
  bytes :: "ptr \<Rightarrow> u8"

text \<open>96 KB of pool; a header is three words, rounded up to 16 bytes.\<close>

abbreviation MM_HALOW_HEAP_SIZE :: u32 where "MM_HALOW_HEAP_SIZE \<equiv> 98304"
abbreviation MM_HALOW_BLOCK_ALIGN :: u32 where "MM_HALOW_BLOCK_ALIGN \<equiv> 8"

definition MM_HALOW_BLOCK_ROUND :: "u32 \<Rightarrow> u32" where
  "MM_HALOW_BLOCK_ROUND n = (n + (MM_HALOW_BLOCK_ALIGN - 1)) AND NOT (MM_HALOW_BLOCK_ALIGN - 1)"

abbreviation MM_HALOW_BLOCK_HDR :: u32 where "MM_HALOW_BLOCK_HDR \<equiv> 16"

lemma block_hdr_eq: "MM_HALOW_BLOCK_ROUND 12 = MM_HALOW_BLOCK_HDR"
  by (simp add: MM_HALOW_BLOCK_ROUND_def)

definition MM_HALOW_BLOCK_DATA :: "ptr \<Rightarrow> ptr" where
  "MM_HALOW_BLOCK_DATA b = b + MM_HALOW_BLOCK_HDR"

definition MM_HALOW_DATA_BLOCK :: "ptr \<Rightarrow> ptr" where
  "MM_HALOW_DATA_BLOCK p = p - MM_HALOW_BLOCK_HDR"

section \<open>Operations\<close>

text \<open>\<open>port_alloc\<close> is the host's mm_halow_port_heap_alloc().\<close>

definition mm_halow_osal_init ::
    "(u32 \<Rightarrow> ptr) \<Rightarrow> 'a heap_st_scheme \<Rightarrow> bool \<times> 'a heap_st_scheme" where
  "mm_halow_osal_init port_alloc s =
     (if mm_halow_heap_mem s \<noteq> 0 then (True, s)
      else let heap = port_alloc MM_HALOW_HEAP_SIZE in
        if heap = 0 then (False, s)
        else (True, s\<lparr>mm_halow_heap_mem := heap, mm_halow_heap_head := heap,
               blk := (blk s)(heap := \<lparr>b_next = 0,
                        b_size = MM_HALOW_HEAP_SIZE - MM_HALOW_BLOCK_HDR, b_used = False\<rparr>)\<rparr>))"

text \<open>The first-fit walk: the first block that is free and large enough, or NULL.\<close>

partial_function (option) heap_first_fit ::
    "(ptr \<Rightarrow> mm_halow_block) \<Rightarrow> u32 \<Rightarrow> ptr \<Rightarrow> ptr option" where
  "heap_first_fit m sz b =
     (if b = 0 then Some 0
      else if b_used (m b) \<or> b_size (m b) < sz then heap_first_fit m sz (b_next (m b))
      else Some b)"

text \<open>Taking block \<open>b\<close>: split it if the remainder can hold a header and 8 bytes.\<close>

definition heap_take :: "u32 \<Rightarrow> ptr \<Rightarrow> (ptr \<Rightarrow> mm_halow_block) \<Rightarrow> (ptr \<Rightarrow> mm_halow_block)" where
  "heap_take sz b m =
     (let m1 = (if b_size (m b) \<ge> sz + MM_HALOW_BLOCK_HDR + MM_HALOW_BLOCK_ALIGN then
                  let split = b + MM_HALOW_BLOCK_HDR + sz;
                      m' = m(split := \<lparr>b_next = b_next (m b),
                              b_size = b_size (m b) - sz - MM_HALOW_BLOCK_HDR, b_used = False\<rparr>)
                  in m'(b := (m' b)\<lparr>b_next := split, b_size := sz\<rparr>)
                else m)
      in m1(b := (m1 b)\<lparr>b_used := True\<rparr>))"

definition mm_halow_osal_malloc ::
    "u32 \<Rightarrow> 'a heap_st_scheme \<Rightarrow> (ptr \<times> 'a heap_st_scheme) option" where
  "mm_halow_osal_malloc sz s =
     (if sz = 0 then Some (0, s)
      else if sz > MM_HALOW_HEAP_SIZE then Some (0, s)
      else let sz = MM_HALOW_BLOCK_ROUND sz in
        if mm_halow_heap_head s = 0 then Some (0, s)
        else do {
          let (atomic_state, s1) = begin_atomic s;
          b \<leftarrow> heap_first_fit (blk s1) sz (mm_halow_heap_head s1);
          let (p, s2) = (if b = 0 then (0, s1)
                         else (MM_HALOW_BLOCK_DATA b, s1\<lparr>blk := heap_take sz b (blk s1)\<rparr>));
          Some (p, end_atomic atomic_state s2)
        })"

partial_function (option) heap_coalesce ::
    "(ptr \<Rightarrow> mm_halow_block) \<Rightarrow> ptr \<Rightarrow> (ptr \<Rightarrow> mm_halow_block) option" where
  "heap_coalesce m b =
     (if b = 0 \<or> b_next (m b) = 0 then Some m
      else if \<not> b_used (m b) \<and> \<not> b_used (m (b_next (m b))) then
        heap_coalesce (m(b := (m b)\<lparr>
            b_size := b_size (m b) + (MM_HALOW_BLOCK_HDR + b_size (m (b_next (m b)))),
            b_next := b_next (m (b_next (m b)))\<rparr>)) b
      else heap_coalesce m (b_next (m b)))"

definition mm_halow_osal_free :: "ptr \<Rightarrow> 'a heap_st_scheme \<Rightarrow> 'a heap_st_scheme option" where
  "mm_halow_osal_free p s =
     (if p = 0 \<or> mm_halow_heap_head s = 0 then Some s
      else do {
        let (atomic_state, s1) = begin_atomic s;
        let b = MM_HALOW_DATA_BLOCK p;
        m \<leftarrow> heap_coalesce ((blk s1)(b := (blk s1 b)\<lparr>b_used := False\<rparr>)) (mm_halow_heap_head s1);
        Some (end_atomic atomic_state (s1\<lparr>blk := m\<rparr>))
      })"

text \<open>C's memset and memcpy on the byte memory (32-bit addresses, so offsets wrap).\<close>

definition memset :: "ptr \<Rightarrow> u8 \<Rightarrow> u32 \<Rightarrow> (ptr \<Rightarrow> u8) \<Rightarrow> (ptr \<Rightarrow> u8)" where
  "memset dst v n m = (\<lambda>a. if a - dst < n then v else m a)"

definition memcpy :: "ptr \<Rightarrow> ptr \<Rightarrow> u32 \<Rightarrow> (ptr \<Rightarrow> u8) \<Rightarrow> (ptr \<Rightarrow> u8)" where
  "memcpy dst src n m = (\<lambda>a. if a - dst < n then m (src + (a - dst)) else m a)"

definition mmosal_malloc :: "u32 \<Rightarrow> 'a heap_st_scheme \<Rightarrow> (ptr \<times> 'a heap_st_scheme) option" where
  "mmosal_malloc sz s = mm_halow_osal_malloc sz s"

definition mmosal_calloc ::
    "u32 \<Rightarrow> u32 \<Rightarrow> 'a heap_st_scheme \<Rightarrow> (ptr \<times> 'a heap_st_scheme) option" where
  "mmosal_calloc nitems sz s =
     (if nitems \<noteq> 0 \<and> sz > (- 1) div nitems then Some (0, s)
      else do {
        let total = nitems * sz;
        (p, s1) \<leftarrow> mm_halow_osal_malloc total s;
        Some (p, if p \<noteq> 0 then s1\<lparr>bytes := memset p 0 total (bytes s1)\<rparr> else s1)
      })"

definition mmosal_realloc ::
    "ptr \<Rightarrow> u32 \<Rightarrow> 'a heap_st_scheme \<Rightarrow> (ptr \<times> 'a heap_st_scheme) option" where
  "mmosal_realloc p sz s =
     (if p = 0 then mm_halow_osal_malloc sz s
      else if sz = 0 then do { s1 \<leftarrow> mm_halow_osal_free p s; Some (0, s1) }
      else let old_size = b_size (blk s (MM_HALOW_DATA_BLOCK p)) in
        if old_size \<ge> sz then Some (p, s)
        else do {
          (new_ptr, s1) \<leftarrow> mm_halow_osal_malloc sz s;
          if new_ptr \<noteq> 0 then do {
            s2 \<leftarrow> mm_halow_osal_free p (s1\<lparr>bytes := memcpy new_ptr p old_size (bytes s1)\<rparr>);
            Some (new_ptr, s2)
          } else Some (new_ptr, s1)
        })"

definition mmosal_free :: "ptr \<Rightarrow> 'a heap_st_scheme \<Rightarrow> 'a heap_st_scheme option" where
  "mmosal_free p s = mm_halow_osal_free p s"

text \<open>
  The part of mm_halow_osal_deinit() that gives the pool back; dropping the timer list
  is added where the timers are.
\<close>

definition heap_release :: "'a heap_st_scheme \<Rightarrow> 'a heap_st_scheme" where
  "heap_release s =
     (let s1 = s\<lparr>mm_halow_heap_head := 0\<rparr> in
      if mm_halow_heap_mem s1 \<noteq> 0
      then (emit (Ev_heap_free (mm_halow_heap_mem s1)) s1)\<lparr>mm_halow_heap_mem := 0\<rparr>
      else s1)"

end
