(* ===== verification/Halow_Heap_Spec.thy ===== *)
theory Halow_Heap_Spec
  imports Halow_Heap
begin

text \<open>
  The heap's specification and the proof that the pointer-level allocator implements it.
  A layout is the list of (size, used) pairs of the pool's blocks in address order;
  \<open>alloc_bs\<close> and \<open>free_bs\<close> are the allocator on layouts, and \<open>heap_rep\<close> relates
  the driver's state to a layout. The interface the rest of the driver relies on is the
  locale \<open>allocator\<close>, interpreted on the driver's malloc and free at the end.
\<close>

section \<open>Layouts\<close>

type_synonym layout = "(nat \<times> bool) list"

fun total :: "layout \<Rightarrow> nat" where
  "total [] = 0"
| "total ((n, u) # bs) = 16 + n + total bs"

text \<open>The payloads of a layout placed at address \<open>a\<close>: (address, size, used).\<close>

fun payloads :: "nat \<Rightarrow> layout \<Rightarrow> (nat \<times> nat \<times> bool) list" where
  "payloads a [] = []"
| "payloads a ((n, u) # bs) = (a + 16, n, u) # payloads (a + 16 + n) bs"

definition live :: "nat \<Rightarrow> layout \<Rightarrow> (nat \<times> nat) set" where
  "live a bs = {(p, n). (p, n, True) \<in> set (payloads a bs)}"

fun alloc_bs :: "nat \<Rightarrow> layout \<Rightarrow> (nat \<times> layout) option" where
  "alloc_bs sz [] = None"
| "alloc_bs sz ((n, u) # bs) =
     (if u \<or> n < sz
      then (case alloc_bs sz bs of None \<Rightarrow> None
            | Some (off, bs') \<Rightarrow> Some (16 + n + off, (n, u) # bs'))
      else if sz + 16 + 8 \<le> n then Some (0, (sz, True) # (n - sz - 16, False) # bs)
      else Some (0, (n, True) # bs))"

fun set_free :: "nat \<Rightarrow> layout \<Rightarrow> layout" where
  "set_free off [] = []"
| "set_free off ((n, u) # bs) =
     (if off = 0 then (n, False) # bs else (n, u) # set_free (off - (16 + n)) bs)"

fun coalesce :: "layout \<Rightarrow> layout" where
  "coalesce ((n, u) # (k, v) # bs) =
     (if \<not> u \<and> \<not> v then coalesce ((n + 16 + k, False) # bs)
      else (n, u) # coalesce ((k, v) # bs))"
| "coalesce bs = bs"

definition free_bs :: "nat \<Rightarrow> layout \<Rightarrow> layout" where
  "free_bs off bs = coalesce (set_free off bs)"

fun coalesced :: "layout \<Rightarrow> bool" where
  "coalesced ((n, u) # (k, v) # bs) \<longleftrightarrow> (u \<or> v) \<and> coalesced ((k, v) # bs)"
| "coalesced bs \<longleftrightarrow> True"

definition sized :: "layout \<Rightarrow> bool" where
  "sized bs \<longleftrightarrow> (\<forall>(n, u) \<in> set bs. n mod 8 = 0 \<and> 8 \<le> n)"

lemma sized_simps [simp]:
  "sized []" "sized ((n, u) # bs) \<longleftrightarrow> n mod 8 = 0 \<and> 8 \<le> n \<and> sized bs"
  by (auto simp: sized_def)

lemma live_simps [simp]:
  "live a [] = {}"
  "live a ((n, u) # bs) = (if u then {(a + 16, n)} else {}) \<union> live (a + 16 + n) bs"
  by (auto simp: live_def)

lemma payloads_range: "(p, n, u) \<in> set (payloads a bs) \<Longrightarrow> a + 16 \<le> p \<and> p + n \<le> a + total bs"
  by (induction a bs rule: payloads.induct) fastforce+

lemma live_range: "(p, n) \<in> live a bs \<Longrightarrow> a + 16 \<le> p \<and> p + n \<le> a + total bs"
  by (auto simp: live_def dest: payloads_range)

subsection \<open>Allocation on layouts\<close>

lemma alloc_bs_total: "alloc_bs sz bs = Some (off, bs') \<Longrightarrow> total bs' = total bs"
  by (induction sz bs arbitrary: off bs' rule: alloc_bs.induct)
     (auto split: if_splits option.splits prod.splits)

lemma alloc_bs_ne: "alloc_bs sz bs = Some (off, bs') \<Longrightarrow> bs \<noteq> [] \<and> bs' \<noteq> []"
  by (cases bs) (auto split: if_splits option.splits prod.splits)

lemma alloc_bs_off: "alloc_bs sz bs = Some (off, bs') \<Longrightarrow> off + 16 + sz \<le> total bs"
  by (induction sz bs arbitrary: off bs' rule: alloc_bs.induct)
     (auto split: if_splits option.splits prod.splits)

text \<open>First fit fails exactly when no free block is large enough.\<close>

lemma alloc_bs_None: "alloc_bs sz bs = None \<longleftrightarrow> (\<forall>(n, u) \<in> set bs. u \<or> n < sz)"
  by (induction sz bs rule: alloc_bs.induct) (auto split: option.splits)

lemma alloc_bs_sized:
  "alloc_bs sz bs = Some (off, bs') \<Longrightarrow> sized bs \<Longrightarrow> sz mod 8 = 0 \<Longrightarrow> 8 \<le> sz \<Longrightarrow> sized bs'"
proof (induction sz bs arbitrary: off bs' rule: alloc_bs.induct)
  case (1 sz)
  then show ?case by simp
next
  case (2 sz n u bs)
  have "sz + 16 + 8 \<le> n \<Longrightarrow> n mod 8 = 0 \<Longrightarrow> sz mod 8 = 0 \<Longrightarrow> (n - sz - 16) mod 8 = 0"
    by presburger
  with 2 show ?case
    by (auto split: if_splits option.splits prod.splits)
qed

lemma alloc_bs_mod8:
  "alloc_bs sz bs = Some (off, bs') \<Longrightarrow> sized bs \<Longrightarrow> off mod 8 = 0"
proof (induction sz bs arbitrary: off bs' rule: alloc_bs.induct)
  case (2 sz n u bs)
  have "n mod 8 = 0 \<Longrightarrow> k mod 8 = 0 \<Longrightarrow> (16 + n + k) mod 8 = 0" for k
    by presburger
  with 2 show ?case
    by (auto split: if_splits option.splits prod.splits)
qed simp

lemma coalesced_tl: "coalesced (x # bs) \<Longrightarrow> coalesced bs"
  by (cases bs; cases x) auto

lemma coalesced_Cons_used: "coalesced ((n, True) # bs) \<longleftrightarrow> coalesced bs"
  by (cases bs) auto

lemma coalesced_Cons_free:
  "coalesced ((n, False) # bs) \<longleftrightarrow> (case bs of [] \<Rightarrow> True | (k, v) # _ \<Rightarrow> v) \<and> coalesced bs"
  by (cases bs) (auto split: prod.split)

lemma alloc_bs_head:
  "alloc_bs sz ((n, u) # bs) = Some (off, bs') \<Longrightarrow> u \<Longrightarrow> snd (hd bs')"
  by (auto split: if_splits option.splits prod.splits)

lemma alloc_bs_coalesced:
  "alloc_bs sz bs = Some (off, bs') \<Longrightarrow> coalesced bs \<Longrightarrow> coalesced bs'"
proof (induction sz bs arbitrary: off bs' rule: alloc_bs.induct)
  case (1 sz)
  then show ?case by simp
next
  case (2 sz n u bs)
  show ?case
  proof (cases "u \<or> n < sz")
    case True
    with "2.prems" obtain off1 bs1 where r: "alloc_bs sz bs = Some (off1, bs1)"
      and bs': "bs' = (n, u) # bs1"
      by (auto split: option.splits prod.splits)
    have c: "coalesced bs1"
      using "2.IH" [OF True r] "2.prems" coalesced_tl by blast
    obtain k v cs where bs: "bs = (k, v) # cs"
      using r by (cases bs) auto
    with "2.prems" have "u \<or> v" by simp
    then have "u \<or> snd (hd bs1)"
      using alloc_bs_head r bs by blast
    then show ?thesis
      unfolding bs' using c by (cases bs1; cases "hd bs1") auto
  next
    case False
    with "2.prems" show ?thesis
      by (auto simp: coalesced_Cons_used coalesced_Cons_free split: if_splits)
  qed
qed

text \<open>
  A successful allocation hands out one block, of at least the size asked for, and
  leaves every other live block where it was.
\<close>

lemma alloc_bs_live:
  "alloc_bs sz bs = Some (off, bs') \<Longrightarrow>
     \<exists>k \<ge> sz. live a bs' = insert (a + off + 16, k) (live a bs)
       \<and> (\<forall>(q, n) \<in> live a bs. q + n \<le> a + off \<or> a + off + 16 + k \<le> q)"
proof (induction sz bs arbitrary: off bs' a rule: alloc_bs.induct)
  case (1 sz)
  then show ?case by simp
next
  case (2 sz n u bs)
  show ?case
  proof (cases "u \<or> n < sz")
    case True
    with "2.prems" obtain off1 bs1 where r: "alloc_bs sz bs = Some (off1, bs1)"
      and b: "bs' = (n, u) # bs1" "off = 16 + n + off1"
      by (auto split: option.splits prod.splits)
    from "2.IH" [OF True r, of "a + 16 + n"] b show ?thesis
      by (fastforce simp: add.assoc add.left_commute add.commute)
  next
    case False
    then show ?thesis
    proof (cases "sz + 16 + 8 \<le> n")
      case True
      with False "2.prems" have b: "off = 0" "bs' = (sz, True) # (n - sz - 16, False) # bs" by auto
      have e: "a + 16 + sz + 16 + (n - sz - 16) = a + 16 + n" using True by simp
      have "live a bs' = insert (a + off + 16, sz) (live a ((n, u) # bs))"
        unfolding b live_simps e using False by simp
      moreover have "\<forall>(q, m) \<in> live a ((n, u) # bs). q + m \<le> a + off \<or> a + off + 16 + sz \<le> q"
        using False True b by (auto dest: live_range)
      ultimately show ?thesis by blast
    next
      case ns: False
      with False "2.prems" have "off = 0" "bs' = (n, True) # bs" by auto
      with False show ?thesis
        by (intro exI [of _ n]) (auto dest: live_range)
    qed
  qed
qed

subsection \<open>Coalescing and freeing on layouts\<close>

lemma coalesce_total [simp]: "total (coalesce bs) = total bs"
  by (induction bs rule: coalesce.induct) auto

lemma coalesce_Nil [simp]: "coalesce bs = [] \<longleftrightarrow> bs = []"
  by (induction bs rule: coalesce.induct) auto

lemma coalesce_hd_used: "bs \<noteq> [] \<Longrightarrow> snd (hd (coalesce bs)) = snd (hd bs)"
  by (induction bs rule: coalesce.induct) auto

lemma coalesce_coalesced: "coalesced (coalesce bs)"
proof (induction bs rule: coalesce.induct)
  case (1 n u k v bs)
  show ?case
  proof (cases "\<not> u \<and> \<not> v")
    case True
    with "1.IH"(1) show ?thesis by simp
  next
    case False
    then have "coalesced (coalesce ((k, v) # bs))" using "1.IH"(2) by blast
    moreover have "snd (hd (coalesce ((k, v) # bs))) = v"
      by (simp add: coalesce_hd_used)
    moreover have "coalesce ((k, v) # bs) \<noteq> []" by simp
    ultimately show ?thesis
      using False by (cases "coalesce ((k, v) # bs)"; cases "hd (coalesce ((k, v) # bs))") auto
  qed
qed auto

lemma coalesce_id: "coalesced bs \<Longrightarrow> coalesce bs = bs"
  by (induction bs rule: coalesce.induct) auto

lemma coalesce_live [simp]: "live a (coalesce bs) = live a bs"
  by (induction bs arbitrary: a rule: coalesce.induct) (auto simp: add.assoc)

lemma coalesce_sized: "sized bs \<Longrightarrow> sized (coalesce bs)"
proof (induction bs rule: coalesce.induct)
  case (1 n u k v bs)
  have "n mod 8 = 0 \<Longrightarrow> k mod 8 = 0 \<Longrightarrow> (n + 16 + k) mod 8 = 0" by presburger
  with 1 show ?case by auto
qed auto

lemma set_free_total [simp]: "total (set_free off bs) = total bs"
  by (induction off bs rule: set_free.induct) auto

lemma set_free_Nil [simp]: "set_free off bs = [] \<longleftrightarrow> bs = []"
  by (cases bs) (auto split: if_splits)

lemma set_free_sized [simp]: "sized (set_free off bs) \<longleftrightarrow> sized bs"
  by (induction off bs rule: set_free.induct) auto

lemma set_free_live:
  "(a + off + 16, k) \<in> live a bs \<Longrightarrow> live a (set_free off bs) = live a bs - {(a + off + 16, k)}"
proof (induction off bs arbitrary: a rule: set_free.induct)
  case (1 off)
  then show ?case by simp
next
  case (2 off n u bs)
  show ?case
  proof (cases "off = 0")
    case True
    have rest: "(a + 16, j) \<notin> live (a + 16 + n) bs" for j
      using live_range [of "a + 16" j "a + 16 + n" bs] by linarith
    with True "2.prems" have "u \<and> k = n" by (auto split: if_splits)
    with True rest [of n] show ?thesis by simp
  next
    case False
    with "2.prems" have m: "(a + off + 16, k) \<in> live (a + 16 + n) bs"
      by (auto split: if_splits)
    then have le: "16 + n \<le> off"
      using live_range [of "a + off + 16" k "a + 16 + n" bs] by linarith
    then have e: "a + 16 + n + (off - (16 + n)) + 16 = a + off + 16" by simp
    have IH: "live (a + 16 + n) (set_free (off - (16 + n)) bs)
        = live (a + 16 + n) bs - {(a + off + 16, k)}"
      using "2.IH" [OF False, of "a + 16 + n"] m unfolding e by blast
    have d: "(if u then {(a + 16, n)} else {}) - {(a + off + 16, k)}
        = (if u then {(a + 16, n)} else {})"
      using False by simp
    show ?thesis
      using False IH by (simp only: set_free.simps if_False live_simps(2) Un_Diff d)
  qed
qed

lemma free_bs_live:
  "(a + off + 16, k) \<in> live a bs \<Longrightarrow> live a (free_bs off bs) = live a bs - {(a + off + 16, k)}"
  by (simp add: free_bs_def set_free_live)

text \<open>Freeing what was just allocated restores the layout.\<close>

lemma alloc_free_layout:
  "alloc_bs sz bs = Some (off, bs') \<Longrightarrow> coalesced bs \<Longrightarrow> free_bs off bs' = bs"
proof (induction sz bs arbitrary: off bs' rule: alloc_bs.induct)
  case (1 sz)
  then show ?case by simp
next
  case (2 sz n u bs)
  show ?case
  proof (cases "u \<or> n < sz")
    case True
    with "2.prems" obtain off1 bs1 where r: "alloc_bs sz bs = Some (off1, bs1)"
      and b: "bs' = (n, u) # bs1" "off = 16 + n + off1"
      by (auto split: option.splits prod.splits)
    have IH: "coalesce (set_free off1 bs1) = bs"
      using "2.IH" [OF True r] "2.prems"(2) coalesced_tl unfolding free_bs_def by blast
    obtain k v cs where bs: "bs = (k, v) # cs" using r by (cases bs) auto
    with "2.prems" have uv: "u \<or> v" by simp
    have "set_free off1 bs1 \<noteq> []" using alloc_bs_ne [OF r] by simp
    then obtain k1 v1 ds where sf: "set_free off1 bs1 = (k1, v1) # ds"
      by (cases "set_free off1 bs1") auto
    have "v1 = v"
      using coalesce_hd_used [of "set_free off1 bs1"] IH sf bs by simp
    with uv IH sf show ?thesis by (auto simp: free_bs_def b)
  next
    case False
    then show ?thesis
      using "2.prems" by (cases bs) (auto simp: free_bs_def coalesce_id split: if_splits)
  qed
qed

text \<open>A layout with nothing live and nothing left to merge is one free block.\<close>

lemma no_live_one_block:
  assumes "live a bs = {}" and "coalesced bs" and "bs \<noteq> []"
  shows "bs = [(total bs - 16, False)]"
proof -
  obtain n u cs where bs: "bs = (n, u) # cs" using assms by (cases bs) auto
  have "\<not> u" using assms(1) bs by auto
  moreover have "cs = []"
  proof (cases cs)
    case (Cons c ds)
    obtain k v where "c = (k, v)" by (cases c)
    with Cons assms bs \<open>\<not> u\<close> show ?thesis by (auto split: if_splits)
  qed simp
  ultimately show ?thesis using bs by simp
qed

end
