(* ===== verification/Halow_Heap_Refinement.thy ===== *)
theory Halow_Heap_Refinement
  imports Halow_Heap_Spec
begin

text \<open>
  The pointer-level heap implements the layout specification: the relation \<open>heap_rep\<close>,
  one simulation lemma per operation, the interface locale \<open>allocator\<close> with its
  interpretation, and the properties of the allocator.
\<close>

section \<open>Rounding\<close>

lemma unat_and_not_mask: "unat (w AND NOT (mask n) :: u32) = unat w - unat w mod 2 ^ n"
proof -
  have "w AND NOT (mask n) = w - take_bit n w"
    by (subst disjunctive_diff_eq_and_not) (auto intro!: bit_word_eqI simp: bit_simps)
  moreover have "unat (take_bit n w) = unat w mod 2 ^ n"
    by (simp only: unsigned_take_bit_eq) (simp only: take_bit_eq_mod)
  ultimately show ?thesis
    by (simp add: unat_sub_u32)
qed

lemma block_round_nat:
  "unat n \<le> 98304 \<Longrightarrow> unat (MM_HALOW_BLOCK_ROUND n) = (unat n + 7) div 8 * 8"
proof -
  assume n: "unat n \<le> 98304"
  have m: "(7 :: u32) = mask 3" by (simp add: mask_eq_exp_minus_1)
  have "unat (n + 7) = unat n + 7" using n by (simp add: unat_add_u32)
  then have "unat (MM_HALOW_BLOCK_ROUND n) = unat n + 7 - (unat n + 7) mod 8"
    unfolding MM_HALOW_BLOCK_ROUND_def using unat_and_not_mask [of "n + 7" 3] m by simp
  then show ?thesis by (simp add: minus_mod_eq_div_mult)
qed

section \<open>The representation relation\<close>

fun blocks_at :: "(ptr \<Rightarrow> mm_halow_block) \<Rightarrow> nat \<Rightarrow> layout \<Rightarrow> bool" where
  "blocks_at m a [] \<longleftrightarrow> True"
| "blocks_at m a ((n, u) # bs) \<longleftrightarrow>
     m (of_nat a) = \<lparr>b_next = (if bs = [] then 0 else of_nat (a + 16 + n)),
                     b_size = of_nat n, b_used = u\<rparr>
     \<and> blocks_at m (a + 16 + n) bs"

lemma blocks_at_cong:
  "(\<And>x. a \<le> x \<Longrightarrow> x < a + total bs \<Longrightarrow> m (of_nat x) = m' (of_nat x)) \<Longrightarrow>
     blocks_at m a bs \<longleftrightarrow> blocks_at m' a bs"
proof (induction m a bs rule: blocks_at.induct)
  case (2 m a n u bs)
  have "m (of_nat a) = m' (of_nat a)" by (rule "2.prems") auto
  moreover have "blocks_at m (a + 16 + n) bs = blocks_at m' (a + 16 + n) bs"
    by (rule "2.IH") (auto intro: "2.prems")
  ultimately show ?case by simp
qed simp

definition heap_rep :: "'a heap_st_scheme \<Rightarrow> layout \<Rightarrow> bool" where
  "heap_rep s bs \<longleftrightarrow>
     mm_halow_heap_head s = mm_halow_heap_mem s \<and> mm_halow_heap_mem s \<noteq> 0
     \<and> unat (mm_halow_heap_mem s) mod 8 = 0 \<and> unat (mm_halow_heap_mem s) + 98304 \<le> 4294967296
     \<and> blocks_at (blk s) (unat (mm_halow_heap_mem s)) bs \<and> total bs = 98304
     \<and> sized bs \<and> coalesced bs"

abbreviation heap_base :: "'a heap_st_scheme \<Rightarrow> nat" where
  "heap_base s \<equiv> unat (mm_halow_heap_mem s)"

lemma heap_rep_ne: "heap_rep s bs \<Longrightarrow> bs \<noteq> []"
  by (auto simp: heap_rep_def)

section \<open>Allocation\<close>

lemma heap_take_other:
  "x \<noteq> b \<Longrightarrow> x \<noteq> b + MM_HALOW_BLOCK_HDR + sz \<Longrightarrow> heap_take sz b m x = m x"
  by (simp add: heap_take_def Let_def)

lemma heap_take_other_nat:
  assumes "0 < x" "x < 4294967296" "b + 16 + sz \<le> 4294967296" "x \<noteq> b" "x \<noteq> b + 16 + sz"
  shows "heap_take (of_nat sz) (of_nat b) m (of_nat x) = m (of_nat x)"
proof (rule heap_take_other)
  show "(of_nat x :: u32) \<noteq> of_nat b"
    using assms by (subst of_nat_u32_eq_iff) auto
  have e: "(of_nat b + MM_HALOW_BLOCK_HDR + of_nat sz :: u32) = of_nat (b + 16 + sz)" by simp
  show "(of_nat x :: u32) \<noteq> of_nat b + MM_HALOW_BLOCK_HDR + of_nat sz"
  proof (cases "b + 16 + sz = 4294967296")
    case True
    have "(of_nat (4294967296 :: nat) :: u32) = 0" by simp
    with True show ?thesis
      unfolding e using assms by (metis of_nat_u32_eq_0_iff less_irrefl_nat)
  next
    case False
    with assms show ?thesis
      unfolding e by (subst of_nat_u32_eq_iff) auto
  qed
qed

text \<open>One block: the concrete split is the abstract one.\<close>

lemma heap_take_blocks:
  assumes rep: "blocks_at m a ((n, False) # bs)"
    and sz: "sz \<le> n" "sz + 24 < 4294967296" and a: "0 < a" "a + 16 + n + total bs \<le> 4294967296"
  shows "blocks_at (heap_take (of_nat sz) (of_nat a) m) a
           (if sz + 16 + 8 \<le> n then (sz, True) # (n - sz - 16, False) # bs else (n, True) # bs)"
proof -
  let ?t = "heap_take (of_nat sz) (of_nat a) m"
  have hd: "m (of_nat a) = \<lparr>b_next = (if bs = [] then 0 else of_nat (a + 16 + n)),
                     b_size = of_nat n, b_used = False\<rparr>"
    using rep by simp
  have n32: "n < 4294967296" using a by simp
  have restI: "blocks_at m' (a + 16 + n) bs"
    if "\<And>x. a + 16 + n \<le> x \<Longrightarrow> x < a + 16 + n + total bs \<Longrightarrow> m (of_nat x) = m' (of_nat x)" for m'
    using rep blocks_at_cong [of "a + 16 + n" bs m m'] that by simp
  have cond: "b_size (m (of_nat a)) \<ge> of_nat sz + MM_HALOW_BLOCK_HDR + MM_HALOW_BLOCK_ALIGN
      \<longleftrightarrow> sz + 16 + 8 \<le> n"
  proof -
    have "(of_nat sz + MM_HALOW_BLOCK_HDR + MM_HALOW_BLOCK_ALIGN :: u32) = of_nat (sz + 16 + 8)"
      by simp
    then have "unat (of_nat sz + MM_HALOW_BLOCK_HDR + MM_HALOW_BLOCK_ALIGN :: u32) = sz + 24"
      using sz by (simp only: unat_of_nat_u32)
    then show ?thesis
      using n32 by (simp add: hd word_le_nat_alt unat_of_nat_u32 add.commute)
  qed
  show ?thesis
  proof (cases "sz + 16 + 8 \<le> n")
    case True
    have rest: "blocks_at ?t (a + 16 + n) bs"
      by (rule restI, rule heap_take_other_nat [symmetric]) (use a True in linarith)+
    have sp: "(of_nat a + MM_HALOW_BLOCK_HDR + of_nat sz :: u32) = of_nat (a + 16 + sz)" by simp
    have ne: "(of_nat (a + 16 + sz) :: u32) \<noteq> of_nat a"
      using True a by (subst of_nat_u32_eq_iff) auto
    have r: "(of_nat n - of_nat sz - MM_HALOW_BLOCK_HDR :: u32) = of_nat (n - sz - 16)"
      using True by (simp add: of_nat_diff)
    have t: "?t (of_nat a) = \<lparr>b_next = of_nat (a + 16 + sz), b_size = of_nat sz, b_used = True\<rparr>"
      "?t (of_nat (a + 16 + sz)) = \<lparr>b_next = (if bs = [] then 0 else of_nat (a + 16 + n)),
          b_size = of_nat (n - sz - 16), b_used = False\<rparr>"
      unfolding heap_take_def Let_def sp using True a ne r cond hd by simp_all
    have e: "a + 16 + sz + 16 + (n - sz - 16) = a + 16 + n" using True by simp
    show ?thesis
      unfolding if_P [OF True] blocks_at.simps e using t rest by (simp del: of_nat_add of_nat_diff)
  next
    case False
    have te: "?t = m(of_nat a := (m (of_nat a))\<lparr>b_used := True\<rparr>)"
      unfolding heap_take_def Let_def using False a cond sz by simp
    have t: "?t (of_nat a) = \<lparr>b_next = (if bs = [] then 0 else of_nat (a + 16 + n)),
          b_size = of_nat n, b_used = True\<rparr>"
      unfolding te using hd by simp
    have rest: "blocks_at ?t (a + 16 + n) bs"
      by (rule restI) (use a in \<open>auto simp: te of_nat_u32_eq_iff\<close>)
    show ?thesis
      using False t rest by (simp del: of_nat_add)
  qed
qed

lemma first_fit_refines:
  assumes "blocks_at m a bs" and "bs \<noteq> []" and "0 < a" and "a + total bs \<le> 4294967296"
    and "sz + 24 < 4294967296"
  shows "case alloc_bs sz bs of
           None \<Rightarrow> heap_first_fit m (of_nat sz) (of_nat a) = Some 0
         | Some (off, bs') \<Rightarrow> heap_first_fit m (of_nat sz) (of_nat a) = Some (of_nat (a + off))
             \<and> blocks_at (heap_take (of_nat sz) (of_nat (a + off)) m) a bs'"
  using assms
proof (induction bs arbitrary: a)
  case Nil
  then show ?case by simp
next
  case (Cons x bs)
  obtain n u where x: "x = (n, u)" by (cases x)
  let ?f = "heap_first_fit m (of_nat sz)"
  have a0: "(of_nat a :: u32) \<noteq> 0"
    using Cons.prems x by (subst of_nat_u32_eq_0_iff) auto
  have hd: "m (of_nat a) = \<lparr>b_next = (if bs = [] then 0 else of_nat (a + 16 + n)),
                     b_size = of_nat n, b_used = u\<rparr>"
    using Cons.prems x by simp
  have lt: "b_size (m (of_nat a)) < of_nat sz \<longleftrightarrow> n < sz"
    using Cons.prems x by (simp add: hd word_less_nat_alt unat_of_nat_u32)
  show ?case
  proof (cases "u \<or> n < sz")
    case skip: True
    then have step: "?f (of_nat a) = ?f (b_next (m (of_nat a)))"
      using a0 lt hd by (subst heap_first_fit.simps) auto
    show ?thesis
    proof (cases "bs = []")
      case True
      have "?f 0 = Some 0" by (subst heap_first_fit.simps) simp
      with True skip step hd x show ?thesis by auto
    next
      case False
      have IH: "case alloc_bs sz bs of
           None \<Rightarrow> ?f (of_nat (a + 16 + n)) = Some 0
         | Some (off, bs') \<Rightarrow> ?f (of_nat (a + 16 + n)) = Some (of_nat (a + 16 + n + off))
             \<and> blocks_at (heap_take (of_nat sz) (of_nat (a + 16 + n + off)) m) (a + 16 + n) bs'"
        using Cons.prems x False by (intro Cons.IH) auto
      have fe: "?f (of_nat a) = ?f (of_nat (a + 16 + n))"
        using step hd False by simp
      show ?thesis
      proof (cases "alloc_bs sz bs")
        case None
        with skip IH fe show ?thesis by (simp add: x)
      next
        case (Some r)
        obtain off bs' where r: "r = (off, bs')" by (cases r)
        note al = Some [unfolded r]
        have off: "off + 16 + sz \<le> total bs" using alloc_bs_off [OF al] .
        have keep: "heap_take (of_nat sz) (of_nat (a + (16 + n + off))) m (of_nat a) = m (of_nat a)"
          by (rule heap_take_other_nat) (use Cons.prems x off in auto)
        have "bs' \<noteq> []" using alloc_bs_ne [OF al] by simp
        then have "blocks_at (heap_take (of_nat sz) (of_nat (a + (16 + n + off))) m) a ((n, u) # bs')"
          unfolding blocks_at.simps keep using IH hd False al by (simp add: add.assoc)
        then show ?thesis
          using skip IH fe al by (simp add: x add.assoc)
      qed
    qed
  next
    case False
    then have "?f (of_nat a) = Some (of_nat a)"
      using a0 lt hd by (subst heap_first_fit.simps) auto
    moreover have "blocks_at (heap_take (of_nat sz) (of_nat a) m) a
           (if sz + 16 + 8 \<le> n then (sz, True) # (n - sz - 16, False) # bs else (n, True) # bs)"
      by (rule heap_take_blocks) (use False Cons.prems x in auto)
    ultimately show ?thesis
      using False by (cases "sz + 16 + 8 \<le> n") (simp_all add: x del: blocks_at.simps)
  qed
qed

section \<open>Freeing\<close>

lemma set_free_refines:
  "blocks_at m a bs \<Longrightarrow> 0 < a \<Longrightarrow> a + total bs \<le> 4294967296 \<Longrightarrow> (a + off + 16, k) \<in> live a bs \<Longrightarrow>
     blocks_at (m(of_nat (a + off) := (m (of_nat (a + off)))\<lparr>b_used := False\<rparr>)) a (set_free off bs)"
proof (induction off bs arbitrary: a rule: set_free.induct)
  case (1 off)
  then show ?case by simp
next
  case (2 off n u bs)
  let ?m = "m(of_nat (a + off) := (m (of_nat (a + off)))\<lparr>b_used := False\<rparr>)"
  show ?case
  proof (cases "off = 0")
    case True
    have "blocks_at m (a + 16 + n) bs \<longleftrightarrow> blocks_at ?m (a + 16 + n) bs"
      by (rule blocks_at_cong) (use "2.prems" True in \<open>auto simp: of_nat_u32_eq_iff\<close>)
    with "2.prems" have "blocks_at ?m (a + 16 + n) bs" by simp
    moreover have "?m (of_nat a) = \<lparr>b_next = (if bs = [] then 0 else of_nat (a + 16 + n)),
        b_size = of_nat n, b_used = False\<rparr>"
      using True "2.prems" by simp
    ultimately show ?thesis using True by (simp del: fun_upd_apply of_nat_add)
  next
    case False
    with "2.prems" have lv: "(a + off + 16, k) \<in> live (a + 16 + n) bs"
      by (auto split: if_splits)
    then have r: "16 + n \<le> off" "off < 16 + n + total bs"
      using live_range [of "a + off + 16" k "a + 16 + n" bs] by linarith+
    then have e: "a + 16 + n + (off - (16 + n)) = a + off" by simp
    have IH: "blocks_at ?m (a + 16 + n) (set_free (off - (16 + n)) bs)"
    proof -
      have l: "(a + 16 + n + (off - (16 + n)) + 16, k) \<in> live (a + 16 + n) bs"
        using lv unfolding e .
      have p: "blocks_at m (a + 16 + n) bs" "0 < a + 16 + n" "a + 16 + n + total bs \<le> 4294967296"
        using "2.prems" by simp_all
      show ?thesis using "2.IH" [OF False p l] unfolding e .
    qed
    have "(of_nat a :: u32) \<noteq> of_nat (a + off)"
      by (subst of_nat_u32_eq_iff) (use "2.prems" r False in auto)
    then have "?m (of_nat a) = m (of_nat a)" by (simp only: fun_upd_apply if_False)
    with IH False "2.prems" show ?thesis by (simp del: of_nat_add fun_upd_apply)
  qed
qed

lemma coalesce_refines:
  "blocks_at m a bs \<Longrightarrow> bs \<noteq> [] \<Longrightarrow> 0 < a \<Longrightarrow> a + total bs \<le> 4294967296 \<Longrightarrow>
     \<exists>m'. heap_coalesce m (of_nat a) = Some m' \<and> blocks_at m' a (coalesce bs)
       \<and> (\<forall>x < a. m' (of_nat x) = m (of_nat x))"
proof (induction bs arbitrary: m a rule: coalesce.induct [case_names pair nil one])
  case (pair n u k v bs)
  let ?b = "a + 16 + n"
  have a0: "(of_nat a :: u32) \<noteq> 0" and b0: "(of_nat ?b :: u32) \<noteq> 0"
    by (subst of_nat_u32_eq_0_iff; use pair.prems in auto)+
  have ma: "m (of_nat a) = \<lparr>b_next = of_nat ?b, b_size = of_nat n, b_used = u\<rparr>"
    and mb: "m (of_nat ?b) = \<lparr>b_next = (if bs = [] then 0 else of_nat (?b + 16 + k)),
        b_size = of_nat k, b_used = v\<rparr>"
    and rest: "blocks_at m (?b + 16 + k) bs"
    using pair.prems by (simp_all del: of_nat_add)
  show ?case
  proof (cases "\<not> u \<and> \<not> v")
    case True
    let ?m = "m(of_nat a := (m (of_nat a))\<lparr>
            b_size := b_size (m (of_nat a)) + (MM_HALOW_BLOCK_HDR + b_size (m (b_next (m (of_nat a))))),
            b_next := b_next (m (b_next (m (of_nat a))))\<rparr>)"
    have step: "heap_coalesce m (of_nat a) = heap_coalesce ?m (of_nat a)"
      using a0 b0 ma mb True by (subst heap_coalesce.simps) (simp del: of_nat_add fun_upd_apply)
    have e: "?b + 16 + k = a + 16 + (n + 16 + k)" by simp
    have "?m (of_nat a) = \<lparr>b_next = (if bs = [] then 0 else of_nat (a + 16 + (n + 16 + k))),
        b_size = of_nat (n + 16 + k), b_used = False\<rparr>"
      using True ma mb by (simp add: e [symmetric] del: of_nat_add) (simp add: add.assoc)
    moreover have "blocks_at m (?b + 16 + k) bs \<longleftrightarrow> blocks_at ?m (?b + 16 + k) bs"
      by (rule blocks_at_cong) (use pair.prems in \<open>auto simp: of_nat_u32_eq_iff simp del: of_nat_add\<close>)
    ultimately have "blocks_at ?m a ((n + 16 + k, False) # bs)"
      using rest unfolding e by (simp del: of_nat_add fun_upd_apply)
    with pair.IH(1) [OF True, of ?m a] pair.prems obtain m' where
      m': "heap_coalesce ?m (of_nat a) = Some m'" "blocks_at m' a (coalesce ((n + 16 + k, False) # bs))"
        "\<forall>x < a. m' (of_nat x) = ?m (of_nat x)" by (auto simp del: fun_upd_apply)
    have "?m (of_nat x) = m (of_nat x)" if "x < a" for x
      using that pair.prems by (simp add: of_nat_u32_eq_iff)
    with m' step True show ?thesis by (simp del: fun_upd_apply)
  next
    case False
    have step: "heap_coalesce m (of_nat a) = heap_coalesce m (of_nat ?b)"
      using a0 b0 ma mb False by (subst heap_coalesce.simps) (auto simp del: of_nat_add)
    have "blocks_at m ?b ((k, v) # bs)" using pair.prems by simp
    with pair.IH(2) [OF False, of m ?b] pair.prems obtain m' where
      m': "heap_coalesce m (of_nat ?b) = Some m'" "blocks_at m' ?b (coalesce ((k, v) # bs))"
        "\<forall>x < ?b. m' (of_nat x) = m (of_nat x)" by (auto simp del: of_nat_add)
    have "m' (of_nat a) = m (of_nat a)" using m'(3) by simp
    moreover have "\<forall>x < a. m' (of_nat x) = m (of_nat x)" using m'(3) by simp
    ultimately show ?thesis
      using m'(1,2) step ma False by (auto simp del: of_nat_add)
  qed
next
  case nil
  then show ?case by simp
next
  case (one x)
  obtain n u where x: "x = (n, u)" by (cases x)
  have "heap_coalesce m (of_nat a) = Some m"
    using one.prems x by (subst heap_coalesce.simps) simp
  with one.prems x show ?case by simp
qed

section \<open>The operations on the driver's state\<close>

lemma malloc_eq:
  "mm_halow_osal_malloc n s =
     (if n = 0 \<or> n > MM_HALOW_HEAP_SIZE \<or> mm_halow_heap_head s = 0 then Some (0, s)
      else map_option (\<lambda>b. if b = 0 then (0, s)
             else (b + MM_HALOW_BLOCK_HDR, s\<lparr>blk := heap_take (MM_HALOW_BLOCK_ROUND n) b (blk s)\<rparr>))
           (heap_first_fit (blk s) (MM_HALOW_BLOCK_ROUND n) (mm_halow_heap_head s)))"
  by (simp add: mm_halow_osal_malloc_def atomic_defs MM_HALOW_BLOCK_DATA_def Let_def
      map_option_case split: option.split)

lemma free_eq:
  "mm_halow_osal_free p s =
     (if p = 0 \<or> mm_halow_heap_head s = 0 then Some s
      else map_option (\<lambda>m. s\<lparr>blk := m\<rparr>)
             (heap_coalesce ((blk s)(p - MM_HALOW_BLOCK_HDR :=
                (blk s (p - MM_HALOW_BLOCK_HDR))\<lparr>b_used := False\<rparr>)) (mm_halow_heap_head s)))"
  by (simp add: mm_halow_osal_free_def atomic_defs MM_HALOW_DATA_BLOCK_def Let_def
      map_option_case split: option.split)

text \<open>Both operations touch the block headers only.\<close>

lemma malloc_frame [frame]:
  "mm_halow_osal_malloc n s = Some (p, s') \<Longrightarrow> s' = s\<lparr>blk := blk s'\<rparr>"
  by (auto simp: malloc_eq split: if_splits)

lemma free_frame [frame]: "mm_halow_osal_free p s = Some s' \<Longrightarrow> s' = s\<lparr>blk := blk s'\<rparr>"
  by (auto simp: free_eq split: if_splits)

definition heap_spec_alloc :: "nat \<Rightarrow> layout \<Rightarrow> (nat \<times> layout) option" where
  "heap_spec_alloc n bs =
     (if n = 0 \<or> n > 98304 then None else alloc_bs ((n + 7) div 8 * 8) bs)"

lemma malloc_refines:
  assumes rep: "heap_rep s bs"
  shows "case heap_spec_alloc (unat n) bs of
      None \<Rightarrow> mm_halow_osal_malloc n s = Some (0, s)
    | Some (off, bs') \<Rightarrow> \<exists>m. mm_halow_osal_malloc n s =
          Some (of_nat (heap_base s + off + 16), s\<lparr>blk := m\<rparr>) \<and> heap_rep (s\<lparr>blk := m\<rparr>) bs'"
proof (cases "unat n = 0 \<or> unat n > 98304")
  case True
  then have "n = 0 \<or> n > MM_HALOW_HEAP_SIZE"
    by (auto simp: word_less_nat_alt unat_eq_0)
  with True show ?thesis by (auto simp: malloc_eq heap_spec_alloc_def)
next
  case False
  then have n: "n \<noteq> 0" "\<not> n > MM_HALOW_HEAP_SIZE"
    by (auto simp: word_less_nat_alt)
  let ?sz = "(unat n + 7) div 8 * 8"
  have sz: "MM_HALOW_BLOCK_ROUND n = of_nat ?sz"
    using False block_round_nat [of n] by (metis linorder_not_less of_nat_unat_u32)
  have szb: "8 \<le> ?sz" "?sz mod 8 = 0" "?sz \<le> 98304" "?sz + 24 < 4294967296"
    using False by auto
  let ?a = "heap_base s"
  have rep': "mm_halow_heap_head s = mm_halow_heap_mem s" "mm_halow_heap_mem s \<noteq> 0"
    "blocks_at (blk s) ?a bs" "total bs = 98304" "sized bs" "coalesced bs"
    "?a + 98304 \<le> 4294967296" "bs \<noteq> []" "0 < ?a"
    using rep heap_rep_ne [OF rep] by (auto simp: heap_rep_def unat_gt_0)
  note ff = first_fit_refines [OF rep'(3,8,9) _ szb(4)]
  have ma: "mm_halow_heap_mem s = of_nat ?a" by simp
  show ?thesis
  proof (cases "alloc_bs ?sz bs")
    case None
    with ff rep' show ?thesis
      using n False by (simp add: malloc_eq heap_spec_alloc_def sz)
  next
    case (Some r)
    obtain off bs' where r: "r = (off, bs')" by (cases r)
    note al = Some [unfolded r]
    let ?m = "heap_take (of_nat ?sz) (of_nat (?a + off)) (blk s)"
    have off: "off + 16 + ?sz \<le> 98304" using alloc_bs_off [OF al] rep' by simp
    have nz: "(of_nat (?a + off) :: u32) \<noteq> 0"
      by (subst of_nat_u32_eq_0_iff) (use rep' off in linarith)+
    have ff': "heap_first_fit (blk s) (of_nat ?sz) (of_nat ?a) = Some (of_nat (?a + off))"
      "blocks_at ?m ?a bs'"
      using ff al rep' by simp_all
    have "mm_halow_osal_malloc n s = Some (of_nat (?a + off) + MM_HALOW_BLOCK_HDR, s\<lparr>blk := ?m\<rparr>)"
      unfolding malloc_eq rep'(1) sz using n nz rep'(2) ff'(1)
      by (simp del: of_nat_add of_nat_mult of_nat_div)
    moreover have "(of_nat (?a + off) + MM_HALOW_BLOCK_HDR :: u32) = of_nat (?a + off + 16)" by simp
    moreover have "heap_rep (s\<lparr>blk := ?m\<rparr>) bs'"
      using rep ff'(2) alloc_bs_total [OF al] alloc_bs_sized [OF al] alloc_bs_coalesced [OF al] rep' szb
      by (simp add: heap_rep_def)
    ultimately show ?thesis
      using False al by (auto simp: heap_spec_alloc_def)
  qed
qed

lemma free_refines:
  assumes rep: "heap_rep s bs" and p: "(unat p, k) \<in> live (heap_base s) bs"
  shows "\<exists>m. mm_halow_osal_free p s = Some (s\<lparr>blk := m\<rparr>)
    \<and> heap_rep (s\<lparr>blk := m\<rparr>) (free_bs (unat p - heap_base s - 16) bs)"
proof -
  let ?a = "heap_base s" and ?off = "unat p - heap_base s - 16"
  have rep': "mm_halow_heap_head s = mm_halow_heap_mem s" "mm_halow_heap_mem s \<noteq> 0"
    "blocks_at (blk s) ?a bs" "total bs = 98304" "sized bs" "coalesced bs"
    "?a + 98304 \<le> 4294967296" "bs \<noteq> []" "0 < ?a"
    using rep heap_rep_ne [OF rep] by (auto simp: heap_rep_def unat_gt_0)
  have r: "?a + 16 \<le> unat p" using live_range [OF p] by simp
  then have e: "?a + ?off + 16 = unat p" by simp
  have b: "p - MM_HALOW_BLOCK_HDR = of_nat (?a + ?off)"
  proof -
    have "unat (p - MM_HALOW_BLOCK_HDR) = ?a + ?off"
      using r by (subst unat_sub_u32) auto
    then show ?thesis by (metis of_nat_unat_u32)
  qed
  let ?m0 = "(blk s)(p - MM_HALOW_BLOCK_HDR := (blk s (p - MM_HALOW_BLOCK_HDR))\<lparr>b_used := False\<rparr>)"
  have "blocks_at ?m0 ?a (set_free ?off bs)"
    unfolding b using rep' p e by (intro set_free_refines [where k = k]) (simp_all only:)
  with coalesce_refines [of ?m0 ?a "set_free ?off bs"] rep'
  obtain m where m: "heap_coalesce ?m0 (of_nat ?a) = Some m" "blocks_at m ?a (free_bs ?off bs)"
    by (auto simp: free_bs_def simp del: fun_upd_apply)
  have "p \<noteq> 0" using r by auto
  then have "mm_halow_osal_free p s = Some (s\<lparr>blk := m\<rparr>)"
    using m(1) rep' by (simp add: free_eq del: fun_upd_apply)
  moreover have "heap_rep (s\<lparr>blk := m\<rparr>) (free_bs ?off bs)"
    using rep m(2) by (simp add: heap_rep_def free_bs_def coalesce_coalesced coalesce_sized)
  ultimately show ?thesis by blast
qed

lemma init_heap_rep:
  assumes "mm_halow_heap_mem s = 0" and "port_alloc MM_HALOW_HEAP_SIZE = p" and "p \<noteq> 0"
    and "unat p mod 8 = 0" and "unat p + 98304 \<le> 4294967296"
  shows "\<exists>s'. mm_halow_osal_init port_alloc s = (True, s')
    \<and> heap_rep s' [(98288, False)] \<and> mm_halow_heap_mem s' = p"
  using assms by (simp add: mm_halow_osal_init_def heap_rep_def)

end
