(* ===== verification/Halow_Allocator.thy ===== *)
theory Halow_Allocator
  imports Halow_Heap_Refinement
begin

text \<open>
  The allocator as the rest of the driver relies on it. The locale \<open>allocator\<close> states
  the contract over an abstract relation between a state and the set of its live blocks
  (address, size), proves the clients' facts once, and is interpreted on the driver's
  malloc and free. The properties of the heap follow.
\<close>

section \<open>The interface\<close>

definition apart :: "nat \<times> nat \<Rightarrow> nat \<times> nat \<Rightarrow> bool" where
  "apart x y \<longleftrightarrow> fst x + snd x \<le> fst y \<or> fst y + snd y \<le> fst x"

locale allocator =
  fixes malloc :: "u32 \<Rightarrow> 's \<Rightarrow> (ptr \<times> 's) option"
    and free :: "ptr \<Rightarrow> 's \<Rightarrow> 's option"
    and rep :: "'s \<Rightarrow> (nat \<times> nat) set \<Rightarrow> bool"
  assumes malloc_cases: "rep s L \<Longrightarrow> malloc n s = Some (0, s) \<or>
      (\<exists>p s' k. malloc n s = Some (p, s') \<and> p \<noteq> 0 \<and> n \<noteq> 0 \<and> unat n \<le> k
         \<and> rep s' (insert (unat p, k) L) \<and> (\<forall>y \<in> L. apart (unat p, k) y))"
    and free_live: "rep s L \<Longrightarrow> (unat p, k) \<in> L \<Longrightarrow>
      \<exists>s'. free p s = Some s' \<and> rep s' (L - {(unat p, k)})"
    and free_null: "free 0 s = Some s"
    and rep_pos: "rep s L \<Longrightarrow> (q, k) \<in> L \<Longrightarrow> 0 < q \<and> 0 < k \<and> q + k \<le> 4294967296"
    and rep_apart: "rep s L \<Longrightarrow> x \<in> L \<Longrightarrow> y \<in> L \<Longrightarrow> x \<noteq> y \<Longrightarrow> apart x y"
begin

lemma malloc_returns: "rep s L \<Longrightarrow> \<exists>p s'. malloc n s = Some (p, s')"
  using malloc_cases by blast

lemma malloc_null: "rep s L \<Longrightarrow> malloc n s = Some (0, s') \<Longrightarrow> s' = s"
  using malloc_cases [of s L n] by auto

lemma malloc_block:
  "rep s L \<Longrightarrow> malloc n s = Some (p, s') \<Longrightarrow> p \<noteq> 0 \<Longrightarrow>
     \<exists>k. unat n \<le> k \<and> rep s' (insert (unat p, k) L) \<and> (\<forall>y \<in> L. apart (unat p, k) y)"
  using malloc_cases [of s L n] by auto

lemma rep_unique_size: "rep s L \<Longrightarrow> (p, j) \<in> L \<Longrightarrow> (p, k) \<in> L \<Longrightarrow> j = k"
  using rep_apart [of s L "(p, j)" "(p, k)"] rep_pos [of s L p] by (fastforce simp: apart_def)

lemma malloc_fresh:
  assumes "rep s L" and "malloc n s = Some (p, s')" and "p \<noteq> 0"
  shows "(unat p, j) \<notin> L"
proof
  assume j: "(unat p, j) \<in> L"
  obtain k where k: "rep s' (insert (unat p, k) L)" "\<forall>y \<in> L. apart (unat p, k) y"
    using malloc_block [OF assms] by blast
  then have "0 < k" using rep_pos by blast
  moreover have "0 < j" using rep_pos [OF assms(1) j] by simp
  ultimately show False using k(2) j by (fastforce simp: apart_def)
qed

text \<open>Freeing what was just allocated restores the set of live blocks.\<close>

lemma malloc_free:
  assumes "rep s L" and "malloc n s = Some (p, s1)" and "p \<noteq> 0"
  shows "\<exists>s2. free p s1 = Some s2 \<and> rep s2 L"
proof -
  obtain k where k: "rep s1 (insert (unat p, k) L)"
    using malloc_block [OF assms] by blast
  then obtain s2 where "free p s1 = Some s2" "rep s2 (insert (unat p, k) L - {(unat p, k)})"
    using free_live by blast
  then show ?thesis using malloc_fresh [OF assms, of k] by auto
qed

end

section \<open>The driver's heap provides it\<close>

definition heap_live :: "'a heap_st_scheme \<Rightarrow> (nat \<times> nat) set \<Rightarrow> bool" where
  "heap_live s L \<longleftrightarrow> (\<exists>bs. heap_rep s bs \<and> L = live (heap_base s) bs)"

lemma payloads_apart:
  "x \<in> set (payloads a bs) \<Longrightarrow> y \<in> set (payloads a bs) \<Longrightarrow> x \<noteq> y \<Longrightarrow>
     apart (fst x, fst (snd x)) (fst y, fst (snd y))"
proof (induction a bs rule: payloads.induct)
  case (2 a n u bs)
  have far: "apart (a + 16, n) (fst z, fst (snd z)) \<and> apart (fst z, fst (snd z)) (a + 16, n)"
    if "z \<in> set (payloads (a + 16 + n) bs)" for z
    using that payloads_range [of "fst z" "fst (snd z)" "snd (snd z)" "a + 16 + n" bs]
    by (auto simp: apart_def)
  show ?case
  proof (cases "x = (a + 16, n, u) \<or> y = (a + 16, n, u)")
    case True
    with "2.prems" far [of x] far [of y] show ?thesis by auto
  next
    case False
    with "2.prems" "2.IH" show ?thesis by auto
  qed
qed simp

lemma payloads_sized: "sized bs \<Longrightarrow> (p, n, u) \<in> set (payloads a bs) \<Longrightarrow> 8 \<le> n \<and> n mod 8 = 0"
  by (induction a bs rule: payloads.induct) auto

lemma payloads_mod8:
  "sized bs \<Longrightarrow> a mod 8 = 0 \<Longrightarrow> (p, n, u) \<in> set (payloads a bs) \<Longrightarrow> p mod 8 = 0"
proof (induction a bs rule: payloads.induct)
  case (2 a n' u' bs)
  from 2 have "n' mod 8 = 0" "a mod 8 = 0" by simp_all
  then have "(a + 16) mod 8 = 0" "(a + 16 + n') mod 8 = 0" by presburger+
  with 2 show ?case by auto
qed simp

lemma malloc_cases_driver:
  assumes "heap_live s L"
  shows "mm_halow_osal_malloc n s = Some (0, s) \<or>
      (\<exists>p s' k. mm_halow_osal_malloc n s = Some (p, s') \<and> p \<noteq> 0 \<and> n \<noteq> 0 \<and> unat n \<le> k
         \<and> heap_live s' (insert (unat p, k) L) \<and> (\<forall>y \<in> L. apart (unat p, k) y))"
proof -
  obtain bs where rep: "heap_rep s bs" and L: "L = live (heap_base s) bs"
    using assms by (auto simp: heap_live_def)
  let ?a = "heap_base s"
  show ?thesis
  proof (cases "heap_spec_alloc (unat n) bs")
    case None
    with malloc_refines [OF rep, of n] show ?thesis by simp
  next
    case (Some r)
    obtain off bs' where r: "r = (off, bs')" by (cases r)
    from malloc_refines [OF rep, of n] Some r obtain m where
      m: "mm_halow_osal_malloc n s = Some (of_nat (?a + off + 16), s\<lparr>blk := m\<rparr>)"
         "heap_rep (s\<lparr>blk := m\<rparr>) bs'" by auto
    have al: "alloc_bs ((unat n + 7) div 8 * 8) bs = Some (off, bs')" and n: "unat n \<noteq> 0"
      using Some r by (auto simp: heap_spec_alloc_def split: if_splits)
    obtain k where k: "(unat n + 7) div 8 * 8 \<le> k"
        "live ?a bs' = insert (?a + off + 16, k) (live ?a bs)"
        "\<forall>(q, j) \<in> live ?a bs. q + j \<le> ?a + off \<or> ?a + off + 16 + k \<le> q"
      using alloc_bs_live [OF al, of ?a] by blast
    have "?a + off + 16 + k \<le> 4294967296"
    proof -
      have "(?a + off + 16, k) \<in> live ?a bs'" using k(2) by simp
      then have "?a + off + 16 + k \<le> ?a + total bs'" by (auto dest: live_range)
      then show ?thesis using m(2) by (simp add: heap_rep_def)
    qed
    moreover have "0 < k" using k(1) n by (cases "unat n") auto
    ultimately have lt: "?a + off + 16 < 4294967296" by linarith
    then have p: "unat (of_nat (?a + off + 16) :: u32) = ?a + off + 16"
      by (rule unat_of_nat_u32)
    have p0: "(of_nat (?a + off + 16) :: u32) \<noteq> 0"
      using lt by (subst of_nat_u32_eq_0_iff) auto
    have nk: "unat n \<le> k" using k(1) by linarith
    have "\<forall>y \<in> L. apart (?a + off + 16, k) y"
      using k(3) L by (fastforce simp: apart_def)
    moreover have "heap_live (s\<lparr>blk := m\<rparr>) (insert (?a + off + 16, k) L)"
      using m(2) k(2) L by (auto simp: heap_live_def)
    ultimately show ?thesis
      using m(1) p p0 nk n by (intro disjI2 exI [of _ k] exI conjI) (auto simp del: of_nat_add)
  qed
qed

lemma free_live_driver:
  assumes "heap_live s L" and "(unat p, k) \<in> L"
  shows "\<exists>s'. mm_halow_osal_free p s = Some s' \<and> heap_live s' (L - {(unat p, k)})"
proof -
  obtain bs where rep: "heap_rep s bs" and L: "L = live (heap_base s) bs"
    using assms by (auto simp: heap_live_def)
  let ?a = "heap_base s" and ?off = "unat p - heap_base s - 16"
  have e: "?a + ?off + 16 = unat p" using assms(2) live_range unfolding L by fastforce
  obtain m where m: "mm_halow_osal_free p s = Some (s\<lparr>blk := m\<rparr>)"
      "heap_rep (s\<lparr>blk := m\<rparr>) (free_bs ?off bs)"
    using free_refines [OF rep] assms(2) L by blast
  have "live ?a (free_bs ?off bs) = L - {(unat p, k)}"
    using free_bs_live [of ?a ?off k bs] assms(2) L unfolding e by simp
  with m show ?thesis by (auto simp: heap_live_def)
qed

lemma heap_live_block:
  assumes "heap_live s L" and "(p, k) \<in> L"
  shows "0 < p" and "8 \<le> k" and "p + k \<le> 4294967296" and "p mod 8 = 0"
    and "heap_base s + 16 \<le> p" and "p + k \<le> heap_base s + 98304"
proof -
  obtain bs where rep: "heap_rep s bs" and pl: "(p, k, True) \<in> set (payloads (heap_base s) bs)"
    using assms by (auto simp: heap_live_def live_def)
  have b: "sized bs" "total bs = 98304" "heap_base s + 98304 \<le> 4294967296" "heap_base s mod 8 = 0"
    using rep by (simp_all add: heap_rep_def)
  show "8 \<le> k" using payloads_sized [OF b(1) pl] by simp
  show "p mod 8 = 0" by (rule payloads_mod8 [OF b(1,4) pl])
  show "0 < p" "heap_base s + 16 \<le> p" "p + k \<le> heap_base s + 98304" "p + k \<le> 4294967296"
    using payloads_range [OF pl] b by linarith+
qed

lemma heap_live_apart:
  assumes "heap_live s L" and "x \<in> L" and "y \<in> L" and "x \<noteq> y"
  shows "apart x y"
proof -
  obtain bs where L: "L = live (heap_base s) bs"
    using assms by (auto simp: heap_live_def)
  obtain p j q k where x: "x = (p, j)" "y = (q, k)" by (cases x; cases y)
  have "(p, j, True) \<in> set (payloads (heap_base s) bs)"
    "(q, k, True) \<in> set (payloads (heap_base s) bs)"
    using assms(2,3) by (auto simp: L x live_def)
  from payloads_apart [OF this] assms(4) show ?thesis by (simp add: x)
qed

interpretation heap: allocator mm_halow_osal_malloc mm_halow_osal_free heap_live
proof
  fix s :: "'a heap_st_scheme" and L n
  assume "heap_live s L"
  then show "mm_halow_osal_malloc n s = Some (0, s) \<or>
      (\<exists>p s' k. mm_halow_osal_malloc n s = Some (p, s') \<and> p \<noteq> 0 \<and> n \<noteq> 0 \<and> unat n \<le> k
         \<and> heap_live s' (insert (unat p, k) L) \<and> (\<forall>y \<in> L. apart (unat p, k) y))"
    by (rule malloc_cases_driver)
next
  fix s :: "'a heap_st_scheme" and L and p :: ptr and k
  assume "heap_live s L" "(unat p, k) \<in> L"
  then show "\<exists>s'. mm_halow_osal_free p s = Some s' \<and> heap_live s' (L - {(unat p, k)})"
    by (rule free_live_driver)
next
  fix s :: "'a heap_st_scheme"
  show "mm_halow_osal_free 0 s = Some s" by (simp add: free_eq)
next
  fix s :: "'a heap_st_scheme" and L p k
  assume "heap_live s L" "(p, k) \<in> L"
  from heap_live_block [OF this] show "0 < p \<and> 0 < k \<and> p + k \<le> 4294967296" by simp
next
  fix s :: "'a heap_st_scheme" and L x y
  assume "heap_live s L" "x \<in> L" "y \<in> L" "x \<noteq> y"
  then show "apart x y" by (rule heap_live_apart)
qed

end
