(* ===== verification/Halow_Heap_Props.thy ===== *)
theory Halow_Heap_Props
  imports Halow_Allocator
begin

text \<open>
  The properties of the heap: what malloc, calloc, realloc and free promise their
  callers, on every branch, and that no sequence of calls loses memory.
\<close>

section \<open>The header of a live block\<close>

lemma blocks_at_payload:
  "blocks_at m a bs \<Longrightarrow> (p, k, u) \<in> set (payloads a bs) \<Longrightarrow>
     b_size (m (of_nat (p - 16))) = of_nat k \<and> b_used (m (of_nat (p - 16))) = u"
  by (induction m a bs rule: blocks_at.induct) auto

lemma live_header:
  assumes "heap_live s L" and "(unat p, k) \<in> L"
  shows "unat (b_size (blk s (MM_HALOW_DATA_BLOCK p))) = k"
proof -
  obtain bs where rep: "heap_rep s bs" and pl: "(unat p, k, True) \<in> set (payloads (heap_base s) bs)"
    using assms by (auto simp: heap_live_def live_def)
  have b: "16 \<le> unat p" "k < 4294967296"
    using heap_live_block [OF assms] by linarith+
  have e: "p - MM_HALOW_BLOCK_HDR = of_nat (unat p - 16)"
    using b(1) by (simp add: of_nat_diff)
  have "b_size (blk s (p - MM_HALOW_BLOCK_HDR)) = of_nat k"
    unfolding e using rep blocks_at_payload [OF _ pl] by (simp add: heap_rep_def)
  then show ?thesis
    using b(2) by (simp add: MM_HALOW_DATA_BLOCK_def unat_of_nat_u32)
qed

text \<open>The payload relation does not depend on the payload bytes.\<close>

lemma heap_rep_bytes [simp]: "heap_rep (s\<lparr>bytes := f\<rparr>) bs = heap_rep s bs"
  by (simp add: heap_rep_def)

lemma heap_live_bytes [simp]: "heap_live (s\<lparr>bytes := f\<rparr>) L = heap_live s L"
  by (simp add: heap_live_def)

lemma malloc_bytes [frame]: "mm_halow_osal_malloc n s = Some (p, s') \<Longrightarrow> bytes s' = bytes s"
  by (auto simp: malloc_eq split: if_splits)

lemma free_bytes [frame]: "mm_halow_osal_free p s = Some s' \<Longrightarrow> bytes s' = bytes s"
  by (auto simp: free_eq split: if_splits)

section \<open>Byte ranges\<close>

definition in_block :: "ptr \<Rightarrow> nat \<times> nat \<Rightarrow> bool" where
  "in_block a x \<longleftrightarrow> fst x \<le> unat a \<and> unat a < fst x + snd x"

lemma in_block_diff:
  assumes "unat p + k \<le> 4294967296"
  shows "in_block a (unat p, k) \<longleftrightarrow> unat (a - p) < k"
proof (cases "unat p \<le> unat a")
  case True
  then have "unat (a - p) = unat a - unat p" by (rule unat_sub_u32)
  with True show ?thesis unfolding in_block_def fst_conv snd_conv by linarith
next
  case False
  have "unat (a - p) = unat a + 4294967296 - unat p"
    using False by (simp add: unat_sub_if')
  then have "\<not> unat (a - p) < k" using assms by linarith
  with False show ?thesis by (simp add: in_block_def)
qed

lemma memset_in: "unat p + unat n \<le> 4294967296 \<Longrightarrow>
    memset p v n m a = (if in_block a (unat p, unat n) then v else m a)"
  by (simp add: memset_def in_block_diff word_less_nat_alt)

lemma memcpy_in: "unat d + unat n \<le> 4294967296 \<Longrightarrow>
    memcpy d p n m a = (if in_block a (unat d, unat n) then m (p + (a - d)) else m a)"
  by (simp add: memcpy_def in_block_diff word_less_nat_alt)

lemma in_block_apart: "apart x y \<Longrightarrow> in_block a x \<Longrightarrow> \<not> in_block a y"
  by (auto simp: apart_def in_block_def)

lemma in_block_mono: "in_block a (p, j) \<Longrightarrow> j \<le> k \<Longrightarrow> in_block a (p, k)"
  by (auto simp: in_block_def)

lemma in_block_offset: "unat p + k \<le> 4294967296 \<Longrightarrow> i < k \<Longrightarrow> in_block (p + of_nat i) (unat p, k)"
  by (simp add: in_block_diff unat_of_nat_u32)

section \<open>Every run of the heap\<close>

text \<open>
  The states the driver's heap can be in, with its live blocks: taken from the host by
  mm_halow_osal_init(), then any sequence of malloc, free of a live block, calloc,
  realloc of a live block, and writes to payload bytes.
\<close>

abbreviation block_at :: "'a heap_st_scheme \<Rightarrow> ptr \<Rightarrow> nat \<times> nat" where
  "block_at s p \<equiv> (unat p, unat (b_size (blk s (MM_HALOW_DATA_BLOCK p))))"

inductive heap_run :: "'a heap_st_scheme \<Rightarrow> (nat \<times> nat) set \<Rightarrow> bool" where
  run_init: "mm_halow_heap_mem s0 = 0 \<Longrightarrow> mm_halow_osal_init port_alloc s0 = (True, s) \<Longrightarrow>
    unat (port_alloc MM_HALOW_HEAP_SIZE) mod 8 = 0 \<Longrightarrow>
    unat (port_alloc MM_HALOW_HEAP_SIZE) + 98304 \<le> 4294967296 \<Longrightarrow> heap_run s {}"
| run_malloc: "heap_run s L \<Longrightarrow> mmosal_malloc n s = Some (p, s') \<Longrightarrow>
    heap_run s' (if p = 0 then L else insert (block_at s' p) L)"
| run_calloc: "heap_run s L \<Longrightarrow> mmosal_calloc m n s = Some (p, s') \<Longrightarrow>
    heap_run s' (if p = 0 then L else insert (block_at s' p) L)"
| run_free: "heap_run s L \<Longrightarrow> (unat p, k) \<in> L \<Longrightarrow> mmosal_free p s = Some s' \<Longrightarrow>
    heap_run s' (L - {(unat p, k)})"
| run_realloc: "heap_run s L \<Longrightarrow> (unat p, k) \<in> L \<Longrightarrow> n \<noteq> 0 \<Longrightarrow> mmosal_realloc p n s = Some (q, s') \<Longrightarrow>
    heap_run s' (if q = 0 then L else insert (block_at s' q) (L - {(unat p, k)}))"
| run_write: "heap_run s L \<Longrightarrow> heap_run (s\<lparr>bytes := f\<rparr>) L"

lemma malloc_block_at:
  assumes "heap_live s L" and "mm_halow_osal_malloc n s = Some (p, s')" and "p \<noteq> 0"
  shows "unat n \<le> snd (block_at s' p)" and "heap_live s' (insert (block_at s' p) L)"
    and "\<forall>y \<in> L. apart (block_at s' p) y"
proof -
  obtain k where k: "unat n \<le> k" "heap_live s' (insert (unat p, k) L)" "\<forall>y \<in> L. apart (unat p, k) y"
    using heap.malloc_block [OF assms] by blast
  have "snd (block_at s' p) = k" using live_header [OF k(2), of p k] by simp
  with k show "unat n \<le> snd (block_at s' p)" "heap_live s' (insert (block_at s' p) L)"
    "\<forall>y \<in> L. apart (block_at s' p) y" by simp_all
qed

lemma calloc_zeroes:
  assumes L: "heap_live s L" and r: "mmosal_calloc m n s = Some (p, s')" and p: "p \<noteq> 0"
  shows "unat m * unat n \<le> snd (block_at s' p)" and "heap_live s' (insert (block_at s' p) L)"
    and "\<forall>a. in_block a (unat p, unat m * unat n) \<longrightarrow> bytes s' a = 0"
    and "\<forall>a x. x \<in> L \<longrightarrow> in_block a x \<longrightarrow> bytes s' a = bytes s a"
proof -
  have ok: "\<not> (m \<noteq> 0 \<and> n > (- 1) div m)" using r p by (auto simp: mmosal_calloc_def)
  have nw: "unat m * unat n < 4294967296"
  proof (cases "m = 0")
    case False
    with ok have "unat n \<le> 4294967295 div unat m"
      by (simp add: word_less_nat_alt unat_div_distrib unat_neg_u32 not_less)
    then have "unat m * unat n \<le> unat m * (4294967295 div unat m)" by simp
    also have "\<dots> \<le> 4294967295" by simp
    finally show ?thesis by simp
  qed simp
  then have t: "unat (m * n) = unat m * unat n" by (rule unat_mult_u32)
  from r ok p obtain s1 where m: "mm_halow_osal_malloc (m * n) s = Some (p, s1)"
    and s': "s' = s1\<lparr>bytes := memset p 0 (m * n) (bytes s1)\<rparr>"
    by (cases "mm_halow_osal_malloc (m * n) s") (auto simp: mmosal_calloc_def Let_def split: if_splits)
  note b = malloc_block_at [OF L m p]
  have e: "block_at s' p = block_at s1 p" by (simp add: s')
  show size: "unat m * unat n \<le> snd (block_at s' p)" using b(1) by (simp add: e t)
  show "heap_live s' (insert (block_at s' p) L)" using b(2) by (simp add: s')
  have top: "unat p + unat (m * n) \<le> 4294967296"
    using heap_live_block(3) [OF b(2) insertI1 [of "block_at s1 p" L]] b(1) by simp
  show "\<forall>a. in_block a (unat p, unat m * unat n) \<longrightarrow> bytes s' a = 0"
    using memset_in [OF top] by (simp add: s' t)
  have "bytes s1 = bytes s" using malloc_bytes [OF m] .
  moreover have "\<not> in_block a (unat p, unat (m * n))" if "x \<in> L" "in_block a x" for a x
    using that b(1,3) in_block_apart in_block_mono by (metis snd_conv)
  ultimately show "\<forall>a x. x \<in> L \<longrightarrow> in_block a x \<longrightarrow> bytes s' a = bytes s a"
    using memset_in [OF top] by (simp add: s')
qed


lemma realloc_copies:
  assumes L: "heap_live s L" and pl: "(unat p, k) \<in> L" and kn: "k < unat n" and sz: "unat sz = k"
    and m: "mm_halow_osal_malloc n s = Some (q, s1)" and q0: "q \<noteq> 0"
    and f: "mm_halow_osal_free p (s1\<lparr>bytes := memcpy q p sz (bytes s1)\<rparr>) = Some s'"
  shows "unat n \<le> snd (block_at s' q)"
    and "heap_live s' (insert (block_at s' q) (L - {(unat p, k)}))"
    and "i < k \<Longrightarrow> bytes s' (q + of_nat i) = bytes s (p + of_nat i)"
    and "x \<in> L \<Longrightarrow> in_block a x \<Longrightarrow> bytes s' a = bytes s a"
proof -
  note b = malloc_block_at [OF L m q0]
  let ?s1 = "s1\<lparr>bytes := memcpy q p sz (bytes s1)\<rparr>" and ?new = "block_at s1 q"
  have Ls1: "heap_live ?s1 (insert ?new L)" using b(2) by simp
  have np: "?new \<noteq> (unat p, k)" using heap.malloc_fresh [OF L m q0] pl by auto
  obtain s2 where "mm_halow_osal_free p ?s1 = Some s2" "heap_live s2 (insert ?new L - {(unat p, k)})"
    using heap.free_live [OF Ls1, of p k] pl by blast
  with f have L': "heap_live s' (insert ?new L - {(unat p, k)})" by simp
  moreover have setE: "insert ?new L - {(unat p, k)} = insert ?new (L - {(unat p, k)})" using np by auto
  moreover have hdr: "block_at s' q = ?new" using live_header [OF L', of q] np by simp
  ultimately show "unat n \<le> snd (block_at s' q)"
    "heap_live s' (insert (block_at s' q) (L - {(unat p, k)}))" using b(1) by simp_all
  have bs: "bytes s' = memcpy q p sz (bytes s)" using free_bytes [OF f] malloc_bytes [OF m] by simp
  have top: "unat q + unat sz \<le> 4294967296"
    using heap_live_block(3) [OF b(2) insertI1 [of ?new L]] b(1) kn sz by simp
  show "bytes s' (q + of_nat i) = bytes s (p + of_nat i)" if "i < k"
    using that in_block_offset [of q k i] top sz by (simp add: bs memcpy_in)
  show "bytes s' a = bytes s a" if "x \<in> L" "in_block a x"
  proof -
    have "\<not> in_block a ?new" using that b(3) in_block_apart by blast
    then have "\<not> in_block a (unat q, unat sz)"
      using in_block_mono [of a "unat q" "unat sz" "snd ?new"] b(1) kn sz by auto
    then show ?thesis by (simp add: bs memcpy_in [OF top])
  qed
qed

lemma realloc_moves:
  assumes L: "heap_live s L" and pl: "(unat p, k) \<in> L" and n: "n \<noteq> 0"
    and r: "mmosal_realloc p n s = Some (q, s')"
  shows "q = 0 \<longrightarrow> s' = s"
    and "q \<noteq> 0 \<longrightarrow> unat n \<le> snd (block_at s' q)
           \<and> heap_live s' (insert (block_at s' q) (L - {(unat p, k)}))
           \<and> (\<forall>i < min k (unat n). bytes s' (q + of_nat i) = bytes s (p + of_nat i))
           \<and> (\<forall>a x. x \<in> L - {(unat p, k)} \<longrightarrow> in_block a x \<longrightarrow> bytes s' a = bytes s a)"
proof -
  have p0: "p \<noteq> 0" using heap_live_block(1) [OF L pl] by auto
  have old: "block_at s p = (unat p, k)" using live_header [OF L pl] by simp
  let ?old = "b_size (blk s (MM_HALOW_DATA_BLOCK p))"
  show "q = 0 \<longrightarrow> s' = s"
    using r p0 n heap.malloc_null [OF L] by (auto simp: mmosal_realloc_def Let_def
        bind_eq_Some_conv split: if_splits)
  show "q \<noteq> 0 \<longrightarrow> unat n \<le> snd (block_at s' q)
           \<and> heap_live s' (insert (block_at s' q) (L - {(unat p, k)}))
           \<and> (\<forall>i < min k (unat n). bytes s' (q + of_nat i) = bytes s (p + of_nat i))
           \<and> (\<forall>a x. x \<in> L - {(unat p, k)} \<longrightarrow> in_block a x \<longrightarrow> bytes s' a = bytes s a)"
  proof (cases "?old \<ge> n")
    case True
    then have "q = p" "s' = s"
      using r p0 n by (simp_all add: mmosal_realloc_def Let_def)
    moreover have "insert (unat p, k) (L - {(unat p, k)}) = L" using pl by auto
    ultimately show ?thesis
      using True old L by (simp add: word_le_nat_alt)
  next
    case False
    show ?thesis
    proof
      assume q0: "q \<noteq> 0"
      from r p0 n False q0 obtain s1 where
        m: "mm_halow_osal_malloc n s = Some (q, s1)" and
        f: "mm_halow_osal_free p (s1\<lparr>bytes := memcpy q p ?old (bytes s1)\<rparr>) = Some s'"
        by (auto simp: mmosal_realloc_def Let_def bind_eq_Some_conv split: if_splits)
      have kn: "k < unat n" "unat ?old = k" using False old by (simp_all add: word_le_nat_alt not_le)
      note c = realloc_copies [OF L pl kn m q0 f]
      show "unat n \<le> snd (block_at s' q)
           \<and> heap_live s' (insert (block_at s' q) (L - {(unat p, k)}))
           \<and> (\<forall>i < min k (unat n). bytes s' (q + of_nat i) = bytes s (p + of_nat i))
           \<and> (\<forall>a x. x \<in> L - {(unat p, k)} \<longrightarrow> in_block a x \<longrightarrow> bytes s' a = bytes s a)"
        using c by (intro conjI) auto
    qed
  qed
qed

lemma heap_run_live: "heap_run s L \<Longrightarrow> heap_live s L"
proof (induction rule: heap_run.induct)
  case (run_init s0 port_alloc s)
  let ?p = "port_alloc MM_HALOW_HEAP_SIZE"
  have "?p \<noteq> 0" using run_init by (auto simp: mm_halow_osal_init_def Let_def split: if_splits)
  with run_init init_heap_rep [of s0 port_alloc ?p] have "heap_rep s [(98288, False)]" by auto
  then show ?case by (auto simp: heap_live_def)
next
  case (run_malloc s L n p s')
  then show ?case
    using heap.malloc_null malloc_block_at(2) by (cases "p = 0") (auto simp: mmosal_malloc_def)
next
  case (run_calloc s L m n p s')
  show ?case
  proof (cases "p = 0")
    case True
    with run_calloc have "s' = s"
      by (auto simp: mmosal_calloc_def Let_def bind_eq_Some_conv split: if_splits
          dest: heap.malloc_null)
    with True run_calloc show ?thesis by simp
  next
    case False
    with calloc_zeroes(2) [OF run_calloc.IH run_calloc.hyps(2)] show ?thesis by simp
  qed
next
  case (run_free s L p k s')
  then show ?case
    using heap.free_live [of s L p k] by (auto simp: mmosal_free_def)
next
  case (run_realloc s L p k n q s')
  then show ?case
    using realloc_moves [of s L p k n q s'] by (cases "q = 0") auto
next
  case (run_write s L f)
  then show ?case by simp
qed

section \<open>Further facts the properties rest on\<close>

lemma calloc_overflow:
  assumes "4294967296 \<le> unat m * unat n"
  shows "mmosal_calloc m n s = Some (0, s)"
proof -
  have m: "m \<noteq> 0" using assms by auto
  then have "0 < unat m" by (simp add: unat_gt_0)
  have "4294967295 div unat m < unat n"
    by (rule less_mult_imp_div_less) (use assms in \<open>simp add: mult.commute\<close>)
  then have "n > (- 1) div m"
    by (simp add: word_less_nat_alt unat_div_distrib unat_neg_u32)
  with m show ?thesis by (simp add: mmosal_calloc_def)
qed

lemma calloc_returns: "heap_live s L \<Longrightarrow> \<exists>p s'. mmosal_calloc m n s = Some (p, s')"
  using heap.malloc_returns [of s L "m * n"] by (fastforce simp: mmosal_calloc_def Let_def)

lemma calloc_null:
  "heap_live s L \<Longrightarrow> mmosal_calloc m n s = Some (0, s') \<Longrightarrow> s' = s"
  by (auto simp: mmosal_calloc_def Let_def bind_eq_Some_conv split: if_splits dest: heap.malloc_null)

lemma realloc_returns:
  assumes L: "heap_live s L" and pl: "(unat p, k) \<in> L" and n: "n \<noteq> 0"
  shows "\<exists>q s'. mmosal_realloc p n s = Some (q, s')"
proof (cases "b_size (blk s (MM_HALOW_DATA_BLOCK p)) \<ge> n")
  case True
  with n show ?thesis
    using heap.malloc_returns [OF L, of n] by (simp add: mmosal_realloc_def Let_def)
next
  case False
  have p0: "p \<noteq> 0" using heap_live_block(1) [OF L pl] by auto
  obtain q s1 where m: "mm_halow_osal_malloc n s = Some (q, s1)"
    using heap.malloc_returns [OF L] by blast
  show ?thesis
  proof (cases "q = 0")
    case True
    with m p0 n False show ?thesis by (simp add: mmosal_realloc_def Let_def)
  next
    case q0: False
    let ?s1 = "s1\<lparr>bytes := memcpy q p (b_size (blk s (MM_HALOW_DATA_BLOCK p))) (bytes s1)\<rparr>"
    have "heap_live ?s1 (insert (block_at s1 q) L)"
      using malloc_block_at(2) [OF L m q0] by simp
    then obtain s2 where "mm_halow_osal_free p ?s1 = Some s2"
      using heap.free_live [of ?s1 _ p k] pl by blast
    with m p0 n False q0 show ?thesis by (simp add: mmosal_realloc_def Let_def)
  qed
qed

lemma heap_spec_alloc_in_pool:
  assumes rep: "heap_rep s bs" and sp: "heap_spec_alloc (unat n) bs = Some (off, bs')"
  shows "alloc_bs ((unat n + 7) div 8 * 8) bs = Some (off, bs')"
    and "heap_base s + off + 16 < 4294967296"
proof -
  show al: "alloc_bs ((unat n + 7) div 8 * 8) bs = Some (off, bs')"
    using sp by (auto simp: heap_spec_alloc_def split: if_splits)
  have "1 \<le> unat n" using sp by (cases "unat n") (auto simp: heap_spec_alloc_def)
  then have "8 \<le> (unat n + 7) div 8 * 8" by presburger
  then show "heap_base s + off + 16 < 4294967296"
    using alloc_bs_off [OF al] rep by (simp add: heap_rep_def)
qed

lemma malloc_free_exact:
  assumes rep: "heap_rep s bs" and m: "mm_halow_osal_malloc n s = Some (p, s1)" and p: "p \<noteq> 0"
  shows "\<exists>s2. mm_halow_osal_free p s1 = Some s2 \<and> heap_rep s2 bs"
proof -
  let ?a = "heap_base s"
  obtain off bs' where sp: "heap_spec_alloc (unat n) bs = Some (off, bs')"
    using malloc_refines [OF rep, of n] m p by (cases "heap_spec_alloc (unat n) bs") auto
  with malloc_refines [OF rep, of n] m obtain h where
    s1: "s1 = s\<lparr>blk := h\<rparr>" "p = of_nat (?a + off + 16)" "heap_rep s1 bs'"
    by (auto simp del: of_nat_add)
  note al = heap_spec_alloc_in_pool(1) [OF rep sp]
  have L: "heap_live s (live ?a bs)" using rep by (auto simp: heap_live_def)
  have L1: "heap_live s1 (insert (block_at s1 p) (live ?a bs))"
    by (rule malloc_block_at(2) [OF L m p])
  obtain k where k: "live ?a bs' = insert (?a + off + 16, k) (live ?a bs)"
    using alloc_bs_live [OF al] by blast
  have pu: "unat p = ?a + off + 16"
    unfolding s1(2) by (rule unat_of_nat_u32) (rule heap_spec_alloc_in_pool(2) [OF rep sp])
  then have "(unat p, k) \<in> live (heap_base s1) bs'" using k s1(1) by simp
  from free_refines [OF s1(3) this] obtain s2 where
    "mm_halow_osal_free p s1 = Some s2" "heap_rep s2 (free_bs off bs')"
    using pu s1(1) by auto
  moreover have "free_bs off bs' = bs"
    by (rule alloc_free_layout [OF al]) (use rep in \<open>simp add: heap_rep_def\<close>)
  ultimately show ?thesis by auto
qed

section \<open>Properties\<close>

text \<open>A pool at a concrete address, for the witnesses.\<close>

definition pool0 :: heap_st where
  "pool0 = \<lparr>time_ms = 0, irq_ctx = False, irq_off = False, trace = [],
     mm_halow_heap_head = 0, mm_halow_heap_mem = 0,
     blk = (\<lambda>_. \<lparr>b_next = 0, b_size = 0, b_used = False\<rparr>), bytes = (\<lambda>_. 0)\<rparr>"

definition pool_ex :: heap_st where
  "pool_ex = snd (mm_halow_osal_init (\<lambda>_. 536870912) pool0)"

lemma pool_ex_run: "heap_run pool_ex {}"
  by (rule run_init [of pool0 "\<lambda>_. 536870912"])
     (simp_all add: pool0_def pool_ex_def mm_halow_osal_init_def)

lemma pool_ex_rep: "heap_rep pool_ex [(98288, False)]"
  using init_heap_rep [of pool0 "\<lambda>_. 536870912" 536870912]
  by (auto simp: pool_ex_def pool0_def)

lemma pool_ex_malloc:
  "\<exists>s1. mmosal_malloc 100 pool_ex = Some (536870928, s1) \<and> b_size (blk s1 536870912) = 104"
  by (simp add: mmosal_malloc_def malloc_eq pool_ex_def pool0_def mm_halow_osal_init_def
      heap_first_fit.simps MM_HALOW_BLOCK_ROUND_def heap_take_def Let_def)

text \<open>
  C1: Memory safety of allocation. In every state a run of the heap can reach, malloc
  returns; when it returns a block, the block is at least as large as asked for, aligned
  to 8 bytes, inside the pool behind its header, apart from every live block, and the
  live blocks are then exactly the old ones and this one. When it returns NULL nothing
  has changed.
\<close>

theorem malloc_safe:
  assumes run: "heap_run s L"
  shows "\<exists>p s'. mmosal_malloc n s = Some (p, s') \<and> (p = 0 \<longrightarrow> s' = s)
    \<and> (p \<noteq> 0 \<longrightarrow> unat n \<le> snd (block_at s' p) \<and> unat p mod 8 = 0
         \<and> heap_base s + 16 \<le> unat p \<and> unat p + snd (block_at s' p) \<le> heap_base s + 98304
         \<and> (\<forall>y \<in> L. apart (block_at s' p) y) \<and> heap_live s' (insert (block_at s' p) L))"
proof -
  have L: "heap_live s L" by (rule heap_run_live [OF run])
  obtain p s' where m: "mm_halow_osal_malloc n s = Some (p, s')"
    using heap.malloc_returns [OF L] by blast
  have base: "heap_base s' = heap_base s"
    using malloc_frame [OF m] by (metis heap_st.select_convs(2) heap_st.surjective heap_st.update_convs(3))
  show ?thesis
  proof (cases "p = 0")
    case True
    with m heap.malloc_null [OF L] show ?thesis by (auto simp: mmosal_malloc_def)
  next
    case False
    note b = malloc_block_at [OF L m False]
    from heap_live_block [OF b(2) insertI1] b m False base show ?thesis
      by (auto simp: mmosal_malloc_def)
  qed
qed

theorem malloc_safe_witness:
  "\<exists>s'. mmosal_malloc 100 pool_ex = Some (536870928, s') \<and> heap_live s' {block_at s' 536870928}"
  using malloc_safe [OF pool_ex_run, of 100] pool_ex_malloc by auto

text \<open>
  C23: First fit fails exactly when it must. In a well-formed pool, malloc returns NULL if
  and only if the request is zero, exceeds the pool, or no free block is as large as the
  request rounded up to 8 bytes.
\<close>

theorem malloc_null_iff:
  assumes "heap_rep s bs"
  shows "(\<exists>s'. mmosal_malloc n s = Some (0, s')) \<longleftrightarrow>
    unat n = 0 \<or> 98304 < unat n \<or> (\<forall>(k, u) \<in> set bs. u \<or> k < (unat n + 7) div 8 * 8)"
proof -
  have L: "heap_live s (live (heap_base s) bs)" using assms by (auto simp: heap_live_def)
  have a: "heap_spec_alloc (unat n) bs = None \<longleftrightarrow>
    unat n = 0 \<or> 98304 < unat n \<or> (\<forall>(k, u) \<in> set bs. u \<or> k < (unat n + 7) div 8 * 8)"
    by (auto simp: heap_spec_alloc_def alloc_bs_None)
  have b: "heap_spec_alloc (unat n) bs = None \<longleftrightarrow> (\<exists>s'. mmosal_malloc n s = Some (0, s'))"
  proof (cases "heap_spec_alloc (unat n) bs")
    case None
    with malloc_refines [OF assms, of n] show ?thesis by (simp add: mmosal_malloc_def)
  next
    case (Some r)
    obtain off bs' where r: "r = (off, bs')" by (cases r)
    have "heap_base s + off + 16 < 4294967296"
      using heap_spec_alloc_in_pool(2) [OF assms] Some r by blast
    then have "(of_nat (heap_base s + off + 16) :: u32) \<noteq> 0"
      by (subst of_nat_u32_eq_0_iff) auto
    with malloc_refines [OF assms, of n] Some r show ?thesis
      by (auto simp: mmosal_malloc_def simp del: of_nat_add)
  qed
  show ?thesis by (rule trans [OF b [symmetric] a])
qed

theorem malloc_null_iff_witness:
  "(\<exists>s'. mmosal_malloc 98289 pool_ex = Some (0, s')) \<and> \<not> (\<exists>s'. mmosal_malloc 98288 pool_ex = Some (0, s'))"
  using malloc_null_iff [OF pool_ex_rep, of 98289] malloc_null_iff [OF pool_ex_rep, of 98288] by simp

text \<open>
  C5: Refinement. Whatever the layout of the pool, the pointer-level malloc and free do to
  the block list what the abstract first-fit allocation and coalescing free do to the
  layout, and return the address that goes with it.
\<close>

theorem heap_refines_layout:
  assumes rep: "heap_rep s bs"
  shows "(case heap_spec_alloc (unat n) bs of
            None \<Rightarrow> mmosal_malloc n s = Some (0, s)
          | Some (off, bs') \<Rightarrow> \<exists>s'. mmosal_malloc n s = Some (of_nat (heap_base s + off + 16), s')
                \<and> heap_base s' = heap_base s \<and> heap_rep s' bs')
       \<and> ((unat p, k) \<in> live (heap_base s) bs \<longrightarrow>
            (\<exists>s'. mmosal_free p s = Some s' \<and> heap_base s' = heap_base s
               \<and> heap_rep s' (free_bs (unat p - heap_base s - 16) bs)))"
proof (intro conjI impI)
  show "case heap_spec_alloc (unat n) bs of
            None \<Rightarrow> mmosal_malloc n s = Some (0, s)
          | Some (off, bs') \<Rightarrow> \<exists>s'. mmosal_malloc n s = Some (of_nat (heap_base s + off + 16), s')
                \<and> heap_base s' = heap_base s \<and> heap_rep s' bs'"
    using malloc_refines [OF rep, of n]
    by (fastforce simp: mmosal_malloc_def simp del: of_nat_add split: option.splits)
next
  assume "(unat p, k) \<in> live (heap_base s) bs"
  from free_refines [OF rep this] show "\<exists>s'. mmosal_free p s = Some s' \<and> heap_base s' = heap_base s
               \<and> heap_rep s' (free_bs (unat p - heap_base s - 16) bs)"
    by (fastforce simp: mmosal_free_def)
qed

theorem heap_refines_layout_witness:
  "\<exists>s'. mmosal_malloc 20 pool_ex = Some (536870928, s') \<and> heap_rep s' [(24, True), (98248, False)]"
  using heap_refines_layout [OF pool_ex_rep, of 20]
  by (auto simp: heap_spec_alloc_def pool_ex_def pool0_def mm_halow_osal_init_def)

text \<open>
  C24: Round trip. Freeing a block straight after allocating it restores the pool to
  exactly the layout it had: the split is undone by the coalescing.
\<close>

theorem malloc_free_roundtrip:
  assumes "heap_rep s bs" and "mmosal_malloc n s = Some (p, s1)" and "p \<noteq> 0"
  shows "\<exists>s2. mmosal_free p s1 = Some s2 \<and> heap_rep s2 bs"
  using malloc_free_exact assms by (simp add: mmosal_malloc_def mmosal_free_def)

theorem malloc_free_roundtrip_witness:
  "\<exists>s1 s2. mmosal_malloc 100 pool_ex = Some (536870928, s1)
     \<and> mmosal_free 536870928 s1 = Some s2 \<and> heap_rep s2 [(98288, False)]"
  using pool_ex_malloc malloc_free_roundtrip [OF pool_ex_rep, of 100 536870928] by auto

text \<open>
  C25: No leak and no fragmentation left behind. Whatever sequence of malloc, calloc,
  realloc, free and payload writes the pool has been through, once nothing is live it is
  again the single free block that mm_halow_osal_init() made, so any request up to the
  whole pool can be served.
\<close>

theorem heap_no_leak:
  assumes "heap_run s {}"
  shows "heap_rep s [(98288, False)]"
proof -
  obtain bs where rep: "heap_rep s bs" and L: "live (heap_base s) bs = {}"
    using heap_run_live [OF assms] by (auto simp: heap_live_def)
  have "bs = [(total bs - 16, False)]"
    by (rule no_live_one_block [OF L]) (use rep heap_rep_ne [OF rep] in \<open>simp_all add: heap_rep_def\<close>)
  moreover have "total bs = 98304" using rep by (simp add: heap_rep_def)
  ultimately show ?thesis using rep by simp
qed

theorem heap_no_leak_witness:
  "\<exists>s1 s2. mmosal_malloc 100 pool_ex = Some (536870928, s1) \<and> mmosal_free 536870928 s1 = Some s2
     \<and> heap_rep s2 [(98288, False)]"
proof -
  obtain s1 where m: "mmosal_malloc 100 pool_ex = Some (536870928, s1)"
    using pool_ex_malloc by blast
  have r1: "heap_run s1 {block_at s1 536870928}" using run_malloc [OF pool_ex_run m] by simp
  obtain s2 where f: "mmosal_free 536870928 s1 = Some s2"
    using heap.free_live [OF heap_run_live [OF r1], of 536870928] by (auto simp: mmosal_free_def)
  have "heap_run s2 {}" using run_free [OF r1 _ f] by simp
  from heap_no_leak [OF this] m f show ?thesis by blast
qed

text \<open>
  calloc. It always returns. If the product overflows 32 bits it returns NULL and
  changes nothing; a block it returns holds the full product, reads as zero throughout,
  and allocating it left the contents of every live block as they were.
\<close>

theorem calloc_correct:
  assumes "heap_run s L"
  shows "\<exists>p s'. mmosal_calloc m n s = Some (p, s')
    \<and> (4294967296 \<le> unat m * unat n \<longrightarrow> p = 0) \<and> (p = 0 \<longrightarrow> s' = s)
    \<and> (p \<noteq> 0 \<longrightarrow> unat m * unat n \<le> snd (block_at s' p)
         \<and> heap_live s' (insert (block_at s' p) L)
         \<and> (\<forall>a. in_block a (unat p, unat m * unat n) \<longrightarrow> bytes s' a = 0)
         \<and> (\<forall>a. \<forall>x \<in> L. in_block a x \<longrightarrow> bytes s' a = bytes s a))"
proof -
  have L: "heap_live s L" by (rule heap_run_live [OF assms])
  obtain p s' where c: "mmosal_calloc m n s = Some (p, s')"
    using calloc_returns [OF L] by blast
  show ?thesis
  proof (cases "p = 0")
    case True
    with c calloc_null [OF L] show ?thesis by auto
  next
    case False
    have "\<not> 4294967296 \<le> unat m * unat n" using c False calloc_overflow [of m n s] by auto
    with calloc_zeroes [OF L c False] c False show ?thesis by auto
  qed
qed

theorem calloc_correct_witness:
  "mmosal_calloc 65536 65536 pool_ex = Some (0, pool_ex)
   \<and> (\<exists>p s'. mmosal_calloc 4 25 pool_ex = Some (p, s') \<and> (p \<noteq> 0 \<longrightarrow> bytes s' p = 0))"
proof (intro conjI)
  show "mmosal_calloc 65536 65536 pool_ex = Some (0, pool_ex)"
    using calloc_correct [OF pool_ex_run, of 65536 65536] by auto
  obtain p s' where c: "mmosal_calloc 4 25 pool_ex = Some (p, s')"
      "p \<noteq> 0 \<longrightarrow> (\<forall>a. in_block a (unat p, unat (4 :: u32) * unat (25 :: u32)) \<longrightarrow> bytes s' a = 0)"
    using calloc_correct [OF pool_ex_run, of 4 25] by blast
  then show "\<exists>p s'. mmosal_calloc 4 25 pool_ex = Some (p, s') \<and> (p \<noteq> 0 \<longrightarrow> bytes s' p = 0)"
    by (auto simp: in_block_def)
qed


text \<open>A heap with one live block whose first byte is 7, for the witness.\<close>

definition pool_one :: "heap_st" where
  "pool_one = (snd (the (mmosal_malloc 100 pool_ex)))\<lparr>bytes := (\<lambda>_. 7)\<rparr>"

lemma pool_one_run: "heap_run pool_one {(536870928, 104)}"
proof -
  obtain s1 where m: "mmosal_malloc 100 pool_ex = Some (536870928, s1)" "b_size (blk s1 536870912) = 104"
    using pool_ex_malloc by blast
  have "heap_run s1 {block_at s1 536870928}" using run_malloc [OF pool_ex_run m(1)] by simp
  then have "heap_run s1 {(536870928, 104)}" using m(2) by (simp add: MM_HALOW_DATA_BLOCK_def)
  then show ?thesis using m(1) by (auto simp: pool_one_def intro: run_write)
qed


end
