(* ===== verification/Halow_Sched.thy ===== *)
theory Halow_Sched
  imports Halow_Heap_Props
begin

text \<open>
  The cooperative scheduler (mm_halow_sched.c): the static task table and its list in
  creation order, task creation and deletion, the claim on the transceiver, the scheduler
  pass with its time budget, yielding, parking and waiting.

  A task pointer is a natural number: 0 is NULL and \<open>Suc i\<close> is &mm_halow_tasks[i].
  The context switch is assembly; here it is a parameter, the effect on the driver's state
  of everything that runs until control comes back: \<open>turn\<close> seen from the scheduler,
  \<open>switch\<close> seen from the task that gives up the processor. Stacks are word memory of
  their own, apart from the payload bytes.
\<close>

section \<open>State\<close>

record mm_halow_task =
  t_sp :: ptr
  t_next :: nat
  t_stack :: ptr
  t_stack_words :: u32
  t_name :: string
  t_entry :: ptr
  t_arg :: u32
  t_notify :: u32
  t_state :: u8

abbreviation MM_HALOW_TASK_READY :: u8 where "MM_HALOW_TASK_READY \<equiv> 0"
abbreviation MM_HALOW_TASK_DEAD :: u8 where "MM_HALOW_TASK_DEAD \<equiv> 1"
abbreviation MM_HALOW_SCHED_MAX_TASKS :: nat where "MM_HALOW_SCHED_MAX_TASKS \<equiv> 4"
abbreviation MM_HALOW_CONTEXT_WORDS :: u32 where "MM_HALOW_CONTEXT_WORDS \<equiv> 26"
abbreviation MM_HALOW_STACK_FILL :: u32 where "MM_HALOW_STACK_FILL \<equiv> 0xA5A5A5A5"
abbreviation MM_HALOW_SCHED_BUDGET_MS :: u32 where "MM_HALOW_SCHED_BUDGET_MS \<equiv> 20"
abbreviation MM_HALOW_SCHED_WAIT_MAX_MS :: u32 where "MM_HALOW_SCHED_WAIT_MAX_MS \<equiv> 10000"
abbreviation MM_HALOW_SCHED_PASSES :: nat where "MM_HALOW_SCHED_PASSES \<equiv> 4"
abbreviation MM_HALOW_OWNER_NONE :: u8 where "MM_HALOW_OWNER_NONE \<equiv> 0"
abbreviation MM_HALOW_OWNER_THREAD :: u8 where "MM_HALOW_OWNER_THREAD \<equiv> 1"
abbreviation MM_HALOW_OWNER_IRQ :: u8 where "MM_HALOW_OWNER_IRQ \<equiv> 2"
abbreviation INT32_MAX :: u32 where "INT32_MAX \<equiv> 0x7FFFFFFF"
abbreviation UINT32_MAX :: u32 where "UINT32_MAX \<equiv> - 1"

record sched_st = heap_st +
  mm_halow_tasks :: "nat \<Rightarrow> mm_halow_task"
  mm_halow_task_list :: nat
  mm_halow_task_cur :: nat
  mm_halow_sched_woken :: bool
  mm_halow_sched_wake_at :: u32
  mm_halow_sched_running :: bool
  mm_halow_service_owner :: u8
  mm_halow_service_depth :: u8
  mm_halow_sched_deadline :: u32
  mm_halow_sched_in_callback :: bool
  mm_halow_wait_depth :: u16
  mm_halow_sched_teardown :: bool
  words :: "ptr \<Rightarrow> u32"
  trampoline_addr :: ptr

text \<open>Updating one field of one task.\<close>

definition upd_task :: "nat \<Rightarrow> (mm_halow_task \<Rightarrow> mm_halow_task) \<Rightarrow> 'a sched_st_scheme \<Rightarrow> 'a sched_st_scheme" where
  "upd_task p f s = s\<lparr>mm_halow_tasks := (mm_halow_tasks s)(p := f (mm_halow_tasks s p))\<rparr>"

section \<open>Waking\<close>

definition mm_halow_sched_wake_at_reset :: "'a sched_st_scheme \<Rightarrow> 'a sched_st_scheme" where
  "mm_halow_sched_wake_at_reset s = s\<lparr>mm_halow_sched_wake_at := mm_halow_ticks_ms s + INT32_MAX\<rparr>"

definition mm_halow_sched_wake :: "'a sched_st_scheme \<Rightarrow> 'a sched_st_scheme" where
  "mm_halow_sched_wake s = s\<lparr>mm_halow_sched_woken := True\<rparr>"

definition mm_halow_sched_pending :: "'a sched_st_scheme \<Rightarrow> bool" where
  "mm_halow_sched_pending s \<longleftrightarrow>
     mm_halow_sched_woken s \<or> tick_reached (mm_halow_ticks_ms s) (mm_halow_sched_wake_at s)"

section \<open>Tasks\<close>

text \<open>Writing \<open>n\<close> words from \<open>p\<close> upwards.\<close>

definition fill_words :: "ptr \<Rightarrow> u32 \<Rightarrow> u32 \<Rightarrow> (ptr \<Rightarrow> u32) \<Rightarrow> (ptr \<Rightarrow> u32)" where
  "fill_words p n v m = (\<lambda>a. if (a - p) mod 4 = 0 \<and> (a - p) div 4 < n then v else m a)"

text \<open>The walk to the last node of the task list.\<close>

partial_function (option) task_tail :: "(nat \<Rightarrow> mm_halow_task) \<Rightarrow> nat \<Rightarrow> nat option" where
  "task_tail m p = (if t_next (m p) = 0 then Some p else task_tail m (t_next (m p)))"

definition task_append :: "nat \<Rightarrow> 'a sched_st_scheme \<Rightarrow> 'a sched_st_scheme option" where
  "task_append task s =
     (if mm_halow_task_list s = 0 then Some (s\<lparr>mm_halow_task_list := task\<rparr>)
      else do {
        p \<leftarrow> task_tail (mm_halow_tasks s) (mm_halow_task_list s);
        Some (upd_task p (\<lambda>t. t\<lparr>t_next := task\<rparr>) s)
      })"

definition mm_halow_sched_task_create ::
    "ptr \<Rightarrow> u32 \<Rightarrow> u32 \<Rightarrow> string \<Rightarrow> 'a sched_st_scheme \<Rightarrow> (nat \<times> 'a sched_st_scheme) option" where
  "mm_halow_sched_task_create entry arg stack_words name s =
     (case List.find (\<lambda>p. t_stack (mm_halow_tasks s p) = 0) [1..<Suc MM_HALOW_SCHED_MAX_TASKS] of
        None \<Rightarrow> Some (0, s)
      | Some task \<Rightarrow>
          let w = (stack_words + 1) AND NOT 1;
              w = (if w < MM_HALOW_CONTEXT_WORDS then MM_HALOW_CONTEXT_WORDS else w) in
          do {
            (stack, s1) \<leftarrow> mm_halow_osal_malloc (w * 4) s;
            if stack = 0 then Some (0, s1)
            else do {
              let sp = stack + 4 * (w - MM_HALOW_CONTEXT_WORDS);
              let mem = fill_words stack w MM_HALOW_STACK_FILL (words s1);
              let mem = fill_words sp MM_HALOW_CONTEXT_WORDS 0 mem;
              let mem = mem(sp + 4 * (MM_HALOW_CONTEXT_WORDS - 1) := trampoline_addr s1);
              let s2 = upd_task task (\<lambda>_. \<lparr>t_sp = sp, t_next = 0, t_stack = stack, t_stack_words = w,
                         t_name = name, t_entry = entry, t_arg = arg, t_notify = 0,
                         t_state = MM_HALOW_TASK_READY\<rparr>) (s1\<lparr>words := mem\<rparr>);
              s3 \<leftarrow> task_append task s2;
              Some (task, mm_halow_sched_wake s3)
            }
          })"

text \<open>Counting the untouched words at the low end of a stack.\<close>

function stack_free_from :: "(ptr \<Rightarrow> u32) \<Rightarrow> ptr \<Rightarrow> u32 \<Rightarrow> u32 \<Rightarrow> u32" where
  "stack_free_from m stack n free_words =
     (if free_words < n \<and> m (stack + 4 * free_words) = MM_HALOW_STACK_FILL
      then stack_free_from m stack n (free_words + 1) else free_words)"
  by pat_completeness auto
termination
proof (relation "measure (\<lambda>(m, stack, n, f). unat n - unat f)")
  show "wf (measure (\<lambda>(m :: ptr \<Rightarrow> u32, stack :: ptr, n :: u32, f :: u32). unat n - unat f))" by simp
  fix m :: "ptr \<Rightarrow> u32" and stack n f :: u32
  assume "f < n \<and> m (stack + 4 * f) = MM_HALOW_STACK_FILL"
  then have "f < n" by simp
  then have "unat f < unat n" "unat (f + 1) = unat f + 1"
    by (simp_all add: word_less_nat_alt unat_inc_u32)
  then show "((m, stack, n, f + 1), m, stack, n, f)
      \<in> measure (\<lambda>(m, stack, n, f). unat n - unat f)" by simp
qed

declare stack_free_from.simps [simp del]

definition mm_halow_sched_stack_free_words :: "nat \<Rightarrow> 'a sched_st_scheme \<Rightarrow> u32" where
  "mm_halow_sched_stack_free_words task s =
     (if task = 0 \<or> t_stack (mm_halow_tasks s task) = 0 then 0
      else stack_free_from (words s) (t_stack (mm_halow_tasks s task))
             (t_stack_words (mm_halow_tasks s task)) 0)"

text \<open>
  Deleting NULL from a task kills the calling task: the code then switches away for good,
  so the state below is the one the scheduler resumes in.
\<close>

definition mm_halow_sched_task_delete :: "nat \<Rightarrow> 'a sched_st_scheme \<Rightarrow> 'a sched_st_scheme" where
  "mm_halow_sched_task_delete task s =
     (if task = 0 then
        if mm_halow_task_cur s = 0 then s
        else mm_halow_sched_wake (upd_task (mm_halow_task_cur s) (\<lambda>t. t\<lparr>t_state := MM_HALOW_TASK_DEAD\<rparr>) s)
      else mm_halow_sched_wake (upd_task task (\<lambda>t. t\<lparr>t_state := MM_HALOW_TASK_DEAD\<rparr>) s))"

text \<open>What a task starts in: its main function, and if that returns, the end of the task.\<close>

definition mm_halow_task_trampoline ::
    "(ptr \<Rightarrow> u32 \<Rightarrow> 'a sched_st_scheme \<Rightarrow> 'a sched_st_scheme option) \<Rightarrow>
     'a sched_st_scheme \<Rightarrow> 'a sched_st_scheme option" where
  "mm_halow_task_trampoline call s =
     (let task = mm_halow_tasks s (mm_halow_task_cur s)
      in map_option (mm_halow_sched_task_delete 0) (call (t_entry task) (t_arg task) s))"

definition mm_halow_sched_task_current :: "'a sched_st_scheme \<Rightarrow> nat" where
  "mm_halow_sched_task_current s = mm_halow_task_cur s"

section \<open>The time budget and the claim on the transceiver\<close>

definition mm_halow_pass_expired :: "'a sched_st_scheme \<Rightarrow> bool" where
  "mm_halow_pass_expired s \<longleftrightarrow>
     mm_halow_sched_running s \<and> tick_reached (mm_halow_ticks_ms s) (mm_halow_sched_deadline s)"

definition mm_halow_sched_over_budget :: "'a sched_st_scheme \<Rightarrow> bool" where
  "mm_halow_sched_over_budget s \<longleftrightarrow> mm_halow_task_cur s \<noteq> 0 \<and> mm_halow_pass_expired s"

definition mm_halow_sched_claim :: "'a sched_st_scheme \<Rightarrow> bool \<times> 'a sched_st_scheme" where
  "mm_halow_sched_claim s =
     (let owner = (if mm_halow_in_irq s then MM_HALOW_OWNER_IRQ else MM_HALOW_OWNER_THREAD);
          (atomic_state, s1) = begin_atomic s;
          claimed = (mm_halow_service_owner s1 = MM_HALOW_OWNER_NONE \<or> mm_halow_service_owner s1 = owner);
          s2 = (if claimed then s1\<lparr>mm_halow_service_owner := owner,
                                   mm_halow_service_depth := mm_halow_service_depth s1 + 1\<rparr> else s1)
      in (claimed, end_atomic atomic_state s2))"

definition mm_halow_sched_release :: "'a sched_st_scheme \<Rightarrow> 'a sched_st_scheme" where
  "mm_halow_sched_release s =
     (let (atomic_state, s1) = begin_atomic s;
          s2 = (if mm_halow_service_depth s1 > 0 then
                  let s' = s1\<lparr>mm_halow_service_depth := mm_halow_service_depth s1 - 1\<rparr> in
                  if mm_halow_service_depth s' = 0 then s'\<lparr>mm_halow_service_owner := MM_HALOW_OWNER_NONE\<rparr> else s'
                else s1)
      in end_atomic atomic_state s2)"

section \<open>The scheduler pass\<close>

record 's sched_env =
  turn :: "nat \<Rightarrow> 's \<Rightarrow> 's option"
  switch :: "'s \<Rightarrow> 's option"
  hook :: "'s \<Rightarrow> 's"
  irq :: "'s \<Rightarrow> 's"

definition set_next :: "nat \<Rightarrow> nat \<Rightarrow> 'a sched_st_scheme \<Rightarrow> 'a sched_st_scheme" where
  "set_next prev n s =
     (if prev = 0 then s\<lparr>mm_halow_task_list := n\<rparr> else upd_task prev (\<lambda>t. t\<lparr>t_next := n\<rparr>) s)"

partial_function (option) reap_from ::
    "nat \<Rightarrow> nat \<Rightarrow> 'a sched_st_scheme \<Rightarrow> 'a sched_st_scheme option" where
  "reap_from prev task s =
     (if task = 0 then Some s
      else if t_state (mm_halow_tasks s task) = MM_HALOW_TASK_DEAD then
        Option.bind (mm_halow_osal_free (t_stack (mm_halow_tasks (set_next prev (t_next (mm_halow_tasks s task)) s) task))
              (set_next prev (t_next (mm_halow_tasks s task)) s))
          (\<lambda>s1. reap_from prev (t_next (mm_halow_tasks s task))
                  (upd_task task (\<lambda>t. t\<lparr>t_stack := 0, t_next := 0\<rparr>) s1))
      else reap_from task (t_next (mm_halow_tasks s task)) s)"

definition mm_halow_sched_reap :: "'a sched_st_scheme \<Rightarrow> 'a sched_st_scheme option" where
  "mm_halow_sched_reap s = reap_from 0 (mm_halow_task_list s) s"

text \<open>One walk over the task list: every ready task gets one turn.\<close>

partial_function (option) run_tasks ::
    "'a sched_st_scheme sched_env \<Rightarrow> nat \<Rightarrow> 'a sched_st_scheme \<Rightarrow> 'a sched_st_scheme option" where
  "run_tasks env task s =
     (if task = 0 then Some s
      else if t_state (mm_halow_tasks s task) \<noteq> MM_HALOW_TASK_READY
      then run_tasks env (t_next (mm_halow_tasks s task)) s
      else Option.bind (turn env task (emit (Ev_turn task) (s\<lparr>mm_halow_task_cur := task\<rparr>)))
             (\<lambda>s1. run_tasks env (t_next (mm_halow_tasks s1 task)) (s1\<lparr>mm_halow_task_cur := 0\<rparr>)))"

fun run_passes ::
    "'a sched_st_scheme sched_env \<Rightarrow> nat \<Rightarrow> 'a sched_st_scheme \<Rightarrow> 'a sched_st_scheme option" where
  "run_passes env 0 s = Some s"
| "run_passes env (Suc n) s =
     (if mm_halow_pass_expired s then Some s
      else do {
        let s1 = mm_halow_sched_wake_at_reset (s\<lparr>mm_halow_sched_woken := False\<rparr>);
        s2 \<leftarrow> run_tasks env (mm_halow_task_list s1) s1;
        if \<not> mm_halow_sched_woken s2 then Some s2 else run_passes env n s2
      })"

definition mm_halow_sched_run ::
    "'a sched_st_scheme sched_env \<Rightarrow> 'a sched_st_scheme \<Rightarrow> 'a sched_st_scheme option" where
  "mm_halow_sched_run env s =
     (if mm_halow_sched_running s \<or> mm_halow_task_cur s \<noteq> 0 then Some s
      else do {
        let s1 = s\<lparr>mm_halow_sched_running := True,
                   mm_halow_sched_deadline := mm_halow_ticks_ms s + MM_HALOW_SCHED_BUDGET_MS\<rparr>;
        s2 \<leftarrow> run_passes env MM_HALOW_SCHED_PASSES s1;
        s3 \<leftarrow> mm_halow_sched_reap s2;
        Some (s3\<lparr>mm_halow_sched_running := False\<rparr>)
      })"

definition mm_halow_sched_deinit :: "'a sched_st_scheme \<Rightarrow> 'a sched_st_scheme" where
  "mm_halow_sched_deinit s =
     (mm_halow_sched_wake_at_reset (s\<lparr>mm_halow_task_list := 0, mm_halow_task_cur := 0,
        mm_halow_sched_running := False, mm_halow_service_owner := MM_HALOW_OWNER_NONE,
        mm_halow_service_depth := 0, mm_halow_sched_woken := False\<rparr>))
     \<lparr>mm_halow_tasks := (\<lambda>_. \<lparr>t_sp = 0, t_next = 0, t_stack = 0, t_stack_words = 0, t_name = [],
        t_entry = 0, t_arg = 0, t_notify = 0, t_state = 0\<rparr>)\<rparr>"

section \<open>Yielding, parking, waiting\<close>

definition mm_halow_sched_yield ::
    "'a sched_st_scheme sched_env \<Rightarrow> 'a sched_st_scheme \<Rightarrow> 'a sched_st_scheme option" where
  "mm_halow_sched_yield env s =
     (if mm_halow_task_cur s \<noteq> 0 then switch env (s\<lparr>mm_halow_sched_woken := True\<rparr>)
      else do {
        let (claimed, s1) = mm_halow_sched_claim s;
        s2 \<leftarrow> (if claimed then do { s' \<leftarrow> mm_halow_sched_run env s1; Some (mm_halow_sched_release s') }
               else Some s1);
        Some (if \<not> mm_halow_in_irq s2 then hook env s2 else s2)
      })"

definition mm_halow_sched_in_wait :: "'a sched_st_scheme \<Rightarrow> bool" where
  "mm_halow_sched_in_wait s \<longleftrightarrow> mm_halow_wait_depth s > 0"

definition mm_halow_sched_park ::
    "'a sched_st_scheme sched_env \<Rightarrow> bool \<Rightarrow> u32 \<Rightarrow> 'a sched_st_scheme \<Rightarrow> 'a sched_st_scheme option" where
  "mm_halow_sched_park env timed wake_at s =
     (if mm_halow_task_cur s = 0 then mm_halow_sched_yield env s
      else let s1 = (if timed \<and> sint (wake_at - mm_halow_sched_wake_at s) < 0
                     then s\<lparr>mm_halow_sched_wake_at := wake_at\<rparr> else s)
           in switch env s1)"

text \<open>
  The wait loop. The condition may consume what it finds (a semaphore count, a queue slot),
  so it is a state transformer. \<open>irq env\<close> is what interrupts may do while the deadline is
  being evaluated, which is why the code tests the condition once more after it.
\<close>

partial_function (option) wait_loop ::
    "'a sched_st_scheme sched_env \<Rightarrow> ('a sched_st_scheme \<Rightarrow> bool \<times> 'a sched_st_scheme) \<Rightarrow>
     u32 \<Rightarrow> u32 \<Rightarrow> bool \<Rightarrow> 'a sched_st_scheme \<Rightarrow> (bool \<times> 'a sched_st_scheme) option" where
  "wait_loop env cond timeout_ms start forever s =
     (case cond s of (c, s1) \<Rightarrow>
      if c then Some (True, s1)
      else if timeout_ms = 0 then Some (False, s1)
      else if forever \<and> \<not> mm_halow_sched_teardown s1
      then Option.bind (mm_halow_sched_park env False 0 s1)
             (\<lambda>s2. wait_loop env cond timeout_ms start forever s2)
      else let timeout' = (if forever then MM_HALOW_SCHED_WAIT_MAX_MS else timeout_ms);
               start' = (if forever then mm_halow_ticks_ms s1 else start);
               s2 = irq env s1 in
        if mm_halow_ticks_ms s2 - start' \<ge> timeout' then Some (cond s2)
        else Option.bind (mm_halow_sched_park env True (start' + timeout') s2)
               (\<lambda>s3. wait_loop env cond timeout' start' False s3))"

definition mm_halow_sched_wait ::
    "'a sched_st_scheme sched_env \<Rightarrow> ('a sched_st_scheme \<Rightarrow> bool \<times> 'a sched_st_scheme) \<Rightarrow>
     u32 \<Rightarrow> 'a sched_st_scheme \<Rightarrow> (bool \<times> 'a sched_st_scheme) option" where
  "mm_halow_sched_wait env cond timeout_ms s =
     (let forever = (timeout_ms = UINT32_MAX);
          timeout = (if timeout_ms > MM_HALOW_SCHED_WAIT_MAX_MS
                        \<and> (\<not> forever \<or> mm_halow_sched_teardown s)
                     then MM_HALOW_SCHED_WAIT_MAX_MS else timeout_ms);
          start = mm_halow_ticks_ms s;
          counted = (mm_halow_sched_task_current s = 0);
          s1 = (if counted then s\<lparr>mm_halow_wait_depth := mm_halow_wait_depth s + 1\<rparr> else s)
      in do {
        (satisfied, s2) \<leftarrow> wait_loop env cond timeout start forever s1;
        let s3 = (if counted then s2\<lparr>mm_halow_wait_depth := mm_halow_wait_depth s2 - 1\<rparr> else s2);
        Some (satisfied, if satisfied then mm_halow_sched_wake s3 else s3)
      })"

end
