(* ===== verification/Halow_Sched_Inv.thy ===== *)
theory Halow_Sched_Inv
  imports Halow_Sched
begin

text \<open>
  The invariant of the task table and its preservation by task creation, deletion and
  reaping: the list in creation order is a null-terminated chain through exactly the
  slots that have a stack, each stack is a live block of the driver's heap, and no two
  tasks share one.
\<close>

section \<open>Frames\<close>

lemma heap_live_cong:
  "mm_halow_heap_head s' = mm_halow_heap_head s \<Longrightarrow> mm_halow_heap_mem s' = mm_halow_heap_mem s \<Longrightarrow>
   blk s' = blk s \<Longrightarrow> heap_live s' L = heap_live s L"
  by (simp add: heap_live_def heap_rep_def)

lemma upd_task_simps [simp]:
  "mm_halow_tasks (upd_task p f s) = (mm_halow_tasks s)(p := f (mm_halow_tasks s p))"
  "mm_halow_task_list (upd_task p f s) = mm_halow_task_list s"
  "mm_halow_task_cur (upd_task p f s) = mm_halow_task_cur s"
  "mm_halow_sched_running (upd_task p f s) = mm_halow_sched_running s"
  "mm_halow_sched_deadline (upd_task p f s) = mm_halow_sched_deadline s"
  "mm_halow_sched_woken (upd_task p f s) = mm_halow_sched_woken s"
  "mm_halow_heap_head (upd_task p f s) = mm_halow_heap_head s"
  "mm_halow_heap_mem (upd_task p f s) = mm_halow_heap_mem s"
  "blk (upd_task p f s) = blk s" "bytes (upd_task p f s) = bytes s"
  "words (upd_task p f s) = words s"
  "time_ms (upd_task p f s) = time_ms s" "trace (upd_task p f s) = trace s"
  "irq_ctx (upd_task p f s) = irq_ctx s" "irq_off (upd_task p f s) = irq_off s"
  by (simp_all add: upd_task_def)

text \<open>Fields that malloc and free leave alone, seen from the scheduler's state.\<close>

lemma malloc_sched_frame [frame]:
  assumes "mm_halow_osal_malloc n s = Some (p, s')"
  shows "mm_halow_tasks s' = mm_halow_tasks s" "mm_halow_task_list s' = mm_halow_task_list s"
    "mm_halow_task_cur s' = mm_halow_task_cur s" "mm_halow_sched_running s' = mm_halow_sched_running s"
    "mm_halow_sched_deadline s' = mm_halow_sched_deadline s" "trace s' = trace s"
    "time_ms s' = time_ms s" "mm_halow_sched_woken s' = mm_halow_sched_woken s"
    "words s' = words s" "trampoline_addr s' = trampoline_addr s"
  using assms by (auto simp: malloc_eq split: if_splits)

lemma free_sched_frame [frame]:
  assumes "mm_halow_osal_free p s = Some s'"
  shows "mm_halow_tasks s' = mm_halow_tasks s" "mm_halow_task_list s' = mm_halow_task_list s"
    "mm_halow_task_cur s' = mm_halow_task_cur s" "mm_halow_sched_running s' = mm_halow_sched_running s"
    "mm_halow_sched_deadline s' = mm_halow_sched_deadline s" "trace s' = trace s"
    "time_ms s' = time_ms s" "mm_halow_sched_woken s' = mm_halow_sched_woken s"
  using assms by (auto simp: free_eq split: if_splits)

section \<open>The invariant\<close>

abbreviation task_next :: "'a sched_st_scheme \<Rightarrow> nat \<Rightarrow> nat" where
  "task_next s \<equiv> (\<lambda>p. t_next (mm_halow_tasks s p))"

abbreviation task_stack :: "'a sched_st_scheme \<Rightarrow> nat \<Rightarrow> ptr" where
  "task_stack s \<equiv> (\<lambda>p. t_stack (mm_halow_tasks s p))"

abbreviation task_dead :: "'a sched_st_scheme \<Rightarrow> nat \<Rightarrow> bool" where
  "task_dead s p \<equiv> t_state (mm_halow_tasks s p) = MM_HALOW_TASK_DEAD"

abbreviation task_ready :: "'a sched_st_scheme \<Rightarrow> nat \<Rightarrow> bool" where
  "task_ready s p \<equiv> t_state (mm_halow_tasks s p) = MM_HALOW_TASK_READY"

definition sched_ok :: "'a sched_st_scheme \<Rightarrow> nat list \<Rightarrow> (nat \<times> nat) set \<Rightarrow> bool" where
  "sched_ok s q L \<longleftrightarrow>
     chain (task_next s) 0 (mm_halow_task_list s) q \<and> set q \<subseteq> {1..4} \<and>
     (\<forall>p \<in> {1..4}. task_stack s p \<noteq> 0 \<longleftrightarrow> p \<in> set q) \<and>
     (\<forall>p \<in> set q. (task_ready s p \<or> task_dead s p) \<and> (\<exists>k. (unat (task_stack s p), k) \<in> L)) \<and>
     inj_on (task_stack s) (set q) \<and> heap_live s L"

text \<open>Two states have the same task in a slot, up to its place on the list.\<close>

definition task_same :: "'a sched_st_scheme \<Rightarrow> 'a sched_st_scheme \<Rightarrow> nat \<Rightarrow> bool" where
  "task_same s s' r \<longleftrightarrow>
     (mm_halow_tasks s' r)\<lparr>t_next := 0\<rparr> = (mm_halow_tasks s r)\<lparr>t_next := 0\<rparr>"

lemma task_same_refl [simp]: "task_same s s r"
  by (simp add: task_same_def)

lemma task_same_trans: "task_same s s' r \<Longrightarrow> task_same s' s'' r \<Longrightarrow> task_same s s'' r"
  by (simp add: task_same_def)

lemma task_sameD:
  assumes "task_same s s' r"
  shows "t_state (mm_halow_tasks s' r) = t_state (mm_halow_tasks s r)"
    and "task_stack s' r = task_stack s r"
    and "t_notify (mm_halow_tasks s' r) = t_notify (mm_halow_tasks s r)"
    and "t_name (mm_halow_tasks s' r) = t_name (mm_halow_tasks s r)"
  using assms by (cases "mm_halow_tasks s r"; cases "mm_halow_tasks s' r"; simp add: task_same_def)+

lemma sched_ok_cong:
  "mm_halow_tasks s' = mm_halow_tasks s \<Longrightarrow> mm_halow_task_list s' = mm_halow_task_list s \<Longrightarrow>
   mm_halow_heap_head s' = mm_halow_heap_head s \<Longrightarrow> mm_halow_heap_mem s' = mm_halow_heap_mem s \<Longrightarrow>
   blk s' = blk s \<Longrightarrow> sched_ok s' q L = sched_ok s q L"
  by (simp add: sched_ok_def heap_live_cong [of s' s])

lemma sched_ok_distinct: "sched_ok s q L \<Longrightarrow> distinct q"
  by (auto simp: sched_ok_def intro: chain_distinct)

lemma sched_ok_length: assumes "sched_ok s q L" shows "length q \<le> 4"
proof -
  have "length q = card (set q)" using sched_ok_distinct [OF assms] by (simp add: distinct_card)
  also have "\<dots> \<le> card {1 .. 4 :: nat}"
    using assms by (intro card_mono) (auto simp: sched_ok_def)
  finally show ?thesis by simp
qed

lemma sched_ok_nonnull: "sched_ok s q L \<Longrightarrow> p \<in> set q \<Longrightarrow> p \<noteq> 0"
  unfolding sched_ok_def by fastforce

section \<open>Creation\<close>

lemma find_slot_None:
  "List.find (\<lambda>p. task_stack s p = 0) [1..<Suc MM_HALOW_SCHED_MAX_TASKS] = None
     \<longleftrightarrow> (\<forall>p \<in> {1..4}. task_stack s p \<noteq> 0)"
  by (auto simp: find_None_iff)

lemma find_slot_Some:
  "List.find (\<lambda>p. task_stack s p = 0) [1..<Suc MM_HALOW_SCHED_MAX_TASKS] = Some p
     \<Longrightarrow> p \<in> {1..4} \<and> task_stack s p = 0"
  by (auto simp: find_Some_iff simp del: upt_Suc)

text \<open>The table is full exactly when four tasks are on the list.\<close>

lemma slots_full:
  assumes "sched_ok s q L"
  shows "(\<forall>p \<in> {1..4}. task_stack s p \<noteq> 0) \<longleftrightarrow> length q = 4"
proof -
  have l: "length q = card (set q)" using sched_ok_distinct [OF assms] by (simp add: distinct_card)
  have sub: "set q \<subseteq> {1..4}" using assms by (simp add: sched_ok_def)
  have "(\<forall>p \<in> {1..4}. task_stack s p \<noteq> 0) \<longleftrightarrow> set q = {1..4}"
    using assms by (fastforce simp: sched_ok_def)
  also have "\<dots> \<longleftrightarrow> length q = 4"
    using card_subset_eq [OF _ sub] l by auto
  finally show ?thesis .
qed

lemma task_tail_last:
  "chain (\<lambda>p. t_next (m p)) 0 p q \<Longrightarrow> q \<noteq> [] \<Longrightarrow> task_tail m p = Some (last q)"
proof (induction q arbitrary: p)
  case (Cons a q)
  show ?case
  proof (cases "q = []")
    case True
    with Cons.prems show ?thesis by (subst task_tail.simps) auto
  next
    case False
    moreover from False Cons.prems have "t_next (m a) \<noteq> 0" by (cases q) auto
    ultimately show ?thesis using Cons by (subst task_tail.simps) auto
  qed
qed simp

lemma task_append_ok:
  assumes "chain (task_next s) 0 (mm_halow_task_list s) q" and "x \<noteq> 0" and "x \<notin> set q"
    and "task_next s x = 0"
  shows "\<exists>s'. task_append x s = Some s' \<and> chain (task_next s') 0 (mm_halow_task_list s') (q @ [x])
    \<and> s' = s\<lparr>mm_halow_task_list := mm_halow_task_list s', mm_halow_tasks := mm_halow_tasks s'\<rparr>
    \<and> (\<forall>p. mm_halow_tasks s' p = (mm_halow_tasks s p)\<lparr>t_next := task_next s' p\<rparr>)"
proof (cases "q = []")
  case True
  with assms show ?thesis by (simp add: task_append_def)
next
  case False
  then have ne: "mm_halow_task_list s \<noteq> 0" using assms(1) by (cases q) auto
  let ?s = "upd_task (last q) (\<lambda>t. t\<lparr>t_next := x\<rparr>) s"
  have "task_append x s = Some ?s"
    using ne task_tail_last [OF assms(1) False] by (simp add: task_append_def)
  moreover have "chain (task_next ?s) 0 (mm_halow_task_list ?s) (q @ [x])"
    using assms False by (intro chain_snoc [of "task_next s"]) auto
  ultimately show ?thesis by (auto simp: upd_task_def)
qed

text \<open>The size of a task's stack in words, as creation rounds it.\<close>

definition stack_words_of :: "u32 \<Rightarrow> u32" where
  "stack_words_of n = (let w = (n + 1) AND NOT 1 in
     if w < MM_HALOW_CONTEXT_WORDS then MM_HALOW_CONTEXT_WORDS else w)"

abbreviation sched_same :: "'a sched_st_scheme \<Rightarrow> 'a sched_st_scheme \<Rightarrow> bool" where
  "sched_same s s' \<equiv> mm_halow_task_cur s' = mm_halow_task_cur s
     \<and> mm_halow_sched_running s' = mm_halow_sched_running s
     \<and> mm_halow_sched_deadline s' = mm_halow_sched_deadline s
     \<and> trace s' = trace s \<and> time_ms s' = time_ms s"

lemma enqueue_fresh:
  assumes ok: "sched_ok s q L" and p: "p \<in> {1..4}" "p \<notin> set q"
    and t: "mm_halow_task_list t = mm_halow_task_list s" "mm_halow_tasks t p = x"
    "\<And>r. r \<noteq> p \<Longrightarrow> mm_halow_tasks t r = mm_halow_tasks s r" and nul: "t_next x = 0"
  shows "\<exists>s'. task_append p t = Some s' \<and> chain (task_next s') 0 (mm_halow_task_list s') (q @ [p])
    \<and> s' = t\<lparr>mm_halow_task_list := mm_halow_task_list s', mm_halow_tasks := mm_halow_tasks s'\<rparr>
    \<and> mm_halow_tasks s' p = x
    \<and> (\<forall>r. r \<noteq> p \<longrightarrow> mm_halow_tasks s' r = (mm_halow_tasks s r)\<lparr>t_next := task_next s' r\<rparr>)"
proof -
  have "chain (task_next t) 0 (mm_halow_task_list s) q \<longleftrightarrow> chain (task_next s) 0 (mm_halow_task_list s) q"
    by (rule chain_cong) (use p t(3) in metis)
  then have "chain (task_next t) 0 (mm_halow_task_list t) q" using ok unfolding t(1) sched_ok_def by blast
  from task_append_ok [OF this, of p] p t(2) nul obtain s' where
    s': "task_append p t = Some s'" "chain (task_next s') 0 (mm_halow_task_list s') (q @ [p])"
      "s' = t\<lparr>mm_halow_task_list := mm_halow_task_list s', mm_halow_tasks := mm_halow_tasks s'\<rparr>"
      "\<forall>r. mm_halow_tasks s' r = (mm_halow_tasks t r)\<lparr>t_next := task_next s' r\<rparr>"
    by auto
  have "task_next s' p = 0" using s'(2) chain_suffix [of "task_next s'" 0 _ q "[p]"] by auto
  then have "mm_halow_tasks s' p = x\<lparr>t_next := 0\<rparr>" using s'(4) t(2) by metis
  then have "mm_halow_tasks s' p = x" using nul by simp
  moreover have "mm_halow_tasks s' r = (mm_halow_tasks s r)\<lparr>t_next := task_next s' r\<rparr>" if "r \<noteq> p" for r
    using s'(4) t(3) [OF that] by metis
  ultimately show ?thesis using s'(1-3) by blast
qed

text \<open>The table with the new task at the end of the list.\<close>

lemma created_ok:
  assumes ok: "sched_ok s q L" and p: "p \<in> {1..4}" "p \<notin> set q" and nz: "st \<noteq> 0"
    and hl: "heap_live s' (insert (unat st, k) L)" and ch: "chain (task_next s') 0 (mm_halow_task_list s') (q @ [p])"
    and fresh: "\<And>r. r \<in> set q \<Longrightarrow> st \<noteq> task_stack s r"
    and new: "task_stack s' p = st" "task_ready s' p"
    and old: "\<And>r. r \<noteq> p \<Longrightarrow> task_same s s' r"
  shows "sched_ok s' (q @ [p]) (insert (unat st, k) L)"
proof -
  have stk: "task_stack s' r = (if r = p then st else task_stack s r)"
    "t_state (mm_halow_tasks s' r) = (if r = p then MM_HALOW_TASK_READY else t_state (mm_halow_tasks s r))" for r
    using new task_sameD(1,2) [OF old, of r] by (cases "r = p"; simp)+
  show ?thesis
    using ok hl ch p nz fresh unfolding sched_ok_def by (auto simp: stk inj_on_def)
qed

lemma create_cases:
  assumes ok: "sched_ok s q L"
  shows "mm_halow_sched_task_create e a n nm s = Some (0, s) \<and>
        (length q = 4 \<or> mm_halow_osal_malloc (stack_words_of n * 4) s = Some (0, s)) \<or>
      (\<exists>p s' k. mm_halow_sched_task_create e a n nm s = Some (p, s') \<and> p \<in> {1..4} - set q
        \<and> sched_ok s' (q @ [p]) (insert (unat (task_stack s' p), k) L)
        \<and> unat (stack_words_of n * 4) \<le> k \<and> (\<forall>y \<in> L. apart (unat (task_stack s' p), k) y)
        \<and> (mm_halow_tasks s' p)\<lparr>t_sp := 0, t_stack := 0\<rparr> =
            \<lparr>t_sp = 0, t_next = 0, t_stack = 0, t_stack_words = stack_words_of n, t_name = nm,
             t_entry = e, t_arg = a, t_notify = 0, t_state = MM_HALOW_TASK_READY\<rparr>
        \<and> (\<forall>r. r \<noteq> p \<longrightarrow> task_same s s' r)
        \<and> mm_halow_sched_woken s' \<and> sched_same s s')"
proof (cases "List.find (\<lambda>p. task_stack s p = 0) [1..<Suc MM_HALOW_SCHED_MAX_TASKS]")
  case None
  then show ?thesis
    using slots_full [OF ok] find_slot_None [of s]
    by (simp add: mm_halow_sched_task_create_def del: upt_Suc)
next
  case (Some p)
  then have p: "p \<in> {1..4}" "task_stack s p = 0" using find_slot_Some by blast+
  have pq: "p \<notin> set q" using ok p by (auto simp: sched_ok_def)
  have live: "heap_live s L" using ok by (simp add: sched_ok_def)
  obtain st s1 where m: "mm_halow_osal_malloc (stack_words_of n * 4) s = Some (st, s1)"
    using heap.malloc_returns [OF live] by blast
  show ?thesis
  proof (cases "st = 0")
    case True
    with m heap.malloc_null [OF live] have "s1 = s" by blast
    with True m Some show ?thesis
      by (simp add: mm_halow_sched_task_create_def stack_words_of_def Let_def del: upt_Suc)
  next
    case False
    obtain k where k: "unat (stack_words_of n * 4) \<le> k" "heap_live s1 (insert (unat st, k) L)"
        "\<forall>y \<in> L. apart (unat st, k) y"
      using heap.malloc_block [OF live m False] by blast
    note fr = malloc_sched_frame [OF m]
    let ?w = "stack_words_of n"
    let ?sp = "st + 4 * (?w - MM_HALOW_CONTEXT_WORDS)"
    let ?mem = "(fill_words ?sp MM_HALOW_CONTEXT_WORDS 0
        (fill_words st ?w MM_HALOW_STACK_FILL (words s1)))
          (?sp + 4 * (MM_HALOW_CONTEXT_WORDS - 1) := trampoline_addr s1)"
    let ?new = "\<lparr>t_sp = ?sp, t_next = 0, t_stack = st, t_stack_words = ?w, t_name = nm,
        t_entry = e, t_arg = a, t_notify = 0, t_state = MM_HALOW_TASK_READY\<rparr>"
    let ?s2 = "upd_task p (\<lambda>_. ?new) (s1\<lparr>words := ?mem\<rparr>)"
    have "mm_halow_task_list ?s2 = mm_halow_task_list s" "mm_halow_tasks ?s2 p = ?new"
      "\<And>r. r \<noteq> p \<Longrightarrow> mm_halow_tasks ?s2 r = mm_halow_tasks s r" using fr by simp_all
    from enqueue_fresh [OF ok p(1) pq this] obtain s3 where
      s3: "task_append p ?s2 = Some s3" "chain (task_next s3) 0 (mm_halow_task_list s3) (q @ [p])"
        "s3 = ?s2\<lparr>mm_halow_task_list := mm_halow_task_list s3, mm_halow_tasks := mm_halow_tasks s3\<rparr>"
      and newp: "mm_halow_tasks s3 p = ?new"
      and old: "\<And>r. r \<noteq> p \<Longrightarrow> mm_halow_tasks s3 r = (mm_halow_tasks s r)\<lparr>t_next := task_next s3 r\<rparr>"
      by auto
    let ?s4 = "mm_halow_sched_wake s3"
    have run: "mm_halow_sched_task_create e a n nm s = Some (p, ?s4)"
      using Some m False s3(1)
      by (simp add: mm_halow_sched_task_create_def stack_words_of_def Let_def del: upt_Suc)
    have "blk ?s4 = blk s1 \<and> mm_halow_heap_head ?s4 = mm_halow_heap_head s1
        \<and> mm_halow_heap_mem ?s4 = mm_halow_heap_mem s1"
      by (simp add: mm_halow_sched_wake_def, subst (1 2 3) s3(3), simp)
    then have hl: "heap_live ?s4 (insert (unat st, k) L)"
      using k(2) by (simp add: heap_live_cong [of ?s4 s1])
    have fresh: "st \<noteq> task_stack s r" if r: "r \<in> set q" for r
    proof -
      obtain j where "(unat (task_stack s r), j) \<in> L" using ok r by (auto simp: sched_ok_def)
      with heap.malloc_fresh [OF live m False, of j] show ?thesis by auto
    qed
    have t4: "mm_halow_tasks ?s4 = mm_halow_tasks s3" "mm_halow_task_list ?s4 = mm_halow_task_list s3"
        "mm_halow_sched_woken ?s4"
      by (simp_all add: mm_halow_sched_wake_def)
    have st4: "task_stack ?s4 p = st" by (simp add: t4 newp)
    have same: "task_same s ?s4 r" if "r \<noteq> p" for r
      using that by (unfold task_same_def t4, subst old, simp_all)
    have "sched_ok ?s4 (q @ [p]) (insert (unat (task_stack ?s4 p), k) L)"
      unfolding st4
      by (rule created_ok [OF ok p(1) pq False hl _ fresh st4 _ same]) (use s3(2) in \<open>simp_all add: t4 newp\<close>)
    moreover have "sched_same s ?s4"
      using fr by (simp add: mm_halow_sched_wake_def, subst (1 2 3 4 5) s3(3), simp)
    moreover have "(mm_halow_tasks ?s4 p)\<lparr>t_sp := 0, t_stack := 0\<rparr> =
        \<lparr>t_sp = 0, t_next = 0, t_stack = 0, t_stack_words = stack_words_of n, t_name = nm,
         t_entry = e, t_arg = a, t_notify = 0, t_state = MM_HALOW_TASK_READY\<rparr>"
      unfolding t4 newp by simp
    moreover have "\<forall>r. r \<noteq> p \<longrightarrow> task_same s ?s4 r" using same by blast
    moreover have "p \<in> {1..4} - set q" using p pq by blast
    moreover have "\<forall>y \<in> L. apart (unat (task_stack ?s4 p), k) y" unfolding st4 by (rule k(3))
    ultimately show ?thesis
      by (intro disjI2 exI [of _ p] exI [of _ ?s4] exI [of _ k]) (intro conjI run k(1) t4(3); simp only:)
  qed
qed

section \<open>Deletion and reaping\<close>

lemma sched_ok_upd:
  assumes "sched_ok s q L" and "\<And>t. t_next (f t) = t_next t" and "\<And>t. t_stack (f t) = t_stack t"
    and "\<And>t. t_state (f t) = t_state t \<or> t_state (f t) = MM_HALOW_TASK_DEAD"
  shows "sched_ok (upd_task p f s) q L"
proof -
  have n: "task_next (upd_task p f s) = task_next s" and k: "task_stack (upd_task p f s) = task_stack s"
    using assms(2,3) by auto
  have st: "task_ready (upd_task p f s) r \<or> task_dead (upd_task p f s) r" if "r \<in> set q" for r
    using assms(1) assms(4) [of "mm_halow_tasks s r"] that by (fastforce simp: sched_ok_def)
  have "heap_live (upd_task p f s) L = heap_live s L" by (rule heap_live_cong) simp_all
  with assms(1) st show ?thesis
    unfolding sched_ok_def n k by (auto simp: assms(3))
qed

lemma wake_simps [simp]:
  "mm_halow_tasks (mm_halow_sched_wake s) = mm_halow_tasks s"
  "mm_halow_task_list (mm_halow_sched_wake s) = mm_halow_task_list s"
  "sched_same s (mm_halow_sched_wake s)" "mm_halow_sched_woken (mm_halow_sched_wake s)"
  by (simp_all add: mm_halow_sched_wake_def)

lemma sched_ok_wake [simp]: "sched_ok (mm_halow_sched_wake s) q L = sched_ok s q L"
  by (rule sched_ok_cong) (simp_all add: mm_halow_sched_wake_def)

lemma delete_ok: "sched_ok s q L \<Longrightarrow> sched_ok (mm_halow_sched_task_delete p s) q L"
  by (simp add: mm_halow_sched_task_delete_def sched_ok_upd)

lemma delete_dead: "task_dead s r \<Longrightarrow> task_dead (mm_halow_sched_task_delete p s) r"
  by (auto simp add: mm_halow_sched_task_delete_def)

lemma delete_same: "sched_same s (mm_halow_sched_task_delete p s)"
  by (simp add: mm_halow_sched_task_delete_def)

text \<open>One step of the reaper: unlink, free the stack, clear the slot.\<close>

lemma set_next_simps [simp]:
  "mm_halow_tasks (set_next prev n s) r =
     (if r = prev \<and> prev \<noteq> 0 then (mm_halow_tasks s r)\<lparr>t_next := n\<rparr> else mm_halow_tasks s r)"
  "mm_halow_task_list (set_next prev n s) = (if prev = 0 then n else mm_halow_task_list s)"
  "mm_halow_heap_head (set_next prev n s) = mm_halow_heap_head s"
  "mm_halow_heap_mem (set_next prev n s) = mm_halow_heap_mem s"
  "blk (set_next prev n s) = blk s"
  "sched_same s (set_next prev n s)"
  "mm_halow_sched_woken (set_next prev n s) = mm_halow_sched_woken s"
  by (auto simp: set_next_def upd_task_def)

lemma reap_step:
  assumes ok: "sched_ok s (pre @ a # rest) L" and dead: "task_dead s a"
    and prev: "prev = (if pre = [] then 0 else last pre)"
  obtains s1 where
    "mm_halow_osal_free (task_stack s a) (set_next prev (task_next s a) s) = Some s1"
    "sched_ok (upd_task a (\<lambda>t. t\<lparr>t_stack := 0, t_next := 0\<rparr>) s1) (pre @ rest)
       {x \<in> L. fst x \<noteq> unat (task_stack s a)}"
    "sched_same s s1" "mm_halow_sched_woken s1 = mm_halow_sched_woken s"
    "\<And>r. mm_halow_tasks s1 r = mm_halow_tasks (set_next prev (task_next s a) s) r"
proof -
  let ?s0 = "set_next prev (task_next s a) s"
  have ok': "chain (task_next s) 0 (mm_halow_task_list s) (pre @ a # rest)" "heap_live s L"
      "set (pre @ a # rest) \<subseteq> {1..4}" "inj_on (task_stack s) (set (pre @ a # rest))"
      "\<forall>p \<in> {1..4}. task_stack s p \<noteq> 0 \<longleftrightarrow> p \<in> set (pre @ a # rest)"
      "\<forall>p \<in> set (pre @ a # rest). (task_ready s p \<or> task_dead s p) \<and> (\<exists>k. (unat (task_stack s p), k) \<in> L)"
    using ok unfolding sched_ok_def by blast+
  have dist: "distinct (pre @ a # rest)" by (rule sched_ok_distinct [OF ok])
  have p0: "prev \<noteq> 0" if "pre \<noteq> []" using that ok'(3) prev by (cases pre rule: rev_cases) auto
  obtain k where k: "(unat (task_stack s a), k) \<in> L" using ok'(6) by auto
  have "heap_live ?s0 L" using ok'(2) by (simp add: heap_live_cong [of ?s0 s])
  from heap.free_live [OF this k] obtain s1 where
    s1: "mm_halow_osal_free (task_stack s a) ?s0 = Some s1" "heap_live s1 (L - {(unat (task_stack s a), k)})"
    by blast
  note fr = free_sched_frame [OF s1(1)]
  let ?s2 = "upd_task a (\<lambda>t. t\<lparr>t_stack := 0, t_next := 0\<rparr>) s1"
  have L': "L - {(unat (task_stack s a), k)} = {x \<in> L. fst x \<noteq> unat (task_stack s a)}"
    by (auto dest: heap.rep_unique_size [OF ok'(2) _ k])
  have ch: "chain (task_next ?s0) 0 (mm_halow_task_list ?s0) (pre @ rest)"
  proof -
    have "task_next ?s0 = (if pre = [] then task_next s else (task_next s)(last pre := task_next s a))"
      using prev p0 by auto
    then show ?thesis using chain_unlink [OF ok'(1)] prev p0 by auto
  qed
  have l2: "mm_halow_task_list ?s2 = mm_halow_task_list ?s0" using fr by simp
  have ch2: "chain (task_next ?s2) 0 (mm_halow_task_list ?s2) (pre @ rest)"
    unfolding l2 using ch by (rule iffD2 [OF chain_cong, rotated]) (use dist fr in auto)
  have stk: "task_stack ?s2 r = (if r = a then 0 else task_stack s r)"
    "t_state (mm_halow_tasks ?s2 r) = t_state (mm_halow_tasks s r)" for r
    using fr by auto
  have "\<exists>j. (unat (task_stack s r), j) \<in> L - {(unat (task_stack s a), k)}" if r: "r \<in> set (pre @ rest)" for r
  proof -
    obtain j where "(unat (task_stack s r), j) \<in> L" using ok'(6) r by auto
    moreover have "task_stack s r \<noteq> task_stack s a"
      using ok'(4) r dist by (auto simp: inj_on_def)
    ultimately show ?thesis by (auto simp: word_unat_eq_iff)
  qed
  moreover have "heap_live ?s2 (L - {(unat (task_stack s a), k)})"
    using s1(2) by (simp add: heap_live_cong [of ?s2 s1])
  moreover have same: "task_stack ?s2 r = task_stack s r" if "r \<in> set (pre @ rest)" for r
    unfolding stk using that dist by auto
  moreover have "inj_on (task_stack ?s2) (set (pre @ rest))"
    by (subst inj_on_cong [OF same]) (use inj_on_subset [OF ok'(4)] in auto)
  moreover have "\<forall>r \<in> {1..4}. task_stack ?s2 r \<noteq> 0 \<longleftrightarrow> r \<in> set (pre @ rest)"
    unfolding stk using ok'(5) dist by auto
  moreover have "\<forall>r \<in> set (pre @ rest). task_ready ?s2 r \<or> task_dead ?s2 r"
    using ok'(6) unfolding stk by auto
  ultimately have "sched_ok ?s2 (pre @ rest) (L - {(unat (task_stack s a), k)})"
    using ch2 ok'(3) unfolding sched_ok_def by (intro conjI ballI) (assumption | simp)+
  then have "sched_ok ?s2 (pre @ rest) {x \<in> L. fst x \<noteq> unat (task_stack s a)}" unfolding L' .
  moreover have "sched_same s s1" "mm_halow_sched_woken s1 = mm_halow_sched_woken s" using fr by simp_all
  moreover have "mm_halow_tasks s1 r = mm_halow_tasks ?s0 r" for r using fr by simp
  ultimately show ?thesis by (rule that [OF s1(1)])
qed

text \<open>What the reaper leaves: the tasks before the walk and the living ones of the rest.\<close>

definition reaped ::
    "'a sched_st_scheme \<Rightarrow> nat list \<Rightarrow> nat list \<Rightarrow> (nat \<times> nat) set \<Rightarrow> 'a sched_st_scheme \<Rightarrow> bool" where
  "reaped s pre rest L s' \<longleftrightarrow> sched_ok s' (pre @ filter (\<lambda>p. \<not> task_dead s p) rest)
        {x \<in> L. \<forall>p \<in> set rest. task_dead s p \<longrightarrow> fst x \<noteq> unat (task_stack s p)}
    \<and> sched_same s s' \<and> mm_halow_sched_woken s' = mm_halow_sched_woken s
    \<and> (\<forall>r. r \<notin> set rest \<or> \<not> task_dead s r \<longrightarrow> task_same s s' r)"

lemma reaped_dead:
  assumes dead: "task_dead s a" and out: "a \<notin> set rest"
    and same: "\<And>r. r \<noteq> a \<Longrightarrow> task_same s s2 r"
    and fr: "sched_same s s2" "mm_halow_sched_woken s2 = mm_halow_sched_woken s"
    and r: "reaped s2 pre rest {x \<in> L. fst x \<noteq> unat (task_stack s a)} s'"
  shows "reaped s pre (a # rest) L s'"
proof -
  note sameD = task_sameD(1,2) [OF same]
  have eq: "task_dead s2 p = task_dead s p" "task_stack s2 p = task_stack s p" if "p \<in> set rest" for p
  proof -
    have "p \<noteq> a" using that out by auto
    from sameD [OF this] show "task_dead s2 p = task_dead s p" "task_stack s2 p = task_stack s p" by simp_all
  qed
  have "filter (\<lambda>p. \<not> task_dead s2 p) rest = filter (\<lambda>p. \<not> task_dead s p) (a # rest)"
    using dead eq(1) by (auto intro: filter_cong)
  moreover have "{x \<in> {x \<in> L. fst x \<noteq> unat (task_stack s a)}. \<forall>p \<in> set rest. task_dead s2 p \<longrightarrow> fst x \<noteq> unat (task_stack s2 p)}
      = {x \<in> L. \<forall>p \<in> set (a # rest). task_dead s p \<longrightarrow> fst x \<noteq> unat (task_stack s p)}"
    using dead eq by auto
  ultimately have "sched_ok s' (pre @ filter (\<lambda>p. \<not> task_dead s p) (a # rest))
      {x \<in> L. \<forall>p \<in> set (a # rest). task_dead s p \<longrightarrow> fst x \<noteq> unat (task_stack s p)}"
    using r by (simp add: reaped_def)
  moreover have "task_same s s' r" if t: "r \<notin> set (a # rest) \<or> \<not> task_dead s r" for r
  proof -
    have "r \<noteq> a" using t dead by auto
    moreover have "task_same s2 s' r" using r t sameD(1) [OF \<open>r \<noteq> a\<close>] by (auto simp: reaped_def)
    ultimately show ?thesis using same task_same_trans by blast
  qed
  ultimately show ?thesis using r fr by (simp add: reaped_def)
qed

lemma reap_from_ok:
  assumes "sched_ok s (pre @ rest) L" and "chain (task_next s) 0 task rest"
    and "prev = (if pre = [] then 0 else last pre)"
  shows "\<exists>s'. reap_from prev task s = Some s' \<and> reaped s pre rest L s'"
  using assms
proof (induction rest arbitrary: pre s L task prev)
  case Nil
  then show ?case by (subst reap_from.simps) (auto simp: reaped_def)
next
  case (Cons a rest)
  have task: "task = a" "a \<noteq> 0" and ch: "chain (task_next s) 0 (task_next s a) rest"
    using Cons.prems(2) by auto
  have dist: "distinct (pre @ a # rest)" by (rule sched_ok_distinct [OF Cons.prems(1)])
  show ?case
  proof (cases "task_dead s a")
    case False
    have "sched_ok s ((pre @ [a]) @ rest) L" using Cons.prems(1) by simp
    from Cons.IH [OF this ch, of a] obtain s' where
      s': "reap_from a (task_next s a) s = Some s'" "reaped s (pre @ [a]) rest L s'" by auto
    have "reap_from prev task s = Some s'"
      using s'(1) task False by (subst reap_from.simps) simp
    with s'(2) False show ?thesis by (auto simp: reaped_def)
  next
    case True
    obtain s1 where
      s1: "mm_halow_osal_free (task_stack s a) (set_next prev (task_next s a) s) = Some s1"
        "sched_ok (upd_task a (\<lambda>t. t\<lparr>t_stack := 0, t_next := 0\<rparr>) s1) (pre @ rest)
           {x \<in> L. fst x \<noteq> unat (task_stack s a)}"
        "sched_same s s1" "mm_halow_sched_woken s1 = mm_halow_sched_woken s"
        "\<And>r. mm_halow_tasks s1 r = mm_halow_tasks (set_next prev (task_next s a) s) r"
      by (rule reap_step [OF Cons.prems(1) True Cons.prems(3)]) (rule that, assumption+)
    let ?s2 = "upd_task a (\<lambda>t. t\<lparr>t_stack := 0, t_next := 0\<rparr>) s1"
    have "prev = 0 \<or> prev \<in> set pre" using Cons.prems(3) by simp
    then have prev: "prev \<noteq> a" "prev \<notin> set rest"
      using dist task(2) sched_ok_nonnull [OF Cons.prems(1)] by (cases, auto)
    have same: "task_same s ?s2 r" if "r \<noteq> a" for r
      using that s1(5) [of r] by (simp add: task_same_def)
    have "chain (task_next ?s2) 0 (task_next s a) rest"
      by (rule iffD2 [OF chain_cong ch]) (use dist prev s1(5) in auto)
    from Cons.IH [OF s1(2) this Cons.prems(3)] obtain s' where
      s': "reap_from prev (task_next s a) ?s2 = Some s'"
        "reaped ?s2 pre rest {x \<in> L. fst x \<noteq> unat (task_stack s a)} s'" by blast
    have "task_stack (set_next prev (task_next s a) s) a = task_stack s a" using prev by simp
    then have "reap_from prev task s = Some s'"
      using s'(1) s1(1) task True by (subst reap_from.simps) simp
    moreover have "reaped s pre (a # rest) L s'"
      by (rule reaped_dead [OF True _ same _ _ s'(2)]) (use dist s1(3,4) in auto)
    ultimately show ?thesis by blast
  qed
qed

lemma reap_ok:
  assumes "sched_ok s q L"
  shows "\<exists>s'. mm_halow_sched_reap s = Some s'
    \<and> sched_ok s' (filter (\<lambda>p. \<not> task_dead s p) q)
        {x \<in> L. \<forall>p \<in> set q. task_dead s p \<longrightarrow> fst x \<noteq> unat (task_stack s p)}
    \<and> sched_same s s' \<and> mm_halow_sched_woken s' = mm_halow_sched_woken s
    \<and> (\<forall>r. r \<notin> set q \<or> \<not> task_dead s r \<longrightarrow> task_same s s' r)"
  using reap_from_ok [of s "[]" q L "mm_halow_task_list s" 0] assms
  by (simp add: mm_halow_sched_reap_def reaped_def) (simp add: sched_ok_def)

section \<open>A main function that returns\<close>

lemma trampoline_retires:
  assumes "mm_halow_task_cur s = p" and "p \<noteq> 0"
    and "call (t_entry (mm_halow_tasks s p)) (t_arg (mm_halow_tasks s p)) s = Some s1" and "mm_halow_task_cur s1 = p"
  shows "\<exists>s'. mm_halow_task_trampoline call s = Some s' \<and> task_dead s' p \<and> mm_halow_sched_woken s'"
  using assms by (simp add: mm_halow_task_trampoline_def mm_halow_sched_task_delete_def mm_halow_sched_wake_def)

end
