(* ===== verification/Halow_Sched_Run.thy ===== *)
theory Halow_Sched_Run
  imports Halow_Sched_Inv "HOL-Library.Sublist"
begin

text \<open>
  The scheduler pass. What a task does with its turn is not the scheduler's business, so
  the contract a turn has to keep is a locale, \<open>coop_turn\<close>: control comes back, the task
  list is extended only at its end, nobody is brought back from the dead, and the
  scheduler's own variables are left alone. Inside it, one call to mm_halow_sched_run()
  is shown to return, to serve the tasks in creation order and to reap the dead. The
  interpretation is on tasks that run arbitrary finite programs of the driver's own
  operations.
\<close>

section \<open>Turns in the trace\<close>

definition turns :: "event list \<Rightarrow> nat list" where
  "turns tr = List.map_filter (\<lambda>e. case e of Ev_turn p \<Rightarrow> Some p | _ \<Rightarrow> None) tr"

lemma turns_Nil [simp]: "turns [] = []"
  by (simp add: turns_def)

lemma turns_append [simp]: "turns (xs @ ys) = turns xs @ turns ys"
  by (simp add: turns_def map_filter_def)

lemma turns_turn [simp]: "turns [Ev_turn p] = [p]"
  by (simp add: turns_def map_filter_def)

lemma emit_simps [simp]:
  "trace (emit e s) = trace s @ [e]" "time_ms (emit e s) = time_ms s"
  by (simp_all add: emit_def)

lemma sched_emit_simps [simp]:
  "mm_halow_tasks (emit e s) = mm_halow_tasks s" "mm_halow_task_list (emit e s) = mm_halow_task_list s"
  "mm_halow_task_cur (emit e s) = mm_halow_task_cur s"
  "mm_halow_sched_running (emit e s) = mm_halow_sched_running s"
  "mm_halow_sched_deadline (emit e s) = mm_halow_sched_deadline s"
  "mm_halow_heap_head (emit e s) = mm_halow_heap_head s"
  "mm_halow_heap_mem (emit e s) = mm_halow_heap_mem s" "blk (emit e s) = blk s"
  by (simp_all add: emit_def)

lemma sched_ok_fields [simp]:
  "sched_ok (emit e s) q L = sched_ok s q L"
  "sched_ok (s\<lparr>mm_halow_task_cur := c\<rparr>) q L = sched_ok s q L"
  "sched_ok (s\<lparr>mm_halow_sched_woken := b\<rparr>) q L = sched_ok s q L"
  "sched_ok (s\<lparr>mm_halow_sched_wake_at := w\<rparr>) q L = sched_ok s q L"
  "sched_ok (s\<lparr>mm_halow_sched_running := b\<rparr>) q L = sched_ok s q L"
  "sched_ok (s\<lparr>mm_halow_sched_deadline := w\<rparr>) q L = sched_ok s q L"
  "sched_ok (s\<lparr>mm_halow_sched_running := b, mm_halow_sched_deadline := w\<rparr>) q L = sched_ok s q L"
  "sched_ok (s\<lparr>mm_halow_sched_woken := b, mm_halow_sched_wake_at := w\<rparr>) q L = sched_ok s q L"
  "sched_ok (s\<lparr>time_ms := t\<rparr>) q L = sched_ok s q L"
  by (rule sched_ok_cong; simp)+

section \<open>The contract of a turn\<close>

locale coop_turn =
  fixes env :: "'a sched_st_scheme sched_env"
  assumes turn_ok: "sched_ok s q L \<Longrightarrow> p \<in> set q \<Longrightarrow> task_ready s p \<Longrightarrow> mm_halow_task_cur s = p \<Longrightarrow>
      mm_halow_sched_running s \<Longrightarrow>
      \<exists>s' q' L'. turn env p s = Some s' \<and> sched_ok s' (q @ q') L' \<and> mm_halow_sched_running s'
        \<and> mm_halow_sched_deadline s' = mm_halow_sched_deadline s
        \<and> (\<forall>r \<in> set q. task_dead s r \<longrightarrow> task_dead s' r)
        \<and> turns (trace s') = turns (trace s) \<and> time_ms s \<le> time_ms s'"
begin

lemma run_tasks_ok:
  assumes "sched_ok s (pre @ rest) L" and "chain (task_next s) 0 task rest"
    and "mm_halow_sched_running s" and "mm_halow_task_cur s = 0"
  shows "\<exists>s' new L' ts. run_tasks env task s = Some s' \<and> sched_ok s' (pre @ rest @ new) L'
    \<and> mm_halow_sched_running s' \<and> mm_halow_sched_deadline s' = mm_halow_sched_deadline s
    \<and> mm_halow_task_cur s' = 0 \<and> (\<forall>r \<in> set (pre @ rest). task_dead s r \<longrightarrow> task_dead s' r)
    \<and> turns (trace s') = turns (trace s) @ ts \<and> subseq ts (rest @ new)
    \<and> (\<forall>p \<in> set (rest @ new). task_ready s' p \<longrightarrow> p \<in> set ts) \<and> time_ms s \<le> time_ms s'"
  using assms
proof (induction "4 - length pre" arbitrary: pre rest s L task rule: less_induct)
  case less
  show ?case
  proof (cases rest)
    case Nil
    with less.prems show ?thesis
      by (intro exI [of _ s] exI [of _ "[]"] exI [of _ L] conjI)
        (subst run_tasks.simps, auto)
  next
    case (Cons p rest')
    with less.prems have task: "task = p" "p \<noteq> 0" by auto
    have len: "4 - length (pre @ [p]) < 4 - length pre"
      using sched_ok_length [OF less.prems(1)] Cons by simp
    show ?thesis
    proof (cases "task_ready s p")
      case False
      have "sched_ok s ((pre @ [p]) @ rest') L" and "chain (task_next s) 0 (task_next s p) rest'"
        using less.prems Cons by simp_all
      from less.hyps [OF len this less.prems(3,4)] obtain s' new L' ts where
        IH: "run_tasks env (task_next s p) s = Some s'" "sched_ok s' ((pre @ [p]) @ rest' @ new) L'"
          "mm_halow_sched_running s'" "mm_halow_sched_deadline s' = mm_halow_sched_deadline s"
          "mm_halow_task_cur s' = 0" "\<forall>r \<in> set ((pre @ [p]) @ rest'). task_dead s r \<longrightarrow> task_dead s' r"
          "turns (trace s') = turns (trace s) @ ts" "subseq ts (rest' @ new)"
          "\<forall>p \<in> set (rest' @ new). task_ready s' p \<longrightarrow> p \<in> set ts" "time_ms s \<le> time_ms s'"
        by blast
      have "task_dead s p" using less.prems(1) Cons False by (auto simp: sched_ok_def)
      then have "\<not> task_ready s' p" using IH(6) by auto
      moreover have "run_tasks env task s = Some s'"
        using IH(1) task False by (subst run_tasks.simps) simp
      ultimately show ?thesis
        using IH Cons by (intro exI [of _ s'] exI [of _ new] exI [of _ L'] exI [of _ ts]) auto
    next
      case True
      let ?s0 = "emit (Ev_turn p) (s\<lparr>mm_halow_task_cur := p\<rparr>)"
      have "sched_ok ?s0 (pre @ rest) L" "p \<in> set (pre @ rest)" "task_ready ?s0 p"
        "mm_halow_task_cur ?s0 = p" "mm_halow_sched_running ?s0"
        using less.prems True Cons by simp_all
      from turn_ok [OF this] obtain s1 q' L1 where
        s1: "turn env p ?s0 = Some s1" "sched_ok s1 ((pre @ rest) @ q') L1" "mm_halow_sched_running s1"
          "mm_halow_sched_deadline s1 = mm_halow_sched_deadline ?s0"
          "\<forall>r \<in> set (pre @ rest). task_dead ?s0 r \<longrightarrow> task_dead s1 r"
          "turns (trace s1) = turns (trace ?s0)" "time_ms ?s0 \<le> time_ms s1" by blast
      let ?s2 = "s1\<lparr>mm_halow_task_cur := 0\<rparr>"
      have ok2: "sched_ok ?s2 ((pre @ [p]) @ (rest' @ q')) L1" using s1(2) Cons by simp
      have "chain (task_next ?s2) 0 (mm_halow_task_list ?s2) (pre @ p # rest' @ q')"
        using ok2 by (simp add: sched_ok_def)
      from chain_suffix [OF this] have ch2: "chain (task_next ?s2) 0 (task_next ?s2 p) (rest' @ q')"
        by auto
      have "mm_halow_sched_running ?s2" "mm_halow_task_cur ?s2 = 0" using s1(3) by simp_all
      from less.hyps [OF len ok2 ch2 this] obtain s' new L' ts where
        IH: "run_tasks env (task_next ?s2 p) ?s2 = Some s'" "sched_ok s' ((pre @ [p]) @ (rest' @ q') @ new) L'"
          "mm_halow_sched_running s'" "mm_halow_sched_deadline s' = mm_halow_sched_deadline ?s2"
          "mm_halow_task_cur s' = 0" "\<forall>r \<in> set ((pre @ [p]) @ rest' @ q'). task_dead ?s2 r \<longrightarrow> task_dead s' r"
          "turns (trace s') = turns (trace ?s2) @ ts" "subseq ts ((rest' @ q') @ new)"
          "\<forall>p \<in> set ((rest' @ q') @ new). task_ready s' p \<longrightarrow> p \<in> set ts" "time_ms ?s2 \<le> time_ms s'"
        by blast
      have "run_tasks env task s = Some s'"
        using IH(1) s1(1) task True by (subst run_tasks.simps) simp
      moreover have "turns (trace s') = turns (trace s) @ (p # ts)" using IH(7) s1(6) by simp
      moreover have "subseq (p # ts) (rest @ (q' @ new))" using IH(8) Cons by simp
      ultimately show ?thesis
        using IH s1(4,5,7) Cons
        by (intro exI [of _ s'] exI [of _ "q' @ new"] exI [of _ L'] exI [of _ "p # ts"]) auto
    qed
  qed
qed

text \<open>
  The passes: \<open>tss\<close> is what each of them served, in order.
\<close>

lemma run_passes_ok:
  assumes "sched_ok s q L" and "mm_halow_sched_running s" and "mm_halow_task_cur s = 0"
  shows "\<exists>s' new L' tss. run_passes env n s = Some s' \<and> sched_ok s' (q @ new) L'
    \<and> mm_halow_sched_running s' \<and> mm_halow_sched_deadline s' = mm_halow_sched_deadline s
    \<and> mm_halow_task_cur s' = 0 \<and> (\<forall>r \<in> set q. task_dead s r \<longrightarrow> task_dead s' r)
    \<and> turns (trace s') = turns (trace s) @ concat tss \<and> length tss \<le> n
    \<and> (\<forall>ts \<in> set tss. subseq ts (q @ new) \<and> (\<forall>p \<in> set q. task_ready s' p \<longrightarrow> p \<in> set ts))
    \<and> (0 < n \<and> \<not> mm_halow_pass_expired s \<longrightarrow> tss \<noteq> [])
    \<and> (length tss = n \<or> mm_halow_pass_expired s' \<or> \<not> mm_halow_sched_woken s')
    \<and> time_ms s \<le> time_ms s'"
  using assms
proof (induction n arbitrary: s q L)
  case 0
  then show ?case
    by (intro exI [of _ s] exI [of _ "[]"] exI [of _ L]) auto
next
  case (Suc n)
  show ?case
  proof (cases "mm_halow_pass_expired s")
    case True
    with Suc.prems show ?thesis
      by (intro exI [of _ s] exI [of _ "[]"] exI [of _ L]) auto
  next
    case False
    let ?s1 = "mm_halow_sched_wake_at_reset (s\<lparr>mm_halow_sched_woken := False\<rparr>)"
    have ok1: "sched_ok ?s1 ([] @ q) L"
      using Suc.prems(1) by (simp add: mm_halow_sched_wake_at_reset_def)
    have fr: "mm_halow_tasks ?s1 = mm_halow_tasks s" "mm_halow_sched_running ?s1 = mm_halow_sched_running s"
      "mm_halow_sched_deadline ?s1 = mm_halow_sched_deadline s" "mm_halow_task_cur ?s1 = 0"
      "trace ?s1 = trace s" "time_ms ?s1 = time_ms s"
      using Suc.prems by (simp_all add: mm_halow_sched_wake_at_reset_def)
    have "chain (task_next ?s1) 0 (mm_halow_task_list ?s1) q" using ok1 by (simp add: sched_ok_def)
    from run_tasks_ok [OF ok1 this] fr(2,4) Suc.prems(2) obtain s2 new L2 ts where
      s2: "run_tasks env (mm_halow_task_list ?s1) ?s1 = Some s2" "sched_ok s2 (q @ new) L2"
        "mm_halow_sched_running s2" "mm_halow_sched_deadline s2 = mm_halow_sched_deadline ?s1"
        "mm_halow_task_cur s2 = 0" "\<forall>r \<in> set q. task_dead ?s1 r \<longrightarrow> task_dead s2 r"
        "turns (trace s2) = turns (trace ?s1) @ ts" "subseq ts (q @ new)"
        "\<forall>p \<in> set (q @ new). task_ready s2 p \<longrightarrow> p \<in> set ts" "time_ms ?s1 \<le> time_ms s2"
      by auto
    show ?thesis
    proof (cases "mm_halow_sched_woken s2")
      case False
      with s2 fr \<open>\<not> mm_halow_pass_expired s\<close> show ?thesis
        by (intro exI [of _ s2] exI [of _ new] exI [of _ L2] exI [of _ "[ts]"]) (auto simp: Let_def)
    next
      case True
      from Suc.IH [OF s2(2,3,5)] obtain s' new' L' tss where
        IH: "run_passes env n s2 = Some s'" "sched_ok s' ((q @ new) @ new') L'"
          "mm_halow_sched_running s'" "mm_halow_sched_deadline s' = mm_halow_sched_deadline s2"
          "mm_halow_task_cur s' = 0" "\<forall>r \<in> set (q @ new). task_dead s2 r \<longrightarrow> task_dead s' r"
          "turns (trace s') = turns (trace s2) @ concat tss" "length tss \<le> n"
          "\<forall>ts \<in> set tss. subseq ts ((q @ new) @ new') \<and> (\<forall>p \<in> set (q @ new). task_ready s' p \<longrightarrow> p \<in> set ts)"
          "length tss = n \<or> mm_halow_pass_expired s' \<or> \<not> mm_halow_sched_woken s'"
          "time_ms s2 \<le> time_ms s'" by blast
      have r: "task_ready s2 p" if "p \<in> set q" "task_ready s' p" for p
      proof (rule ccontr)
        assume "\<not> task_ready s2 p"
        then have "task_dead s2 p" using s2(2) that(1) by (auto simp: sched_ok_def)
        with IH(6) that show False by auto
      qed
      have "run_passes env (Suc n) s = Some s'"
        using IH(1) s2(1) True \<open>\<not> mm_halow_pass_expired s\<close> by (simp add: Let_def)
      moreover have "turns (trace s') = turns (trace s) @ concat (ts # tss)"
        using IH(7) s2(7) fr by simp
      moreover have "\<forall>us \<in> set (ts # tss). subseq us (q @ (new @ new'))
          \<and> (\<forall>p \<in> set q. task_ready s' p \<longrightarrow> p \<in> set us)"
        using IH(9) s2(8,9) r list_emb_prefix [of "(=)" ts "q @ new" new'] by auto
      moreover have "\<forall>r \<in> set q. task_dead s r \<longrightarrow> task_dead s' r" using s2(6) IH(6) fr by auto
      ultimately show ?thesis
        using IH(2-5,8,10,11) s2(4,10) fr
        by (intro exI [of _ s'] exI [of _ "new @ new'"] exI [of _ L'] exI [of _ "ts # tss"]) auto
    qed
  qed
qed

text \<open>One call, from outside the scheduler.\<close>

lemma run_ok:
  assumes ok: "sched_ok s q L" and idle: "\<not> mm_halow_sched_running s" "mm_halow_task_cur s = 0"
  shows "\<exists>s' q' all L' tss mid. mm_halow_sched_run env s = Some s' \<and> sched_ok s' q' L'
    \<and> \<not> mm_halow_sched_running s' \<and> mm_halow_task_cur s' = 0
    \<and> prefix q all \<and> length all \<le> 4 \<and> distinct all
    \<and> run_passes env MM_HALOW_SCHED_PASSES (s\<lparr>mm_halow_sched_running := True,
         mm_halow_sched_deadline := mm_halow_ticks_ms s + MM_HALOW_SCHED_BUDGET_MS\<rparr>) = Some mid
    \<and> q' = filter (\<lambda>p. \<not> task_dead mid p) all \<and> (\<forall>p \<in> set all - set q'. task_stack s' p = 0)
    \<and> (\<forall>p \<in> set q. task_dead s p \<longrightarrow> p \<notin> set q') \<and> (\<forall>p \<in> set q'. task_ready s' p)
    \<and> turns (trace s') = turns (trace s) @ concat tss \<and> tss \<noteq> [] \<and> length tss \<le> 4
    \<and> (\<forall>ts \<in> set tss. subseq ts all \<and> (\<forall>p \<in> set q \<inter> set q'. p \<in> set ts))
    \<and> (length tss = 4 \<or> \<not> mm_halow_sched_woken s'
         \<or> tick_reached (mm_halow_ticks_ms s') (mm_halow_ticks_ms s + MM_HALOW_SCHED_BUDGET_MS))
    \<and> time_ms s \<le> time_ms s'"
proof -
  let ?s1 = "s\<lparr>mm_halow_sched_running := True,
               mm_halow_sched_deadline := mm_halow_ticks_ms s + MM_HALOW_SCHED_BUDGET_MS\<rparr>"
  have "sched_ok ?s1 q L" "mm_halow_sched_running ?s1" "mm_halow_task_cur ?s1 = 0"
    using ok idle by simp_all
  from run_passes_ok [OF this, of MM_HALOW_SCHED_PASSES] obtain s2 new L2 tss where
    s2: "run_passes env MM_HALOW_SCHED_PASSES ?s1 = Some s2" "sched_ok s2 (q @ new) L2"
      "mm_halow_sched_running s2" "mm_halow_sched_deadline s2 = mm_halow_sched_deadline ?s1"
      "mm_halow_task_cur s2 = 0" "\<forall>r \<in> set q. task_dead ?s1 r \<longrightarrow> task_dead s2 r"
      "turns (trace s2) = turns (trace ?s1) @ concat tss" "length tss \<le> MM_HALOW_SCHED_PASSES"
      "\<forall>ts \<in> set tss. subseq ts (q @ new) \<and> (\<forall>p \<in> set q. task_ready s2 p \<longrightarrow> p \<in> set ts)"
      "\<not> mm_halow_pass_expired ?s1 \<longrightarrow> tss \<noteq> []"
      "length tss = MM_HALOW_SCHED_PASSES \<or> mm_halow_pass_expired s2 \<or> \<not> mm_halow_sched_woken s2"
      "time_ms ?s1 \<le> time_ms s2" by auto
  have fresh: "\<not> mm_halow_pass_expired ?s1"
    by (simp add: mm_halow_pass_expired_def mm_halow_ticks_ms_def tick_reached_iff unat_neg_u32)
  from reap_ok [OF s2(2)] obtain s3 L3 where
    s3: "mm_halow_sched_reap s2 = Some s3" "sched_ok s3 (filter (\<lambda>p. \<not> task_dead s2 p) (q @ new)) L3"
      "sched_same s2 s3" "mm_halow_sched_woken s3 = mm_halow_sched_woken s2"
      "\<forall>r. r \<notin> set (q @ new) \<or> \<not> task_dead s2 r \<longrightarrow> task_same s2 s3 r" by blast
  let ?s' = "s3\<lparr>mm_halow_sched_running := False\<rparr>"
  have run: "mm_halow_sched_run env s = Some ?s'"
    using idle s2(1) s3(1) by (simp add: mm_halow_sched_run_def Let_def)
  have st: "task_ready s2 r \<longleftrightarrow> \<not> task_dead s2 r" if "r \<in> set (q @ new)" for r
    using s2(2) that by (auto simp: sched_ok_def)
  let ?q' = "filter (\<lambda>p. \<not> task_dead s2 p) (q @ new)"
  have ok': "sched_ok ?s' ?q' L3" using s3(2) by simp
  have same: "task_same s2 ?s' r" if "\<not> task_dead s2 r" for r
    using s3(5) that by (simp add: task_same_def)
  have ready: "\<forall>p \<in> set ?q'. task_ready ?s' p"
  proof
    fix p assume p: "p \<in> set ?q'"
    then have "task_ready s2 p" using st by auto
    moreover have "\<not> task_dead s2 p" using p by auto
    ultimately show "task_ready ?s' p" using task_sameD(1) [OF same] by metis
  qed
  have "set (q @ new) \<subseteq> {1..4}" using s2(2) by (simp add: sched_ok_def)
  then have gone: "\<forall>p \<in> set (q @ new) - set ?q'. task_stack ?s' p = 0"
    using ok' unfolding sched_ok_def by blast
  have served: "\<forall>ts \<in> set tss. subseq ts (q @ new) \<and> (\<forall>p \<in> set q \<inter> set ?q'. p \<in> set ts)"
    using s2(9) st by auto
  have stop: "length tss = 4 \<or> \<not> mm_halow_sched_woken ?s'
      \<or> tick_reached (mm_halow_ticks_ms ?s') (mm_halow_ticks_ms s + MM_HALOW_SCHED_BUDGET_MS)"
    using s2(4,11) s3(3,4) by (auto simp: mm_halow_pass_expired_def mm_halow_ticks_ms_def)
  have "turns (trace ?s') = turns (trace s) @ concat tss" "mm_halow_task_cur ?s' = 0"
    "time_ms s \<le> time_ms ?s'" "\<forall>p \<in> set q. task_dead s p \<longrightarrow> p \<notin> set ?q'"
    using s2(5,6,7,12) s3(3) by simp_all
  moreover have "tss \<noteq> []" "prefix q (q @ new)" using s2(10) fresh by auto
  moreover have "\<not> mm_halow_sched_running ?s'" by simp
  ultimately show ?thesis
    using run ok' s2(1,8) sched_ok_length [OF s2(2)] sched_ok_distinct [OF s2(2)] ready gone served stop
    by (intro exI [of _ ?s'] exI [of _ ?q'] exI [of _ "q @ new"] exI [of _ L3] exI [of _ tss] exI [of _ s2] conjI)
      (assumption | rule refl)+
qed

end

section \<open>Tasks that run programs of the driver's own operations\<close>

text \<open>
  What a task may do in one turn: let time pass, allocate, create and delete tasks, wake
  the scheduler; then give up the processor by yielding, parking or exiting. Which
  operations it performs may depend on the whole state.
\<close>

datatype act =
    Work nat
  | Wake
  | Malloc u32
  | Create ptr u32 u32 string
  | Delete nat

datatype finish = Yields | Parks bool u32 | Exits

definition do_act :: "act \<Rightarrow> 'a sched_st_scheme \<Rightarrow> 'a sched_st_scheme option" where
  "do_act a s = (case a of
      Work ms \<Rightarrow> Some (s\<lparr>time_ms := time_ms s + ms\<rparr>)
    | Wake \<Rightarrow> Some (mm_halow_sched_wake s)
    | Malloc n \<Rightarrow> map_option snd (mm_halow_osal_malloc n s)
    | Create e x n nm \<Rightarrow> map_option snd (mm_halow_sched_task_create e x n nm s)
    | Delete p \<Rightarrow> Some (if p \<noteq> 0 then mm_halow_sched_task_delete p s else s))"

fun do_acts :: "act list \<Rightarrow> 'a sched_st_scheme \<Rightarrow> 'a sched_st_scheme option" where
  "do_acts [] s = Some s"
| "do_acts (a # as) s = Option.bind (do_act a s) (do_acts as)"

definition script_finish :: "finish \<Rightarrow> 'a sched_st_scheme \<Rightarrow> 'a sched_st_scheme option" where
  "script_finish f s =
     (let back = \<lparr>turn = (\<lambda>_. Some), switch = Some, hook = (\<lambda>s. s), irq = (\<lambda>s. s)\<rparr> in
      case f of
        Yields \<Rightarrow> mm_halow_sched_yield back s
      | Parks timed w \<Rightarrow> mm_halow_sched_park back timed w s
      | Exits \<Rightarrow> Some (mm_halow_sched_task_delete 0 s))"

definition script_env ::
    "(nat \<Rightarrow> 'a sched_st_scheme \<Rightarrow> act list \<times> finish) \<Rightarrow> 'a sched_st_scheme sched_env" where
  "script_env prog =
     \<lparr>turn = (\<lambda>p s. Option.bind (do_acts (fst (prog p s)) s) (script_finish (snd (prog p s)))),
      switch = Some, hook = (\<lambda>s. s\<lparr>time_ms := time_ms s + 1\<rparr>), irq = (\<lambda>s. s)\<rparr>"

text \<open>What one operation of a task keeps.\<close>

definition turn_keeps :: "nat list \<Rightarrow> 'a sched_st_scheme \<Rightarrow> 'a sched_st_scheme \<Rightarrow> bool" where
  "turn_keeps q s s' \<longleftrightarrow> (\<exists>q' L'. sched_ok s' (q @ q') L') \<and> mm_halow_task_cur s' = mm_halow_task_cur s
     \<and> mm_halow_sched_running s' = mm_halow_sched_running s
     \<and> mm_halow_sched_deadline s' = mm_halow_sched_deadline s
     \<and> (\<forall>r \<in> set q. task_dead s r \<longrightarrow> task_dead s' r)
     \<and> turns (trace s') = turns (trace s) \<and> time_ms s \<le> time_ms s'"

lemma turn_keeps_same:
  assumes "sched_ok s' q L" and "sched_same s s'"
    and "\<And>r. r \<in> set q \<Longrightarrow> task_dead s r \<Longrightarrow> task_dead s' r"
  shows "turn_keeps q s s'"
proof -
  have "sched_ok s' (q @ []) L" using assms(1) by simp
  then have "\<exists>q' L'. sched_ok s' (q @ q') L'" by blast
  with assms(2,3) show ?thesis by (simp add: turn_keeps_def)
qed

lemma sched_ok_malloc:
  assumes ok: "sched_ok s q L"
  shows "\<exists>p s' L'. mm_halow_osal_malloc n s = Some (p, s') \<and> sched_ok s' q L'"
proof -
  have live: "heap_live s L" using ok by (simp add: sched_ok_def)
  then obtain p s' where m: "mm_halow_osal_malloc n s = Some (p, s')"
    using heap.malloc_returns by blast
  show ?thesis
  proof (cases "p = 0")
    case True
    with m heap.malloc_null [OF live] ok show ?thesis by blast
  next
    case False
    then obtain k where "heap_live s' (insert (unat p, k) L)"
      using heap.malloc_block [OF live m] by blast
    with ok malloc_sched_frame [OF m] have "sched_ok s' q (insert (unat p, k) L)"
      by (auto simp: sched_ok_def)
    with m show ?thesis by blast
  qed
qed

lemma do_act_keeps:
  assumes ok: "sched_ok s q L"
  shows "\<exists>s'. do_act a s = Some s' \<and> turn_keeps q s s'"
proof (cases a)
  case (Work ms)
  have "sched_ok (s\<lparr>time_ms := time_ms s + ms\<rparr>) (q @ []) L" using ok by simp
  then have "\<exists>q' L'. sched_ok (s\<lparr>time_ms := time_ms s + ms\<rparr>) (q @ q') L'" by blast
  with Work show ?thesis by (simp add: do_act_def turn_keeps_def del: sched_ok_fields)
next
  case Wake
  have "turn_keeps q s (mm_halow_sched_wake s)"
    by (rule turn_keeps_same) (use ok in auto)
  with Wake show ?thesis by (simp add: do_act_def)
next
  case (Malloc n)
  obtain p s' L' where m: "mm_halow_osal_malloc n s = Some (p, s')" "sched_ok s' q L'"
    using sched_ok_malloc [OF ok, of n] by auto
  have "turn_keeps q s s'"
    using m(2) by (rule turn_keeps_same) (simp_all add: malloc_sched_frame [OF m(1)])
  with Malloc m(1) show ?thesis by (simp add: do_act_def)
next
  case (Create e x n nm)
  have none: ?thesis if "mm_halow_sched_task_create e x n nm s = Some (0, s)"
  proof -
    note that
    moreover have "turn_keeps q s s" using ok by (rule turn_keeps_same) auto
    ultimately show ?thesis using Create by (simp add: do_act_def)
  qed
  from create_cases [OF ok, of e x n nm] show ?thesis
  proof (elim disjE conjE exE)
    fix p s' k
    assume s': "mm_halow_sched_task_create e x n nm s = Some (p, s')" "p \<in> {1..4} - set q"
      "sched_ok s' (q @ [p]) (insert (unat (task_stack s' p), k) L)"
      "\<forall>r. r \<noteq> p \<longrightarrow> task_same s s' r"
      "mm_halow_task_cur s' = mm_halow_task_cur s" "mm_halow_sched_running s' = mm_halow_sched_running s"
      "mm_halow_sched_deadline s' = mm_halow_sched_deadline s" "trace s' = trace s" "time_ms s' = time_ms s"
    have "task_dead s' r" if "r \<in> set q" "task_dead s r" for r
    proof -
      have "task_same s s' r" using s'(2,4) that by auto
      then show ?thesis using task_sameD(1) that(2) by metis
    qed
    moreover have "do_act a s = Some s'" using Create s'(1) by (simp add: do_act_def)
    ultimately show ?thesis
      unfolding turn_keeps_def using s'(3,5-) by auto
  qed (rule none, assumption)+
next
  case (Delete p)
  have "turn_keeps q s (mm_halow_sched_task_delete p s)"
    using delete_ok [OF ok] delete_same delete_dead by (rule turn_keeps_same)
  moreover have "turn_keeps q s s" using ok by (rule turn_keeps_same) auto
  ultimately show ?thesis using Delete by (auto simp: do_act_def)
qed

lemma turn_keeps_trans:
  assumes "turn_keeps q s s'" and "\<And>q' L'. sched_ok s' (q @ q') L' \<Longrightarrow> turn_keeps (q @ q') s' s''"
  shows "turn_keeps q s s''"
proof -
  obtain q' L' where ok: "sched_ok s' (q @ q') L'" using assms(1) by (auto simp: turn_keeps_def)
  from assms(2) [OF ok] obtain q'' L'' where "sched_ok s'' (q @ (q' @ q'')) L''"
    by (auto simp: turn_keeps_def)
  then have "\<exists>q' L'. sched_ok s'' (q @ q') L'" by blast
  with assms(1) assms(2) [OF ok] show ?thesis by (auto simp: turn_keeps_def)
qed

lemma do_acts_keep: "sched_ok s q L \<Longrightarrow> \<exists>s'. do_acts as s = Some s' \<and> turn_keeps q s s'"
proof (induction as arbitrary: s q L)
  case Nil
  then show ?case by (auto simp: turn_keeps_def intro!: exI [of _ "[]"])
next
  case (Cons a as)
  obtain s1 where s1: "do_act a s = Some s1" "turn_keeps q s s1"
    using do_act_keeps [OF Cons.prems] by blast
  then obtain q1 L1 where "sched_ok s1 (q @ q1) L1" by (auto simp: turn_keeps_def)
  from Cons.IH [OF this] obtain s' where s': "do_acts as s1 = Some s'" by blast
  have "turn_keeps (q @ q') s1 s'" if "sched_ok s1 (q @ q') L'" for q' L'
    using Cons.IH [OF that] s' by simp
  with s1 s' show ?case by (auto intro: turn_keeps_trans)
qed

lemma script_finish_keeps:
  assumes ok: "sched_ok s q L" and cur: "mm_halow_task_cur s \<noteq> 0"
  shows "\<exists>s'. script_finish f s = Some s' \<and> turn_keeps q s s'"
proof (cases f)
  case Yields
  have "turn_keeps q s (s\<lparr>mm_halow_sched_woken := True\<rparr>)"
    by (rule turn_keeps_same) (use ok in auto)
  with Yields cur show ?thesis by (simp add: script_finish_def mm_halow_sched_yield_def)
next
  case (Parks timed w)
  have "turn_keeps q s (s\<lparr>mm_halow_sched_wake_at := w\<rparr>)" "turn_keeps q s s"
    by (rule turn_keeps_same; use ok in auto)+
  with Parks cur show ?thesis by (simp add: script_finish_def mm_halow_sched_park_def Let_def)
next
  case Exits
  have "turn_keeps q s (mm_halow_sched_task_delete 0 s)"
    using delete_ok [OF ok] delete_same delete_dead by (rule turn_keeps_same)
  with Exits show ?thesis by (simp add: script_finish_def)
qed

interpretation script: coop_turn "script_env prog" for prog :: "nat \<Rightarrow> 'a sched_st_scheme \<Rightarrow> act list \<times> finish"
proof
  fix s :: "'a sched_st_scheme" and q L p
  assume ok: "sched_ok s q L" and p: "p \<in> set q" "mm_halow_task_cur s = p" and run: "mm_halow_sched_running s"
  have p0: "p \<noteq> 0" by (rule sched_ok_nonnull [OF ok p(1)])
  let ?as = "fst (prog p s)" and ?f = "snd (prog p s)"
  obtain s1 where s1: "do_acts ?as s = Some s1" "turn_keeps q s s1" using do_acts_keep [OF ok] by blast
  then obtain q1 L1 where "sched_ok s1 (q @ q1) L1" by (auto simp: turn_keeps_def)
  moreover have cur: "mm_halow_task_cur s1 \<noteq> 0" using s1(2) p(2) p0 by (simp add: turn_keeps_def)
  ultimately obtain s2 where s2: "script_finish ?f s1 = Some s2" using script_finish_keeps by blast
  have "turn_keeps (q @ q') s1 s2" if "sched_ok s1 (q @ q') L'" for q' L'
    using script_finish_keeps [OF that cur, of ?f] s2 by simp
  with s1(2) have "turn_keeps q s s2" by (rule turn_keeps_trans)
  moreover have "turn (script_env prog) p s = Some s2" using s1(1) s2 by (simp add: script_env_def)
  ultimately show "\<exists>s' q' L'. turn (script_env prog) p s = Some s' \<and> sched_ok s' (q @ q') L'
      \<and> mm_halow_sched_running s' \<and> mm_halow_sched_deadline s' = mm_halow_sched_deadline s
      \<and> (\<forall>r \<in> set q. task_dead s r \<longrightarrow> task_dead s' r)
      \<and> turns (trace s') = turns (trace s) \<and> time_ms s \<le> time_ms s'"
    using run unfolding turn_keeps_def by blast
qed

end
