(* ===== verification/Halow_Sched_Props.thy ===== *)
theory Halow_Sched_Props
  imports Halow_Sched_Run
begin

text \<open>
  The properties of the scheduler: every reachable state of the task table is well formed,
  a pass serves the tasks and returns, creation and reaping account for every stack, the
  painted stack shows its headroom, and the claim on the transceiver excludes.
\<close>

section \<open>Reachable states\<close>

text \<open>
  What can happen to the scheduler between passes, for tasks running any program: the
  table starts empty, tasks are created and deleted from outside, time passes, memory is
  taken, and passes run.
\<close>

inductive sched_reach ::
    "(nat \<Rightarrow> 'a sched_st_scheme \<Rightarrow> act list \<times> finish) \<Rightarrow> 'a sched_st_scheme \<Rightarrow> bool" for prog where
  boot: "heap_live s L \<Longrightarrow> mm_halow_task_list s = 0 \<Longrightarrow> \<forall>p \<in> {1..4}. task_stack s p = 0 \<Longrightarrow>
    \<not> mm_halow_sched_running s \<Longrightarrow> mm_halow_task_cur s = 0 \<Longrightarrow> sched_reach prog s"
| outside: "sched_reach prog s \<Longrightarrow> do_act a s = Some s' \<Longrightarrow> sched_reach prog s'"
| pass: "sched_reach prog s \<Longrightarrow> mm_halow_sched_run (script_env prog) s = Some s' \<Longrightarrow> sched_reach prog s'"
| deinit: "sched_reach prog s \<Longrightarrow> sched_reach prog (mm_halow_sched_deinit s)"

lemma boot_ok:
  "heap_live s L \<Longrightarrow> mm_halow_task_list s = 0 \<Longrightarrow> \<forall>p \<in> {1..4}. task_stack s p = 0 \<Longrightarrow> sched_ok s [] L"
  by (simp add: sched_ok_def)

lemma sched_reach_ok:
  "sched_reach prog s \<Longrightarrow>
     (\<exists>q L. sched_ok s q L) \<and> \<not> mm_halow_sched_running s \<and> mm_halow_task_cur s = 0"
proof (induction rule: sched_reach.induct)
  case (boot s L)
  then show ?case using boot_ok by blast
next
  case (outside s a s')
  then obtain q L where ok: "sched_ok s q L" by blast
  from do_act_keeps [OF ok, of a] outside show ?case by (auto simp: turn_keeps_def)
next
  case (pass s s')
  then obtain q L where ok: "sched_ok s q L" by blast
  from script.run_ok [OF ok, of prog] pass show ?case by auto
next
  case (deinit s)
  then obtain q L where ok: "sched_ok s q L" by blast
  let ?s = "mm_halow_sched_deinit s"
  have "heap_live ?s L = heap_live s L"
    by (rule heap_live_cong) (simp_all add: mm_halow_sched_deinit_def mm_halow_sched_wake_at_reset_def)
  then have "heap_live ?s L" using ok by (simp add: sched_ok_def)
  then have "sched_ok ?s [] L"
    by (rule boot_ok) (simp_all add: mm_halow_sched_deinit_def mm_halow_sched_wake_at_reset_def)
  then show ?case
    by (auto simp: mm_halow_sched_deinit_def mm_halow_sched_wake_at_reset_def)
qed

lemma reach_chain_ok:
  assumes "sched_reach prog s" and "chain (task_next s) 0 (mm_halow_task_list s) q"
  obtains L where "sched_ok s q L" "\<not> mm_halow_sched_running s" "mm_halow_task_cur s = 0"
proof -
  obtain q' L where ok: "sched_ok s q' L" "\<not> mm_halow_sched_running s" "mm_halow_task_cur s = 0"
    using sched_reach_ok [OF assms(1)] by blast
  then have "chain (task_next s) 0 (mm_halow_task_list s) q'" by (simp add: sched_ok_def)
  then have "q' = q" using assms(2) by (rule chain_unique)
  with ok that show ?thesis by blast
qed

text \<open>A concrete scheduler on the concrete pool, for the witnesses.\<close>

definition task0 :: mm_halow_task where
  "task0 = \<lparr>t_sp = 0, t_next = 0, t_stack = 0, t_stack_words = 0, t_name = [],
     t_entry = 0, t_arg = 0, t_notify = 0, t_state = 0\<rparr>"

definition sched0 :: sched_st where
  "sched0 = \<lparr>time_ms = 0, irq_ctx = False, irq_off = False, trace = [],
     mm_halow_heap_head = 536870912, mm_halow_heap_mem = 536870912,
     blk = (\<lambda>_. \<lparr>b_next = 0, b_size = 98288, b_used = False\<rparr>), bytes = (\<lambda>_. 0),
     mm_halow_tasks = (\<lambda>_. task0), mm_halow_task_list = 0, mm_halow_task_cur = 0,
     mm_halow_sched_woken = False, mm_halow_sched_wake_at = 0, mm_halow_sched_running = False,
     mm_halow_service_owner = 0, mm_halow_service_depth = 0, mm_halow_sched_deadline = 0,
     mm_halow_sched_in_callback = False, mm_halow_wait_depth = 0, mm_halow_sched_teardown = False,
     words = (\<lambda>_. 0), trampoline_addr = 134217729\<rparr>"

lemma sched0_live: "heap_live sched0 {}"
proof -
  have "heap_rep sched0 [(98288, False)]" by (simp add: heap_rep_def sched0_def)
  then show ?thesis by (auto simp: heap_live_def live_def)
qed

lemma sched0_reach: "sched_reach prog sched0"
  by (rule boot [OF sched0_live]) (simp_all add: sched0_def task0_def)

lemma subseq_distinct: "subseq xs ys \<Longrightarrow> distinct ys \<Longrightarrow> distinct xs"
  by (auto simp: subseq_conv_nths intro: distinct_nthsI)

section \<open>Creation and the painted stack\<close>

lemma fill_words_index:
  "fill_words p n v m (p + 4 * i) = (if unat i mod 1073741824 < unat n then v else m (p + 4 * i))"
proof -
  have u: "unat (4 * i) = 4 * (unat i mod 1073741824)"
    by (simp add: unat_word_ariths mult_mod_right)
  have "(4 * i) mod 4 = 0" by (simp add: word_unat_eq_iff unat_mod u)
  moreover have "(4 * i) div 4 < n \<longleftrightarrow> unat i mod 1073741824 < unat n"
    by (simp add: word_less_nat_alt unat_div u)
  ultimately show ?thesis by (simp add: fill_words_def)
qed

lemma stack_free_from_eq:
  assumes "f \<le> g" and "g \<le> n" and "\<And>i. f \<le> i \<Longrightarrow> i < g \<Longrightarrow> m (stack + 4 * i) = MM_HALOW_STACK_FILL"
    and "g < n \<Longrightarrow> m (stack + 4 * g) \<noteq> MM_HALOW_STACK_FILL"
  shows "stack_free_from m stack n f = g"
  using assms
proof (induction "unat g - unat f" arbitrary: f rule: less_induct)
  case less
  show ?case
  proof (cases "f = g")
    case True
    with less.prems show ?thesis by (subst stack_free_from.simps) (auto simp: not_less)
  next
    case False
    with less.prems(1) have lt: "f < g" by simp
    then have "f < n" using less.prems(2) by simp
    have u: "unat (f + 1) = unat f + 1" "unat f < unat g"
      using lt by (simp_all add: unat_inc_u32 [OF lt] word_less_nat_alt)
    then have "f + 1 \<le> g" by (simp add: word_le_nat_alt)
    then have "stack_free_from m stack n (f + 1) = g"
    proof (rule less.hyps [rotated])
      show "unat g - unat (f + 1) < unat g - unat f" using u by simp
      show "m (stack + 4 * i) = MM_HALOW_STACK_FILL" if "f + 1 \<le> i" "i < g" for i
        using less.prems(3) [of i] that u by (simp add: word_le_nat_alt)
    qed (use less.prems in auto)
    then show ?thesis
      using less.prems(3) [of f] lt \<open>f < n\<close> by (subst stack_free_from.simps) simp
  qed
qed

lemma task_append_frame:
  assumes "task_append x s = Some s'"
  shows "words s' = words s" and "task_stack s' r = task_stack s r"
    and "t_stack_words (mm_halow_tasks s' r) = t_stack_words (mm_halow_tasks s r)"
  using assms by (auto simp: task_append_def bind_eq_Some_conv split: if_splits)

text \<open>Creation with its stack size named.\<close>

lemma create_eq:
  "mm_halow_sched_task_create e a n nm s =
     (case List.find (\<lambda>p. task_stack s p = 0) [1..<Suc MM_HALOW_SCHED_MAX_TASKS] of
        None \<Rightarrow> Some (0, s)
      | Some task \<Rightarrow> Option.bind (mm_halow_osal_malloc (stack_words_of n * 4) s)
          (\<lambda>(stk, s1). if stk = 0 then Some (0, s1) else
             Option.bind (task_append task
               (upd_task task (\<lambda>_. \<lparr>t_sp = stk + 4 * (stack_words_of n - MM_HALOW_CONTEXT_WORDS),
                   t_next = 0, t_stack = stk, t_stack_words = stack_words_of n, t_name = nm,
                   t_entry = e, t_arg = a, t_notify = 0, t_state = MM_HALOW_TASK_READY\<rparr>)
                 (s1\<lparr>words := (fill_words (stk + 4 * (stack_words_of n - MM_HALOW_CONTEXT_WORDS))
                     MM_HALOW_CONTEXT_WORDS 0 (fill_words stk (stack_words_of n) MM_HALOW_STACK_FILL (words s1)))
                   (stk + 4 * (stack_words_of n - MM_HALOW_CONTEXT_WORDS)
                      + 4 * (MM_HALOW_CONTEXT_WORDS - 1) := trampoline_addr s1)\<rparr>)))
               (\<lambda>s3. Some (task, mm_halow_sched_wake s3))))"
  unfolding mm_halow_sched_task_create_def stack_words_of_def Let_def by simp

lemma create_painted:
  assumes "mm_halow_sched_task_create e a n nm s = Some (p, s')" and "p \<noteq> 0"
  defines "st \<equiv> task_stack s' p" and "w \<equiv> stack_words_of n"
  defines "sp \<equiv> st + 4 * (w - MM_HALOW_CONTEXT_WORDS)"
  shows "words s' = (fill_words sp MM_HALOW_CONTEXT_WORDS 0 (fill_words st w MM_HALOW_STACK_FILL (words s)))
           (sp + 4 * (MM_HALOW_CONTEXT_WORDS - 1) := trampoline_addr s)"
    and "st \<noteq> 0" and "t_stack_words (mm_halow_tasks s' p) = w"
proof -
  from assms(1,2) obtain stk s1 s3 where m: "mm_halow_osal_malloc (w * 4) s = Some (stk, s1)" "stk \<noteq> 0"
    and ap: "task_append p (upd_task p (\<lambda>_. \<lparr>t_sp = stk + 4 * (w - MM_HALOW_CONTEXT_WORDS), t_next = 0,
        t_stack = stk, t_stack_words = w, t_name = nm, t_entry = e, t_arg = a, t_notify = 0,
        t_state = MM_HALOW_TASK_READY\<rparr>)
      (s1\<lparr>words := (fill_words (stk + 4 * (w - MM_HALOW_CONTEXT_WORDS)) MM_HALOW_CONTEXT_WORDS 0
          (fill_words stk w MM_HALOW_STACK_FILL (words s1)))
          (stk + 4 * (w - MM_HALOW_CONTEXT_WORDS) + 4 * (MM_HALOW_CONTEXT_WORDS - 1) := trampoline_addr s1)\<rparr>)) = Some s3"
    and s': "s' = mm_halow_sched_wake s3"
    unfolding create_eq w_def
    by (auto simp: bind_eq_Some_conv simp del: upt_Suc split: option.splits if_splits prod.splits)
  note fr = malloc_sched_frame(9,10) [OF m(1)]
  have st: "st = stk" using task_append_frame(2) [OF ap, of p] by (simp add: st_def s')
  show "words s' = (fill_words sp MM_HALOW_CONTEXT_WORDS 0 (fill_words st w MM_HALOW_STACK_FILL (words s)))
           (sp + 4 * (MM_HALOW_CONTEXT_WORDS - 1) := trampoline_addr s)"
    using task_append_frame(1) [OF ap] fr by (simp add: s' mm_halow_sched_wake_def st sp_def)
  show "st \<noteq> 0" using m(2) st by simp
  show "t_stack_words (mm_halow_tasks s' p) = w"
    using task_append_frame(3) [OF ap, of p] by (simp add: s')
qed

text \<open>Reading the painted words of a stack that does not wrap.\<close>

lemma painted_word:
  assumes i: "unat i + 26 \<le> unat w" and w: "unat w < 1073741824"
  shows "((fill_words (st + 4 * (w - MM_HALOW_CONTEXT_WORDS)) MM_HALOW_CONTEXT_WORDS 0
            (fill_words st w MM_HALOW_STACK_FILL m))
          (st + 4 * (w - MM_HALOW_CONTEXT_WORDS) + 4 * (MM_HALOW_CONTEXT_WORDS - 1) := tramp)) (st + 4 * i)
    = (if unat i + 26 = unat w then 0 else MM_HALOW_STACK_FILL)"
proof -
  let ?c = "w - MM_HALOW_CONTEXT_WORDS"
  have uc: "unat ?c = unat w - 26" using i by (subst unat_sub_u32) simp_all
  have ui: "unat (i - ?c) mod 1073741824 = (if unat i + 26 = unat w then 0 else 1073741824 - (unat w - 26 - unat i))"
  proof (cases "unat i + 26 = unat w")
    case True
    then have "i = ?c" using uc by (simp add: word_unat_eq_iff)
    with True show ?thesis by simp
  next
    case False
    with i uc have lt: "unat i < unat ?c" by linarith
    then have u: "unat (i - ?c) = unat i + 4294967296 - unat ?c" by (simp add: unat_sub_if')
    have "unat (i - ?c) = 3 * 1073741824 + (1073741824 - (unat ?c - unat i))"
      using u lt uc w by linarith
    moreover have "1073741824 - (unat ?c - unat i) < 1073741824" using lt by simp
    ultimately show ?thesis using False uc by (simp only: mod_mult_self3 mod_less if_False)
  qed
  have e: "st + 4 * ?c + 4 * (i - ?c) = st + 4 * i" by (simp add: algebra_simps)
  have ne: "st + 4 * i \<noteq> st + 4 * ?c + 4 * (MM_HALOW_CONTEXT_WORDS - 1)"
  proof
    assume "st + 4 * i = st + 4 * ?c + 4 * (MM_HALOW_CONTEXT_WORDS - 1)"
    then have "4 * i = 4 * (w - 1)" by (simp add: algebra_simps)
    then have "unat (4 * i) = unat (4 * (w - 1))" by simp
    moreover have "unat (4 * i) = 4 * unat i"
      using i w by (subst unat_mult_u32) simp_all
    moreover have "unat (w - 1) = unat w - 1" using i by (subst unat_sub_u32) simp_all
    then have "unat (4 * (w - 1)) = 4 * (unat w - 1)"
      using w by (subst unat_mult_u32) simp_all
    ultimately show False using i by linarith
  qed
  have inner: "fill_words st w MM_HALOW_STACK_FILL m (st + 4 * i) = MM_HALOW_STACK_FILL"
  proof -
    have "unat i mod 1073741824 < unat w" using i w by simp
    then show ?thesis by (simp only: fill_words_index if_True)
  qed
  have "fill_words (st + 4 * ?c) MM_HALOW_CONTEXT_WORDS 0 (fill_words st w MM_HALOW_STACK_FILL m) (st + 4 * i)
      = (if unat i + 26 = unat w then 0 else MM_HALOW_STACK_FILL)"
    using fill_words_index [of "st + 4 * ?c" MM_HALOW_CONTEXT_WORDS 0 "fill_words st w MM_HALOW_STACK_FILL m" "i - ?c"]
    unfolding e ui inner using i w by (auto split: if_splits)
  with ne show ?thesis by (simp only: fun_upd_apply if_False)
qed

lemma stack_words_of_nat:
  assumes "unat n < 1073741822"
  shows "26 \<le> unat (stack_words_of n)" and "unat (stack_words_of n) < 1073741824"
    and "unat n \<le> unat (stack_words_of n)" and "even (unat (stack_words_of n))"
proof -
  have n1: "unat (n + 1) = unat n + 1" using assms by (subst unat_add_u32) simp_all
  have "(n + 1) AND NOT 1 = (n + 1) AND NOT (mask 1)" by simp
  then have w: "unat ((n + 1) AND NOT 1) = (unat n + 1) - (unat n + 1) mod 2"
    using unat_and_not_mask [of "n + 1" 1] n1 by simp
  have lt: "((n + 1) AND NOT 1) < MM_HALOW_CONTEXT_WORDS \<longleftrightarrow> unat ((n + 1) AND NOT 1) < 26"
    by (simp add: word_less_nat_alt)
  have e: "unat (stack_words_of n) = max 26 ((unat n + 1) - (unat n + 1) mod 2)"
    using w lt by (auto simp: stack_words_of_def Let_def max_def)
  show "26 \<le> unat (stack_words_of n)" unfolding e by simp
  show "unat (stack_words_of n) < 1073741824" unfolding e max_def using assms by presburger
  show "unat n \<le> unat (stack_words_of n)" unfolding e max_def by presburger
  show "even (unat (stack_words_of n))" unfolding e max_def by presburger
qed

section \<open>A created task, concretely\<close>

lemma create_none_iff:
  assumes "sched_ok s q L"
  shows "(\<exists>s'. mm_halow_sched_task_create e a n nm s = Some (0, s')) \<longleftrightarrow>
    length q = 4 \<or> mm_halow_osal_malloc (stack_words_of n * 4) s = Some (0, s)"
proof
  assume "\<exists>s'. mm_halow_sched_task_create e a n nm s = Some (0, s')"
  then show "length q = 4 \<or> mm_halow_osal_malloc (stack_words_of n * 4) s = Some (0, s)"
    using create_cases [OF assms, of e a n nm] by auto
next
  assume "length q = 4 \<or> mm_halow_osal_malloc (stack_words_of n * 4) s = Some (0, s)"
  then show "\<exists>s'. mm_halow_sched_task_create e a n nm s = Some (0, s')"
  proof
    assume "length q = 4"
    then have "List.find (\<lambda>p. task_stack s p = 0) [1..<Suc MM_HALOW_SCHED_MAX_TASKS] = None"
      using slots_full [OF assms] find_slot_None [of s] by blast
    then show ?thesis by (simp only: create_eq option.case) blast
  next
    assume m: "mm_halow_osal_malloc (stack_words_of n * 4) s = Some (0, s)"
    show ?thesis
    proof (cases "List.find (\<lambda>p. task_stack s p = 0) [1..<Suc MM_HALOW_SCHED_MAX_TASKS]")
      case None
      then show ?thesis by (simp only: create_eq option.case) blast
    next
      case (Some p)
      then show ?thesis by (simp only: create_eq option.case m) simp
    qed
  qed
qed

definition sched1 :: sched_st where
  "sched1 = snd (the (mm_halow_sched_task_create 134217800 7 100 ''evt'' sched0))"

lemma sched1_create: "mm_halow_sched_task_create 134217800 7 100 ''evt'' sched0 = Some (1, sched1)"
proof -
  have "\<exists>s'. mm_halow_sched_task_create 134217800 7 100 ''evt'' sched0 = Some (1, s')"
    by (simp add: create_eq stack_words_of_def malloc_eq sched0_def task0_def task_append_def upt_rec
        heap_first_fit.simps MM_HALOW_BLOCK_ROUND_def Let_def upd_task_def)
  then show ?thesis by (auto simp: sched1_def)
qed

lemma sched1_reach: "sched_reach prog sched1"
  by (rule outside [OF sched0_reach, of "Create 134217800 7 100 ''evt''"])
    (simp add: do_act_def sched1_create)

lemma sched0_ok: "sched_ok sched0 [] {}"
  by (rule boot_ok [OF sched0_live]) (simp_all add: sched0_def task0_def)

lemma sched1_ok: "\<exists>L. sched_ok sched1 [1] L"
  using create_cases [OF sched0_ok, of 134217800 7 100 "''evt''"] sched1_create by auto

lemma sched1_chain: "chain (task_next sched1) 0 (mm_halow_task_list sched1) [1]"
  using sched1_ok by (auto simp: sched_ok_def)

section \<open>Properties\<close>



text \<open>
  The stack high-water mark. After a task has been created with a stack of n words (so
  that the byte size does not wrap) and has then written its stack in any way whose lowest
  overwritten word is word g, mm_halow_sched_stack_free_words() returns exactly g; right
  after creation it returns the rounded size less the 26 words of the initial context.
\<close>

theorem stack_headroom:
  assumes "mm_halow_sched_task_create e a n nm s = Some (p, s')" and "p \<noteq> 0"
    and n: "unat n < 1073741822"
    and g: "unat g + 26 \<le> unat (stack_words_of n)"
    and low: "\<And>i. i < g \<Longrightarrow> m (task_stack s' p + 4 * i) = words s' (task_stack s' p + 4 * i)"
    and hit: "m (task_stack s' p + 4 * g) \<noteq> MM_HALOW_STACK_FILL"
  shows "mm_halow_sched_stack_free_words p (s'\<lparr>words := m\<rparr>) = g
    \<and> unat (mm_halow_sched_stack_free_words p s') = unat (stack_words_of n) - 26"
proof -
  note paint = create_painted [OF assms(1,2)]
  let ?w = "stack_words_of n" and ?st = "task_stack s' p"
  note w = stack_words_of_nat(1,2) [OF n]
  have word: "words s' (?st + 4 * i) = (if unat i + 26 = unat ?w then 0 else MM_HALOW_STACK_FILL)"
    if "unat i + 26 \<le> unat ?w" for i
    unfolding paint(1) by (rule painted_word [OF that w(2)])
  have gw: "g \<le> ?w" using g by (simp add: word_le_nat_alt)
  have "stack_free_from m ?st ?w 0 = g"
  proof (rule stack_free_from_eq)
    show "m (?st + 4 * i) = MM_HALOW_STACK_FILL" if "i < g" for i
    proof -
      have "unat i < unat g" using that by (simp add: word_less_nat_alt)
      then show ?thesis using word [of i] low [OF that] g by simp
    qed
  qed (use gw hit in auto)
  moreover have "stack_free_from (words s') ?st ?w 0 = ?w - MM_HALOW_CONTEXT_WORDS"
  proof (rule stack_free_from_eq)
    have u: "unat (?w - MM_HALOW_CONTEXT_WORDS) = unat ?w - 26"
      using w(1) by (subst unat_sub_u32) simp_all
    show "?w - MM_HALOW_CONTEXT_WORDS \<le> ?w" using u by (simp add: word_le_nat_alt)
    show "words s' (?st + 4 * i) = MM_HALOW_STACK_FILL" if "i < ?w - MM_HALOW_CONTEXT_WORDS" for i
    proof -
      have "unat i < unat ?w - 26" using that u by (simp add: word_less_nat_alt)
      then show ?thesis using word [of i] by simp
    qed
    have "unat (?w - MM_HALOW_CONTEXT_WORDS) + 26 = unat ?w" using u w(1) by linarith
    then show "words s' (?st + 4 * (?w - MM_HALOW_CONTEXT_WORDS)) \<noteq> MM_HALOW_STACK_FILL"
      using word [of "?w - MM_HALOW_CONTEXT_WORDS"] by simp
  qed simp
  moreover have "unat (?w - MM_HALOW_CONTEXT_WORDS) = unat ?w - 26"
    using w(1) by (subst unat_sub_u32) simp_all
  ultimately show ?thesis
    using assms(2) paint(2,3) by (simp add: mm_halow_sched_stack_free_words_def)
qed

theorem stack_headroom_witness:
  "mm_halow_sched_stack_free_words 1 (sched1\<lparr>words := (words sched1)(task_stack sched1 1 + 80 := 7)\<rparr>) = 20"
proof -
  have "((words sched1)(task_stack sched1 1 + 80 := 7)) (task_stack sched1 1 + 4 * i)
      = words sched1 (task_stack sched1 1 + 4 * i)" if "i < 20" for i :: u32
  proof -
    have "unat i < 20" using that by (simp add: word_less_nat_alt)
    then have "unat (4 * i) < 80" by (subst unat_mult_u32) simp_all
    then have "4 * i \<noteq> 80" by auto
    then show ?thesis by simp
  qed
  moreover have "unat (20 :: u32) + 26 \<le> unat (stack_words_of 100)" by (simp add: stack_words_of_def)
  ultimately show ?thesis
    using stack_headroom [OF sched1_create, of 20 "(words sched1)(task_stack sched1 1 + 80 := 7)"]
    by simp
qed

text \<open>
  C28: Reaping is exact. From a well-formed table, reaping returns, takes exactly the dead
  tasks off the list keeping the order of the others, gives back exactly their stacks to
  the heap, and leaves every other task and the scheduler's own variables as they were.
\<close>

theorem sched_reap_exact:
  assumes "sched_ok s q L"
  shows "\<exists>s'. mm_halow_sched_reap s = Some s'
    \<and> sched_ok s' (filter (\<lambda>p. \<not> task_dead s p) q)
        {x \<in> L. \<forall>p \<in> set q. task_dead s p \<longrightarrow> fst x \<noteq> unat (task_stack s p)}
    \<and> sched_same s s' \<and> (\<forall>r. r \<notin> set q \<or> \<not> task_dead s r \<longrightarrow> task_same s s' r)
    \<and> (\<forall>r \<in> set q. task_dead s r \<longrightarrow> task_stack s' r = 0)"
proof -
  from reap_ok [OF assms] obtain s' where
    s': "mm_halow_sched_reap s = Some s'" "sched_same s s'"
      "sched_ok s' (filter (\<lambda>p. \<not> task_dead s p) q)
        {x \<in> L. \<forall>p \<in> set q. task_dead s p \<longrightarrow> fst x \<noteq> unat (task_stack s p)}"
      "\<forall>r. r \<notin> set q \<or> \<not> task_dead s r \<longrightarrow> task_same s s' r" by blast
  have "task_stack s' r = 0" if "r \<in> set q" "task_dead s r" for r
    using s'(3) assms that unfolding sched_ok_def by auto
  with s' show ?thesis by blast
qed

theorem sched_reap_exact_witness:
  "\<exists>s'. mm_halow_sched_reap (mm_halow_sched_task_delete 1 sched1) = Some s' \<and> task_stack s' 1 = 0"
proof -
  obtain L where "sched_ok (mm_halow_sched_task_delete 1 sched1) [1] L"
    using sched1_ok delete_ok by blast
  from sched_reap_exact [OF this] show ?thesis
    by (auto simp: mm_halow_sched_task_delete_def)
qed

text \<open>
  C8: A scheduler pass. From every reachable state, for tasks that run any finite program
  of driver operations, mm_halow_sched_run() returns. It makes between one and four walks;
  each walk gives every task at most one turn, in creation order, and misses none of the
  tasks that were there before and survive; new tasks go to the end of the list. It stops
  early only if nobody asked for another pass or the time budget is spent. The tasks that
  died are gone afterwards and the survivors are all READY.
\<close>

theorem sched_run_serves:
  assumes reach: "sched_reach prog s" and q: "chain (task_next s) 0 (mm_halow_task_list s) q"
  shows "\<exists>s' q' created tss. mm_halow_sched_run (script_env prog) s = Some s'
    \<and> chain (task_next s') 0 (mm_halow_task_list s') q' \<and> subseq q' (q @ created)
    \<and> (\<forall>p \<in> set q'. task_ready s' p) \<and> (\<forall>p \<in> set q. task_dead s p \<longrightarrow> p \<notin> set q')
    \<and> (\<forall>p \<in> set (q @ created) - set q'. task_stack s' p = 0)
    \<and> turns (trace s') = turns (trace s) @ concat tss \<and> 1 \<le> length tss \<and> length tss \<le> 4
    \<and> (\<forall>ts \<in> set tss. distinct ts \<and> subseq ts (q @ created) \<and> set q \<inter> set q' \<subseteq> set ts)
    \<and> (length tss = 4 \<or> \<not> mm_halow_sched_woken s'
         \<or> tick_reached (mm_halow_ticks_ms s') (mm_halow_ticks_ms s + MM_HALOW_SCHED_BUDGET_MS))"
proof -
  obtain L where ok: "sched_ok s q L" "\<not> mm_halow_sched_running s" "mm_halow_task_cur s = 0"
    using reach_chain_ok [OF reach q] by blast
  from script.run_ok [OF ok, of prog] obtain s' q' allq L' tss mid where
    r: "mm_halow_sched_run (script_env prog) s = Some s'" "sched_ok s' q' L'"
      "prefix q allq" "q' = filter (\<lambda>p. \<not> task_dead mid p) allq"
      "\<forall>p \<in> set allq - set q'. task_stack s' p = 0" "\<forall>p \<in> set q. task_dead s p \<longrightarrow> p \<notin> set q'"
      "\<forall>p \<in> set q'. task_ready s' p" "turns (trace s') = turns (trace s) @ concat tss"
      "tss \<noteq> []" "length tss \<le> 4" "distinct allq"
      "run_passes (script_env prog) MM_HALOW_SCHED_PASSES (s\<lparr>mm_halow_sched_running := True,
         mm_halow_sched_deadline := mm_halow_ticks_ms s + MM_HALOW_SCHED_BUDGET_MS\<rparr>) = Some mid"
      "\<forall>ts \<in> set tss. subseq ts allq \<and> (\<forall>p \<in> set q \<inter> set q'. p \<in> set ts)"
      "length tss = 4 \<or> \<not> mm_halow_sched_woken s'
         \<or> tick_reached (mm_halow_ticks_ms s') (mm_halow_ticks_ms s + MM_HALOW_SCHED_BUDGET_MS)"
    by (elim exE conjE) (rule that; assumption)
  obtain created where all: "allq = q @ created" using r(3) by (auto simp: prefix_def)
  have "chain (task_next s') 0 (mm_halow_task_list s') q'" using r(2) by (simp add: sched_ok_def)
  moreover have "subseq q' (q @ created)" unfolding r(4) all by (rule subseq_filter_left)
  moreover have "\<forall>ts \<in> set tss. distinct ts \<and> subseq ts (q @ created) \<and> set q \<inter> set q' \<subseteq> set ts"
    using r(11,13) subseq_distinct unfolding all by blast
  moreover have "1 \<le> length tss" using r(9) by (cases tss) auto
  ultimately show ?thesis
    using r(1,5-8,10,14) unfolding all by blast
qed

theorem sched_run_serves_witness:
  "\<exists>s' q'. mm_halow_sched_run (script_env (\<lambda>p s. ([Work 3, Create 9 9 64 ''b''], Yields))) sched1 = Some s'
     \<and> chain (task_next s') 0 (mm_halow_task_list s') q' \<and> (\<forall>p \<in> set q'. task_ready s' p)"
  using sched_run_serves [OF sched1_reach sched1_chain, of "\<lambda>p s. ([Work 3, Create 9 9 64 ''b''], Yields)"]
  by blast

section \<open>The claim on the transceiver\<close>

text \<open>
  Any interleaving of claims and releases by the thread and by the interrupt context, with
  the numbers of claims each holds. A depth of 255 is the bound of the code's 8-bit
  counter; the driver's own nesting is two.
\<close>

inductive claim_reach :: "'a sched_st_scheme \<Rightarrow> nat \<Rightarrow> nat \<Rightarrow> bool" where
  none: "mm_halow_service_owner s = MM_HALOW_OWNER_NONE \<Longrightarrow> mm_halow_service_depth s = 0 \<Longrightarrow>
    claim_reach s 0 0"
| taken: "claim_reach s nt ni \<Longrightarrow> nt + ni < 255 \<Longrightarrow>
    mm_halow_sched_claim (s\<lparr>irq_ctx := c\<rparr>) = (True, s') \<Longrightarrow>
    claim_reach s' (if c then nt else Suc nt) (if c then Suc ni else ni)"
| refused: "claim_reach s nt ni \<Longrightarrow> mm_halow_sched_claim (s\<lparr>irq_ctx := c\<rparr>) = (False, s') \<Longrightarrow>
    claim_reach s' nt ni"
| given: "claim_reach s nt ni \<Longrightarrow> 0 < (if c then ni else nt) \<Longrightarrow>
    claim_reach (mm_halow_sched_release (s\<lparr>irq_ctx := c\<rparr>))
      (if c then nt else nt - 1) (if c then ni - 1 else ni)"
| other: "claim_reach s nt ni \<Longrightarrow> mm_halow_service_owner s' = mm_halow_service_owner s \<Longrightarrow>
    mm_halow_service_depth s' = mm_halow_service_depth s \<Longrightarrow> claim_reach s' nt ni"

definition claim_inv :: "'a sched_st_scheme \<Rightarrow> nat \<Rightarrow> nat \<Rightarrow> bool" where
  "claim_inv s nt ni \<longleftrightarrow> (nt = 0 \<or> ni = 0) \<and> nt + ni \<le> 255
     \<and> mm_halow_service_depth s = of_nat (nt + ni)
     \<and> mm_halow_service_owner s = (if 0 < nt then MM_HALOW_OWNER_THREAD
          else if 0 < ni then MM_HALOW_OWNER_IRQ else MM_HALOW_OWNER_NONE)"

lemma claim_eq:
  "mm_halow_sched_claim s =
     (let owner = (if irq_ctx s then MM_HALOW_OWNER_IRQ else MM_HALOW_OWNER_THREAD) in
      if mm_halow_service_owner s = MM_HALOW_OWNER_NONE \<or> mm_halow_service_owner s = owner
      then (True, s\<lparr>mm_halow_service_owner := owner, mm_halow_service_depth := mm_halow_service_depth s + 1\<rparr>)
      else (False, s))"
  by (simp add: mm_halow_sched_claim_def atomic_defs mm_halow_in_irq_def Let_def)

lemma release_eq:
  "mm_halow_sched_release s =
     (if mm_halow_service_depth s = 0 then s
      else s\<lparr>mm_halow_service_depth := mm_halow_service_depth s - 1,
             mm_halow_service_owner := (if mm_halow_service_depth s = 1 then MM_HALOW_OWNER_NONE
               else mm_halow_service_owner s)\<rparr>)"
  by (auto simp: mm_halow_sched_release_def atomic_defs Let_def word_gt_0)

lemma of_nat_u8_eq_0: "n \<le> 255 \<Longrightarrow> (of_nat n :: u8) = 0 \<longleftrightarrow> n = 0"
  by (auto simp: word_of_nat_eq_0_iff dvd_def)

lemma of_nat_u8_eq_1: "n \<le> 255 \<Longrightarrow> (of_nat n :: u8) = 1 \<longleftrightarrow> n = 1"
  using of_nat_u8_eq_0 [of "n - 1"] of_nat_u8_eq_0 [of n] by (cases n) auto

lemma claim_step:
  assumes "claim_inv s nt ni" and "nt + ni < 255"
  shows "mm_halow_sched_claim (s\<lparr>irq_ctx := c\<rparr>) = (True, s') \<Longrightarrow>
      claim_inv s' (if c then nt else Suc nt) (if c then Suc ni else ni)"
  using assms by (auto simp: claim_inv_def claim_eq Let_def split: if_splits)

lemma release_step:
  assumes inv: "claim_inv s nt ni" and "0 < (if c then ni else nt)"
  shows "claim_inv (mm_halow_sched_release (s\<lparr>irq_ctx := c\<rparr>))
      (if c then nt else nt - 1) (if c then ni - 1 else ni)"
proof -
  have n: "nt + ni \<le> 255" "0 < nt + ni" using assms by (auto simp: claim_inv_def split: if_splits)
  have d: "mm_halow_service_depth s = of_nat (nt + ni)" using inv by (simp add: claim_inv_def)
  have z: "mm_halow_service_depth s \<noteq> 0" "mm_halow_service_depth s = 1 \<longleftrightarrow> nt + ni = 1"
    unfolding d using n of_nat_u8_eq_0 of_nat_u8_eq_1 by blast+
  obtain k where k: "nt + ni = Suc k" using n(2) by (cases "nt + ni") auto
  have "(of_nat (nt + ni) :: u8) - 1 = of_nat (nt + ni - 1)" unfolding k by simp
  then show ?thesis
    using assms n z unfolding claim_inv_def release_eq
    by (auto split: if_splits)
qed

lemma claim_reach_inv: "claim_reach s nt ni \<Longrightarrow> claim_inv s nt ni"
proof (induction rule: claim_reach.induct)
  case (none s)
  then show ?case by (simp add: claim_inv_def)
next
  case (taken s nt ni c s')
  then show ?case using claim_step by blast
next
  case (refused s nt ni c s')
  then have "s' = s\<lparr>irq_ctx := c\<rparr>" by (simp add: claim_eq Let_def split: if_splits)
  with refused show ?case by (simp add: claim_inv_def)
next
  case (given s nt ni c)
  then show ?case using release_step by blast
next
  case (other s nt ni s')
  then show ?case by (simp add: claim_inv_def)
qed

lemma claim_refused: "\<not> fst (mm_halow_sched_claim s) \<Longrightarrow> snd (mm_halow_sched_claim s) = s"
proof -
  assume r: "\<not> fst (mm_halow_sched_claim s)"
  have e: "snd (mm_halow_sched_claim s) = s"
    if "mm_halow_sched_claim s = (if P then (True, X) else (False, s))" for P X
    using that r by (cases P) simp_all
  show ?thesis by (rule e [OF claim_eq [unfolded Let_def]])
qed

lemma irq_sel:
  "irq_ctx (s\<lparr>irq_ctx := c\<rparr>) = c"
  "mm_halow_service_owner (s\<lparr>irq_ctx := c\<rparr>) = mm_halow_service_owner s"
  by simp_all

text \<open>
  C10: Mutual exclusion on the transceiver. In every interleaving of claims and releases by
  the thread and the interrupt context, never do both hold a claim; a context's claim is
  granted, nested or not, exactly when the other holds none, and a refusal changes
  nothing; the claim is free exactly when every granted claim has been released.
\<close>

theorem claim_excludes:
  assumes "claim_reach s nt ni"
  shows "(nt = 0 \<or> ni = 0)
    \<and> (fst (mm_halow_sched_claim (s\<lparr>irq_ctx := False\<rparr>)) \<longleftrightarrow> ni = 0)
    \<and> (fst (mm_halow_sched_claim (s\<lparr>irq_ctx := True\<rparr>)) \<longleftrightarrow> nt = 0)
    \<and> (\<not> fst (mm_halow_sched_claim s) \<longrightarrow> snd (mm_halow_sched_claim s) = s)
    \<and> (mm_halow_service_owner s = MM_HALOW_OWNER_NONE \<longleftrightarrow> nt + ni = 0)"
proof -
  have inv: "nt = 0 \<or> ni = 0" "mm_halow_service_owner s = (if 0 < nt then MM_HALOW_OWNER_THREAD
          else if 0 < ni then MM_HALOW_OWNER_IRQ else MM_HALOW_OWNER_NONE)"
    using claim_reach_inv [OF assms] by (simp_all add: claim_inv_def)
  have "snd (mm_halow_sched_claim s) = s" if "\<not> fst (mm_halow_sched_claim s)"
    using that by (rule claim_refused)
  moreover consider "nt = 0" "ni = 0" | "nt = 0" "0 < ni" | "0 < nt" "ni = 0" using inv(1) by blast
  then have "(fst (mm_halow_sched_claim (s\<lparr>irq_ctx := False\<rparr>)) \<longleftrightarrow> ni = 0)
    \<and> (fst (mm_halow_sched_claim (s\<lparr>irq_ctx := True\<rparr>)) \<longleftrightarrow> nt = 0)
    \<and> (mm_halow_service_owner s = MM_HALOW_OWNER_NONE \<longleftrightarrow> nt + ni = 0)"
    by cases (simp_all only: claim_eq Let_def irq_sel inv(2), simp_all)
  ultimately show ?thesis using inv(1) by blast
qed

theorem claim_excludes_witness:
  "\<exists>s :: sched_st. claim_reach s 2 0 \<and> \<not> fst (mm_halow_sched_claim (s\<lparr>irq_ctx := True\<rparr>))"
proof -
  let ?s1 = "snd (mm_halow_sched_claim (sched0\<lparr>irq_ctx := False\<rparr>))"
  let ?s2 = "snd (mm_halow_sched_claim (?s1\<lparr>irq_ctx := False\<rparr>))"
  have "claim_reach sched0 0 0" by (rule none) (simp_all add: sched0_def)
  then have "claim_reach ?s1 1 0"
    using taken [of sched0 0 0 False ?s1] by (simp add: claim_eq sched0_def Let_def)
  then have r: "claim_reach ?s2 2 0"
    using taken [of ?s1 1 0 False ?s2] by (simp add: claim_eq sched0_def Let_def numeral_2_eq_2)
  from claim_excludes [OF r] have "\<not> fst (mm_halow_sched_claim (?s2\<lparr>irq_ctx := True\<rparr>))" by linarith
  with r show ?thesis by blast
qed

end
