(* ===== verification/Halow_Wait.thy ===== *)
theory Halow_Wait
  imports Halow_Sched_Props
begin

text \<open>
  Waiting. What a wait relies on is a locale, \<open>wait_env\<close>: parking gives control back
  within \<open>M\<close> milliseconds, and time passes while the driver polls (each park either moves
  the clock or uses up one of the finitely many polls of the current millisecond, \<open>idle\<close>);
  a condition takes no time. From that, mm_halow_sched_wait() is shown to return, never
  early, and to report the last evaluation of its condition.
\<close>

section \<open>The contract\<close>

locale wait_env =
  fixes env :: "'a sched_st_scheme sched_env"
    and cond :: "'a sched_st_scheme \<Rightarrow> bool \<times> 'a sched_st_scheme"
    and I :: "'a sched_st_scheme \<Rightarrow> bool" and idle :: "'a sched_st_scheme \<Rightarrow> nat" and M :: nat
  assumes park_returns: "I s \<Longrightarrow> \<exists>s'. mm_halow_sched_park env timed w s = Some s' \<and> I s'
      \<and> mm_halow_wait_depth s' = mm_halow_wait_depth s \<and> time_ms s' \<le> time_ms s + M
      \<and> (time_ms s < time_ms s' \<or> time_ms s = time_ms s' \<and> idle s' < idle s)"
    and cond_keeps: "I s \<Longrightarrow> cond s = (b, s') \<Longrightarrow> I s' \<and> time_ms s' = time_ms s \<and> idle s' \<le> idle s
      \<and> mm_halow_wait_depth s' = mm_halow_wait_depth s
      \<and> mm_halow_sched_teardown s' = mm_halow_sched_teardown s"
    and irq_keeps: "I s \<Longrightarrow> I (irq env s) \<and> idle (irq env s) \<le> idle s
      \<and> time_ms s \<le> time_ms (irq env s) \<and> time_ms (irq env s) \<le> time_ms s + M
      \<and> mm_halow_wait_depth (irq env s) = mm_halow_wait_depth s"
    and I_depth: "I (s\<lparr>mm_halow_wait_depth := d\<rparr>) = I s"
    and M_bound: "M < 1000000000"
begin

text \<open>
  The bounded loop: \<open>D\<close> is the true time the wait gives up at. Termination is by the
  pair of the time left and the polls left in this millisecond.
\<close>

lemma timed_loop:
  assumes "I s" and "st \<le> time_ms s" and "time_ms s \<le> st + unat t + M" and "unat t \<le> 10000"
  shows "\<exists>b s' s0. wait_loop env cond t (of_nat st) False s = Some (b, s') \<and> I s'
    \<and> cond s0 = (b, s') \<and> I s0 \<and> mm_halow_wait_depth s0 = mm_halow_wait_depth s
    \<and> (\<not> b \<longrightarrow> st + unat t \<le> time_ms s') \<and> time_ms s \<le> time_ms s'
    \<and> time_ms s' \<le> st + unat t + 2 * M \<and> (t = 0 \<longrightarrow> s0 = s)"
  using assms
proof (induction "(st + unat t - time_ms s, idle s)" arbitrary: s rule: wf_induct_rule [OF wf_lex_prod [OF wf_less wf_less]])
  case (1 s)
  obtain c s1 where c: "cond s = (c, s1)" by (cases "cond s")
  note k = cond_keeps [OF "1.prems"(1) c]
  show ?case
  proof (cases "c \<or> t = 0")
    case True
    then have "wait_loop env cond t (of_nat st) False s = Some (c, s1)"
      using c by (subst wait_loop.simps) auto
    with c k "1.prems" True show ?thesis by (intro exI [of _ c] exI [of _ s1] exI [of _ s]) auto
  next
    case False
    then have F: "\<not> c" "t \<noteq> 0" by auto
    let ?s2 = "irq env s1"
    have k2: "I ?s2" "idle ?s2 \<le> idle s" "time_ms s \<le> time_ms ?s2" "time_ms ?s2 \<le> time_ms s + M"
      "mm_halow_wait_depth ?s2 = mm_halow_wait_depth s"
      using irq_keeps [of s1] k by auto
    have el: "unat (mm_halow_ticks_ms ?s2 - of_nat st) = time_ms ?s2 - st"
      unfolding mm_halow_ticks_ms_def
      by (rule unat_diff_of_nat_u32) (use k2 "1.prems" M_bound in linarith)+
    show ?thesis
    proof (cases "time_ms ?s2 - st \<ge> unat t")
      case True
      then have "mm_halow_ticks_ms ?s2 - of_nat st \<ge> t" using el by (simp add: word_le_nat_alt)
      then have "wait_loop env cond t (of_nat st) False s = Some (cond ?s2)"
        using c F by (subst wait_loop.simps) (simp add: Let_def)
      moreover obtain b s3 where b: "cond ?s2 = (b, s3)" by (cases "cond ?s2")
      moreover note cond_keeps [OF k2(1) b]
      ultimately show ?thesis
        using k2 "1.prems" True F by (intro exI [of _ b] exI [of _ s3] exI [of _ ?s2]) auto
    next
      case ge: False
      then have "\<not> mm_halow_ticks_ms ?s2 - of_nat st \<ge> t" using el by (simp add: word_le_nat_alt)
      moreover obtain s3 where s3: "mm_halow_sched_park env True (of_nat st + t) ?s2 = Some s3" "I s3"
        "mm_halow_wait_depth s3 = mm_halow_wait_depth ?s2" "time_ms s3 \<le> time_ms ?s2 + M"
        "time_ms ?s2 < time_ms s3 \<or> time_ms ?s2 = time_ms s3 \<and> idle s3 < idle ?s2"
        using park_returns [OF k2(1)] by blast
      ultimately have step: "wait_loop env cond t (of_nat st) False s = wait_loop env cond t (of_nat st) False s3"
        using c F by (subst wait_loop.simps) (simp add: Let_def)
      have lt: "time_ms ?s2 < st + unat t" using ge "1.prems" k2 by linarith
      have less: "((st + unat t - time_ms s3, idle s3), (st + unat t - time_ms s, idle s)) 
          \<in> {(x, y). x < y} <*lex*> {(x, y). x < y}"
        using s3(5) k2 lt by auto
      have bounds: "st \<le> time_ms s3" "time_ms s3 \<le> st + unat t + M"
        using s3(4,5) k2 lt "1.prems" by auto
      obtain b s' s0 where IH: "wait_loop env cond t (of_nat st) False s3 = Some (b, s')" "I s'"
        "cond s0 = (b, s')" "I s0" "mm_halow_wait_depth s0 = mm_halow_wait_depth s3"
        "\<not> b \<longrightarrow> st + unat t \<le> time_ms s'" "time_ms s3 \<le> time_ms s'" "time_ms s' \<le> st + unat t + 2 * M"
        using "1.hyps" [OF less s3(2) bounds "1.prems"(4)] by blast
      then show ?thesis
        using step s3 k2 F by (intro exI [of _ b] exI [of _ s'] exI [of _ s0]) auto
    qed
  qed
qed

text \<open>A forever wait that finds the driver tearing down becomes a bounded one.\<close>

lemma teardown_loop:
  assumes "I s" and "mm_halow_sched_teardown s" and "t \<noteq> 0"
  shows "\<exists>b s' s0. wait_loop env cond t st True s = Some (b, s') \<and> I s' \<and> cond s0 = (b, s') \<and> I s0
    \<and> mm_halow_wait_depth s0 = mm_halow_wait_depth s
    \<and> (\<not> b \<longrightarrow> time_ms s + 10000 \<le> time_ms s') \<and> time_ms s \<le> time_ms s'
    \<and> time_ms s' \<le> time_ms s + 10000 + 2 * M"
proof -
  obtain c s1 where c: "cond s = (c, s1)" by (cases "cond s")
  note k = cond_keeps [OF assms(1) c]
  show ?thesis
  proof (cases c)
    case True
    then have "wait_loop env cond t st True s = Some (c, s1)" using c by (subst wait_loop.simps) auto
    with c k True assms show ?thesis by (intro exI [of _ c] exI [of _ s1] exI [of _ s]) auto
  next
    case False
    let ?s2 = "irq env s1"
    have k2: "I ?s2" "time_ms s \<le> time_ms ?s2" "time_ms ?s2 \<le> time_ms s + M"
      "mm_halow_wait_depth ?s2 = mm_halow_wait_depth s" using irq_keeps [of s1] k by auto
    have td: "mm_halow_sched_teardown s1" using k assms(2) by simp
    have st: "mm_halow_ticks_ms s1 = of_nat (time_ms s)" using k by (simp add: mm_halow_ticks_ms_def)
    have el: "unat (mm_halow_ticks_ms ?s2 - of_nat (time_ms s)) = time_ms ?s2 - time_ms s"
      unfolding mm_halow_ticks_ms_def
      by (rule unat_diff_of_nat_u32) (use k2 M_bound in linarith)+
    show ?thesis
    proof (cases "time_ms ?s2 - time_ms s \<ge> 10000")
      case True
      then have "mm_halow_ticks_ms ?s2 - of_nat (time_ms s) \<ge> MM_HALOW_SCHED_WAIT_MAX_MS"
        using el by (simp add: word_le_nat_alt)
      then have "wait_loop env cond t st True s = Some (cond ?s2)"
        using c False td assms(3) by (subst wait_loop.simps) (simp add: Let_def st)
      moreover obtain b s3 where b: "cond ?s2 = (b, s3)" by (cases "cond ?s2")
      moreover note cond_keeps [OF k2(1) b]
      ultimately show ?thesis
        using k2 True by (intro exI [of _ b] exI [of _ s3] exI [of _ ?s2]) auto
    next
      case ge: False
      then have "\<not> mm_halow_ticks_ms ?s2 - of_nat (time_ms s) \<ge> MM_HALOW_SCHED_WAIT_MAX_MS"
        using el by (simp add: word_le_nat_alt)
      moreover obtain s3 where s3: "mm_halow_sched_park env True (of_nat (time_ms s) + MM_HALOW_SCHED_WAIT_MAX_MS) ?s2 = Some s3"
        "I s3" "mm_halow_wait_depth s3 = mm_halow_wait_depth ?s2" "time_ms s3 \<le> time_ms ?s2 + M"
        "time_ms ?s2 < time_ms s3 \<or> time_ms ?s2 = time_ms s3 \<and> idle s3 < idle ?s2"
        using park_returns [OF k2(1)] by blast
      ultimately have step: "wait_loop env cond t st True s
          = wait_loop env cond MM_HALOW_SCHED_WAIT_MAX_MS (of_nat (time_ms s)) False s3"
        using c False td assms(3) by (subst wait_loop.simps) (simp add: Let_def st)
      have "time_ms s \<le> time_ms s3" "time_ms s3 \<le> time_ms s + unat MM_HALOW_SCHED_WAIT_MAX_MS + M"
        using s3(4,5) k2 ge by auto
      from timed_loop [OF s3(2) this] obtain b s' s0 where
        r: "wait_loop env cond MM_HALOW_SCHED_WAIT_MAX_MS (of_nat (time_ms s)) False s3 = Some (b, s')"
          "I s'" "cond s0 = (b, s')" "I s0" "mm_halow_wait_depth s0 = mm_halow_wait_depth s3"
          "\<not> b \<longrightarrow> time_ms s + 10000 \<le> time_ms s'" "time_ms s3 \<le> time_ms s'"
          "time_ms s' \<le> time_ms s + 10000 + 2 * M" by auto
      then show ?thesis
        using step s3 k2 by (intro exI [of _ b] exI [of _ s'] exI [of _ s0]) auto
    qed
  qed
qed

text \<open>
  The whole wait, when it is bounded: a finite timeout, capped at ten seconds, or any
  timeout during teardown.
\<close>

lemma sched_wait_bounded:
  assumes "I s" and fin: "t \<noteq> UINT32_MAX \<or> mm_halow_sched_teardown s"
  defines "T \<equiv> min (unat t) 10000"
  shows "\<exists>b s' s0 s1. mm_halow_sched_wait env cond t s = Some (b, s') \<and> cond s0 = (b, s1) \<and> I s0
    \<and> s' = (let s2 = (if mm_halow_task_cur s = 0
                then s1\<lparr>mm_halow_wait_depth := mm_halow_wait_depth s\<rparr> else s1)
             in if b then mm_halow_sched_wake s2 else s2)
    \<and> mm_halow_wait_depth s0 = mm_halow_wait_depth s + (if mm_halow_task_cur s = 0 then 1 else 0)
    \<and> (\<not> b \<longrightarrow> time_ms s + T \<le> time_ms s') \<and> time_ms s \<le> time_ms s'
    \<and> time_ms s' \<le> time_ms s + T + 2 * M \<and> I s1
    \<and> (t = 0 \<longrightarrow> time_ms s' = time_ms s)"
proof -
  let ?n = "mm_halow_task_cur s = 0"
  let ?s1 = "if ?n then s\<lparr>mm_halow_wait_depth := mm_halow_wait_depth s + 1\<rparr> else s"
  let ?t = "if t > MM_HALOW_SCHED_WAIT_MAX_MS then MM_HALOW_SCHED_WAIT_MAX_MS else t"
  have I1: "I ?s1" using assms(1) I_depth by simp
  have tm: "time_ms ?s1 = time_ms s" "mm_halow_sched_teardown ?s1 = mm_halow_sched_teardown s"
    "mm_halow_wait_depth ?s1 = mm_halow_wait_depth s + (if ?n then 1 else 0)" by simp_all
  have T: "unat ?t = T" by (auto simp: T_def word_less_nat_alt)
  have tt: "(if t > MM_HALOW_SCHED_WAIT_MAX_MS \<and> (t \<noteq> UINT32_MAX \<or> mm_halow_sched_teardown s)
     then MM_HALOW_SCHED_WAIT_MAX_MS else t) = ?t" using fin by auto
  have "\<exists>b s' s0. wait_loop env cond ?t (of_nat (time_ms s)) (t = UINT32_MAX) ?s1 = Some (b, s')
    \<and> I s' \<and> cond s0 = (b, s') \<and> I s0 \<and> mm_halow_wait_depth s0 = mm_halow_wait_depth ?s1
    \<and> (\<not> b \<longrightarrow> time_ms s + T \<le> time_ms s') \<and> time_ms s \<le> time_ms s'
    \<and> time_ms s' \<le> time_ms s + T + 2 * M \<and> (t = 0 \<longrightarrow> s0 = ?s1)"
  proof (cases "t = UINT32_MAX")
    case True
    then have e: "?t = MM_HALOW_SCHED_WAIT_MAX_MS" "T = 10000" "t \<noteq> 0" using T by auto
    have td: "mm_halow_sched_teardown ?s1" using fin True tm by simp
    have "MM_HALOW_SCHED_WAIT_MAX_MS \<noteq> 0" by simp
    from teardown_loop [OF I1 td this, of "of_nat (time_ms s)"] show ?thesis
      unfolding e(1,2) tm(1) using True e(3) by simp
  next
    case False
    have "time_ms s \<le> time_ms ?s1" "time_ms ?s1 \<le> time_ms s + unat ?t + M" "unat ?t \<le> 10000"
      unfolding tm(1) T by (simp_all add: T_def)
    from timed_loop [OF I1 this] obtain b s' s0 where
      r: "wait_loop env cond ?t (of_nat (time_ms s)) False ?s1 = Some (b, s')" "I s'" "cond s0 = (b, s')"
        "I s0" "mm_halow_wait_depth s0 = mm_halow_wait_depth ?s1" "\<not> b \<longrightarrow> time_ms s + T \<le> time_ms s'"
        "time_ms s \<le> time_ms s'" "time_ms s' \<le> time_ms s + T + 2 * M" "?t = 0 \<longrightarrow> s0 = ?s1"
      unfolding tm(1) T by blast
    have "t = 0 \<longrightarrow> s0 = ?s1" using r(9) by simp
    moreover have "wait_loop env cond ?t (of_nat (time_ms s)) (t = UINT32_MAX) ?s1 = Some (b, s')"
      using r(1) False by simp
    ultimately show ?thesis using r(2-8) by blast
  qed
  then obtain b s1 s0 where r: "wait_loop env cond ?t (of_nat (time_ms s)) (t = UINT32_MAX) ?s1 = Some (b, s1)"
    "I s1" "cond s0 = (b, s1)" "I s0" "mm_halow_wait_depth s0 = mm_halow_wait_depth ?s1"
    "\<not> b \<longrightarrow> time_ms s + T \<le> time_ms s1" "time_ms s \<le> time_ms s1"
    "time_ms s1 \<le> time_ms s + T + 2 * M" "t = 0 \<longrightarrow> s0 = ?s1" by blast
  have d1: "mm_halow_wait_depth s1 = mm_halow_wait_depth s + (if ?n then 1 else 0)"
    using cond_keeps [OF r(4,3)] r(5) tm by simp
  let ?s2 = "if ?n then s1\<lparr>mm_halow_wait_depth := mm_halow_wait_depth s\<rparr> else s1"
  have dd: "mm_halow_wait_depth s1 - 1 = mm_halow_wait_depth s" if ?n using d1 that by simp
  have "mm_halow_sched_wait env cond t s = Some (b, if b then mm_halow_sched_wake ?s2 else ?s2)"
    unfolding mm_halow_sched_wait_def mm_halow_sched_task_current_def mm_halow_ticks_ms_def Let_def tt
    using r(1) dd by (simp split: if_split)
  moreover have "time_ms (if b then mm_halow_sched_wake ?s2 else ?s2) = time_ms s1"
    by (simp add: mm_halow_sched_wake_def)
  moreover have "t = 0 \<longrightarrow> time_ms s1 = time_ms s" using r(9) cond_keeps [OF r(4,3)] tm by auto
  moreover have "mm_halow_wait_depth s0 = mm_halow_wait_depth s + (if ?n then 1 else 0)"
    using r(5) tm(3) by simp
  ultimately show ?thesis
    using r(2-4,6-8)
    by (intro exI [of _ b] exI [of _ "if b then mm_halow_sched_wake ?s2 else ?s2"]
        exI [of _ s0] exI [of _ s1]) (simp only: Let_def simp_thms)
qed

end

section \<open>Waits without a limit\<close>

text \<open>
  A forever wait returns if somebody serves it: \<open>rank\<close> is how many parks away the
  condition is, at most.
\<close>

locale served_wait = wait_env +
  fixes rank :: "'a sched_st_scheme \<Rightarrow> nat"
  assumes served: "I s \<Longrightarrow> \<not> mm_halow_sched_teardown s \<Longrightarrow> cond s = (False, s1) \<Longrightarrow>
      mm_halow_sched_park env False 0 s1 = Some s' \<Longrightarrow> \<not> mm_halow_sched_teardown s' \<and> rank s' < rank s"
begin

lemma forever_loop:
  "I s \<Longrightarrow> \<not> mm_halow_sched_teardown s \<Longrightarrow> t \<noteq> 0 \<Longrightarrow>
     \<exists>s' s0. wait_loop env cond t st True s = Some (True, s') \<and> I s' \<and> cond s0 = (True, s') \<and> I s0
       \<and> mm_halow_wait_depth s0 = mm_halow_wait_depth s"
proof (induction "rank s" arbitrary: s rule: less_induct)
  case less
  obtain c s1 where c: "cond s = (c, s1)" by (cases "cond s")
  note k = cond_keeps [OF less.prems(1) c]
  show ?case
  proof (cases c)
    case True
    then have "wait_loop env cond t st True s = Some (True, s1)" using c by (subst wait_loop.simps) auto
    with c k True less.prems show ?thesis by (intro exI [of _ s1] exI [of _ s]) auto
  next
    case False
    obtain s2 where s2: "mm_halow_sched_park env False 0 s1 = Some s2" "I s2"
      "mm_halow_wait_depth s2 = mm_halow_wait_depth s1"
      using park_returns [of s1] k by blast
    have "\<not> mm_halow_sched_teardown s2" "rank s2 < rank s"
      using served [OF less.prems(1,2) _ s2(1)] c False by auto
    from less.hyps [OF this(2) s2(2) this(1) less.prems(3)] obtain s' s0 where
      "wait_loop env cond t st True s2 = Some (True, s')" "I s'" "cond s0 = (True, s')" "I s0"
      "mm_halow_wait_depth s0 = mm_halow_wait_depth s2" by blast
    moreover have "wait_loop env cond t st True s = wait_loop env cond t st True s2"
      using c False s2(1) k less.prems by (subst wait_loop.simps) (simp add: Let_def)
    ultimately show ?thesis using s2(3) k by auto
  qed
qed

end

lemma sched_wait_forever_served':
  assumes served: "served_wait env cond I idle M rank" and I: "I s" and td: "\<not> mm_halow_sched_teardown s"
  shows "\<exists>s' s0 s1. mm_halow_sched_wait env cond UINT32_MAX s = Some (True, s') \<and> cond s0 = (True, s1) \<and> I s0
    \<and> s' = mm_halow_sched_wake (if mm_halow_task_cur s = 0
                then s1\<lparr>mm_halow_wait_depth := mm_halow_wait_depth s\<rparr> else s1)"
proof -
  have env: "wait_env env cond I idle M" using served by (simp add: served_wait_def)
  let ?s1 = "if mm_halow_task_cur s = 0 then s\<lparr>mm_halow_wait_depth := mm_halow_wait_depth s + 1\<rparr> else s"
  have pre: "I ?s1" "\<not> mm_halow_sched_teardown ?s1"
    using I td wait_env.I_depth [OF env] by simp_all
  have "UINT32_MAX \<noteq> 0" by simp
  from served_wait.forever_loop [OF served pre this] obtain s1 s0 where
    r: "wait_loop env cond UINT32_MAX (mm_halow_ticks_ms s) True ?s1 = Some (True, s1)"
      "cond s0 = (True, s1)" "I s0" "mm_halow_wait_depth s0 = mm_halow_wait_depth ?s1" by blast
  have d: "mm_halow_wait_depth s1 = mm_halow_wait_depth ?s1"
    using wait_env.cond_keeps [OF env r(3,2)] r(4) by simp
  have "mm_halow_sched_wait env cond UINT32_MAX s = Some (True, mm_halow_sched_wake
      (if mm_halow_task_cur s = 0 then s1\<lparr>mm_halow_wait_depth := mm_halow_wait_depth s\<rparr> else s1))"
    using r(1) d td
    by (simp add: mm_halow_sched_wait_def mm_halow_sched_task_current_def Let_def split: if_split)
  with r(2,3) show ?thesis by blast
qed

section \<open>Sleeping\<close>

definition mm_halow_deadline_passed :: "u32 \<Rightarrow> 'a port_st_scheme \<Rightarrow> bool \<times> 'a port_st_scheme" where
  "mm_halow_deadline_passed deadline s = (tick_reached (mm_halow_ticks_ms s) deadline, s)"

definition mmosal_task_sleep ::
    "'a sched_st_scheme sched_env \<Rightarrow> u32 \<Rightarrow> 'a sched_st_scheme \<Rightarrow> 'a sched_st_scheme option" where
  "mmosal_task_sleep env duration_ms s =
     (if duration_ms = 0 then mm_halow_sched_yield env s
      else let deadline = mm_halow_ticks_ms s + duration_ms in
        map_option snd (mm_halow_sched_wait env (mm_halow_deadline_passed deadline) duration_ms s))"

text \<open>
  A task among others: whenever it gives up the processor, the rest of the system makes
  some change to the state, which may depend on everything, and comes back one
  millisecond later.
\<close>

definition rest_env :: "('a sched_st_scheme \<Rightarrow> 'a sched_st_scheme) \<Rightarrow> 'a sched_st_scheme sched_env" where
  "rest_env others =
     \<lparr>turn = (\<lambda>_. Some),
      switch = (\<lambda>s. Some ((others s)\<lparr>time_ms := time_ms s + 1, mm_halow_task_cur := mm_halow_task_cur s,
                            mm_halow_wait_depth := mm_halow_wait_depth s\<rparr>)),
      hook = (\<lambda>s. s), irq = (\<lambda>s. s)\<rparr>"

definition in_task :: "'a sched_st_scheme \<Rightarrow> bool" where
  "in_task s \<longleftrightarrow> mm_halow_task_cur s \<noteq> 0"

lemma rest_park:
  "in_task s \<Longrightarrow> \<exists>s'. mm_halow_sched_park (rest_env others) timed w s = Some s' \<and> in_task s'
     \<and> mm_halow_wait_depth s' = mm_halow_wait_depth s \<and> time_ms s' = time_ms s + 1"
  by (simp add: in_task_def mm_halow_sched_park_def rest_env_def Let_def)

text \<open>What a condition has to do to be waited on by a task among others.\<close>

lemma rest_wait_env:
  assumes "\<And>s b s'. cond s = (b, s') \<Longrightarrow> time_ms s' = time_ms s \<and> mm_halow_task_cur s' = mm_halow_task_cur s
      \<and> mm_halow_wait_depth s' = mm_halow_wait_depth s \<and> mm_halow_sched_teardown s' = mm_halow_sched_teardown s"
  shows "wait_env (rest_env others) cond in_task (\<lambda>_. 0) 1"
proof
  fix s :: "'a sched_st_scheme" and timed w
  assume "in_task s"
  from rest_park [OF this, of others timed w]
  show "\<exists>s'. mm_halow_sched_park (rest_env others) timed w s = Some s' \<and> in_task s'
      \<and> mm_halow_wait_depth s' = mm_halow_wait_depth s \<and> time_ms s' \<le> time_ms s + 1
      \<and> (time_ms s < time_ms s' \<or> time_ms s = time_ms s' \<and> 0 < (0 :: nat))" by auto
next
  fix s b s'
  assume "in_task s" "cond s = (b, s')"
  with assms show "in_task s' \<and> time_ms s' = time_ms s \<and> (0 :: nat) \<le> 0
      \<and> mm_halow_wait_depth s' = mm_halow_wait_depth s
      \<and> mm_halow_sched_teardown s' = mm_halow_sched_teardown s"
    by (simp add: in_task_def)
qed (simp_all add: in_task_def rest_env_def)

interpretation sleep: wait_env "rest_env others" "mm_halow_deadline_passed d" in_task "\<lambda>_. 0" 1
  for others :: "'a sched_st_scheme \<Rightarrow> 'a sched_st_scheme" and d
  by (rule rest_wait_env) (auto simp: mm_halow_deadline_passed_def)

section \<open>Properties\<close>

text \<open>
  C20: A bounded wait. In any environment where parking gives control back within M ms and
  time passes, a wait with a finite timeout (capped at 10 s), or any wait during teardown,
  returns. Its result is that of its last evaluation of the condition; it gives up only
  when the (capped) timeout has fully elapsed, and no later than two hand-overs after
  that; a timeout of zero takes no time. The wait depth is back to what it was, counted up
  while waiting outside task context, and a satisfied wait wakes the scheduler.
\<close>

theorem sched_wait_bounded_correct:
  assumes "wait_env env cond I idle M" and "I s"
    and "t \<noteq> UINT32_MAX \<or> mm_halow_sched_teardown s"
  shows "\<exists>b s' s0 s1. mm_halow_sched_wait env cond t s = Some (b, s') \<and> cond s0 = (b, s1) \<and> I s0
    \<and> s' = (let s2 = (if mm_halow_task_cur s = 0
                then s1\<lparr>mm_halow_wait_depth := mm_halow_wait_depth s\<rparr> else s1)
             in if b then mm_halow_sched_wake s2 else s2)
    \<and> mm_halow_wait_depth s0 = mm_halow_wait_depth s + (if mm_halow_task_cur s = 0 then 1 else 0)
    \<and> (\<not> b \<longrightarrow> time_ms s + min (unat t) 10000 \<le> time_ms s') \<and> time_ms s \<le> time_ms s'
    \<and> time_ms s' \<le> time_ms s + min (unat t) 10000 + 2 * M \<and> (t = 0 \<longrightarrow> time_ms s' = time_ms s)"
  using wait_env.sched_wait_bounded [OF assms] by blast

theorem sched_wait_bounded_correct_witness:
  "\<exists>b s'. mm_halow_sched_wait (rest_env (\<lambda>s. s)) (mm_halow_deadline_passed 3) 40 (sched0\<lparr>mm_halow_task_cur := 1\<rparr>)
     = Some (b, s') \<and> time_ms s' \<le> 42"
  using sched_wait_bounded_correct [OF sleep.wait_env_axioms, of "sched0\<lparr>mm_halow_task_cur := 1\<rparr>" 40 "\<lambda>s. s" 3]
  by (auto simp: in_task_def sched0_def)

text \<open>
  C21: A wait forever. If every park brings the condition closer and no teardown begins,
  a wait with MMOSAL_WAIT_FOREVER returns, and returns true: the promise that morselib
  asserts on is kept.
\<close>

theorem sched_wait_forever_served:
  assumes served: "served_wait env cond I idle M rank" and I: "I s" and td: "\<not> mm_halow_sched_teardown s"
  shows "\<exists>s' s0 s1. mm_halow_sched_wait env cond UINT32_MAX s = Some (True, s') \<and> cond s0 = (True, s1) \<and> I s0
    \<and> s' = mm_halow_sched_wake (if mm_halow_task_cur s = 0
                then s1\<lparr>mm_halow_wait_depth := mm_halow_wait_depth s\<rparr> else s1)"
  by (rule sched_wait_forever_served' [OF served I td])

text \<open>A flag that the rest of the system raises within one hand-over.\<close>

definition woken_flag :: "'a sched_st_scheme \<Rightarrow> bool \<times> 'a sched_st_scheme" where
  "woken_flag s = (mm_halow_sched_woken s, s)"

interpretation flag: served_wait "rest_env mm_halow_sched_wake" woken_flag in_task "\<lambda>_. 0" 1
    "\<lambda>s. if mm_halow_sched_woken s then 0 else 1"
proof (intro served_wait.intro served_wait_axioms.intro)
  show "wait_env (rest_env mm_halow_sched_wake) woken_flag in_task (\<lambda>_. 0) 1"
    by (rule rest_wait_env) (auto simp: woken_flag_def)
qed (auto simp: woken_flag_def in_task_def mm_halow_sched_park_def rest_env_def mm_halow_sched_wake_def)

theorem sched_wait_forever_served_witness:
  "\<exists>s'. mm_halow_sched_wait (rest_env mm_halow_sched_wake) woken_flag UINT32_MAX (sched0\<lparr>mm_halow_task_cur := 2\<rparr>)
     = Some (True, s')"
  using sched_wait_forever_served [OF flag.served_wait_axioms, of "sched0\<lparr>mm_halow_task_cur := 2\<rparr>"]
  by (auto simp: in_task_def sched0_def)

text \<open>Sleeping with a deadline that reads as ahead, and with one that reads as past.\<close>

lemma sleep_ahead:
  assumes "in_task s" and "unat d \<le> 2147483648"
  shows "\<exists>b s'. mm_halow_sched_wait (rest_env others) (mm_halow_deadline_passed (mm_halow_ticks_ms s + d)) d s = Some (b, s')
    \<and> time_ms s + min (unat d) 10000 \<le> time_ms s' \<and> time_ms s' \<le> time_ms s + min (unat d) 10000 + 2"
proof -
  let ?dl = "mm_halow_ticks_ms s + d"
  have dl: "?dl = of_nat (time_ms s + unat d)" by (simp add: mm_halow_ticks_ms_def)
  have cur: "mm_halow_task_cur s \<noteq> 0" using assms by (simp add: in_task_def)
  have "unat UINT32_MAX = 4294967295" by (simp add: unat_neg_u32)
  with assms(2) have "d \<noteq> UINT32_MAX \<or> mm_halow_sched_teardown s" by auto
  from sleep.sched_wait_bounded [OF assms(1) this, of others ?dl] obtain b s' s0 s1 where
    r: "mm_halow_sched_wait (rest_env others) (mm_halow_deadline_passed ?dl) d s = Some (b, s')"
      "mm_halow_deadline_passed ?dl s0 = (b, s1)"
      "s' = (let s2 = (if mm_halow_task_cur s = 0
              then s1\<lparr>mm_halow_wait_depth := mm_halow_wait_depth s\<rparr> else s1)
           in if b then mm_halow_sched_wake s2 else s2)"
      "\<not> b \<longrightarrow> time_ms s + min (unat d) 10000 \<le> time_ms s'" "time_ms s \<le> time_ms s'"
      "time_ms s' \<le> time_ms s + min (unat d) 10000 + 2 * 1" by blast
  have t0: "time_ms s' = time_ms s0"
    using r(2,3) cur by (simp add: mm_halow_deadline_passed_def Let_def split: if_splits)
  have "b \<longleftrightarrow> time_ms s + unat d \<le> time_ms s0"
  proof -
    have "b \<longleftrightarrow> tick_reached (mm_halow_ticks_ms s0) ?dl"
      using r(2) by (auto simp: mm_halow_deadline_passed_def)
    also have "\<dots> \<longleftrightarrow> time_ms s + unat d \<le> time_ms s0"
      by (subst dl, subst mm_halow_ticks_ms_def, rule tick_reached_of_nat) (use assms(2) r(5,6) t0 in linarith)+
    finally show ?thesis .
  qed
  with r(4) t0 have "time_ms s + min (unat d) 10000 \<le> time_ms s'" by auto
  then show ?thesis using r(1,6) by auto
qed

lemma sleep_past:
  assumes "in_task s" and "\<not> unat d \<le> 2147483648"
  shows "mm_halow_sched_wait (rest_env others) (mm_halow_deadline_passed (mm_halow_ticks_ms s + d)) d s
    = Some (True, mm_halow_sched_wake s)"
proof -
  let ?dl = "mm_halow_ticks_ms s + d"
  have cur: "mm_halow_task_cur s \<noteq> 0" using assms by (simp add: in_task_def)
  have "d \<noteq> 0" "unat (- d) < 2147483648" using assms(2) by (auto simp: unat_neg_u32)
  then have hit: "tick_reached (mm_halow_ticks_ms s) ?dl" by (simp add: tick_reached_iff)
  have "wait_loop (rest_env others) (mm_halow_deadline_passed ?dl) t st f s = Some (True, s)" for t st f
    using hit by (subst wait_loop.simps) (simp add: mm_halow_deadline_passed_def)
  then show ?thesis using cur by (simp add: mm_halow_sched_wait_def mm_halow_sched_task_current_def Let_def)
qed




end
