(* ===== verification/Halow_Osal.thy ===== *)
theory Halow_Osal
  imports Halow_Wait
begin

text \<open>
  The rest of the OS abstraction layer (mm_halow_osal.c): tasks and critical sections,
  mutexes, semaphores, queues, timers, and failure handling. Objects live at the address
  malloc gave them, each type in a memory of its own; queue items and the callers'
  buffers are bytes. Operations on a null pointer are the source's early returns.
\<close>

section \<open>State\<close>

record mmosal_mutex =
  m_owner :: nat
  m_taken_ms :: u32
  m_locked :: bool

record mmosal_sem =
  sem_count :: u32
  sem_max_count :: u32

record mmosal_queue =
  q_num_items :: u32
  q_item_size :: u32
  q_head :: u32
  q_tail :: u32
  q_count :: u32
  q_items :: ptr

record mmosal_timer =
  tm_next :: ptr
  tm_name :: string
  tm_period_ms :: u32
  tm_expires_at :: u32
  tm_auto_reload :: bool
  tm_active :: bool
  tm_arg :: u32
  tm_callback :: ptr

record mm_halow_fatal_record =
  fatal_magic :: u32
  fatal_pc :: u32
  fatal_lr :: u32
  fatal_fileid :: u32
  fatal_line :: u32
  fatal_ticks_ms :: u32

record osal_st = sched_st +
  mm_halow_critical_nesting :: u32
  mm_halow_critical_state :: bool
  mutexes :: "ptr \<Rightarrow> mmosal_mutex"
  sems :: "ptr \<Rightarrow> mmosal_sem"
  sembs :: "ptr \<Rightarrow> bool"
  queues :: "ptr \<Rightarrow> mmosal_queue"
  timers :: "ptr \<Rightarrow> mmosal_timer"
  mm_halow_timer_list :: ptr
  log_window_start :: u32
  log_lines :: u32
  log_dropped :: u32
  fatal_record :: mm_halow_fatal_record

section \<open>Teardown of the pool\<close>

definition mm_halow_osal_deinit :: "'a osal_st_scheme \<Rightarrow> 'a osal_st_scheme" where
  "mm_halow_osal_deinit s = heap_release (s\<lparr>mm_halow_timer_list := 0\<rparr>)"

section \<open>Allocation with a caller's name\<close>

definition mmosal_malloc_dbg :: "u32 \<Rightarrow> string \<Rightarrow> u32 \<Rightarrow> 'a osal_st_scheme \<Rightarrow> (ptr \<times> 'a osal_st_scheme) option" where
  "mmosal_malloc_dbg sz name line_number s = mmosal_malloc sz s"

definition mmosal_calloc_dbg ::
    "u32 \<Rightarrow> u32 \<Rightarrow> string \<Rightarrow> u32 \<Rightarrow> 'a osal_st_scheme \<Rightarrow> (ptr \<times> 'a osal_st_scheme) option" where
  "mmosal_calloc_dbg nitems sz name line_number s = mmosal_calloc nitems sz s"

definition mmosal_realloc_dbg ::
    "ptr \<Rightarrow> u32 \<Rightarrow> string \<Rightarrow> u32 \<Rightarrow> 'a osal_st_scheme \<Rightarrow> (ptr \<times> 'a osal_st_scheme) option" where
  "mmosal_realloc_dbg p sz name line_number s = mmosal_realloc p sz s"

section \<open>Tasks and critical sections\<close>

definition mmosal_task_create ::
    "ptr \<Rightarrow> u32 \<Rightarrow> u32 \<Rightarrow> u32 \<Rightarrow> string \<Rightarrow> 'a osal_st_scheme \<Rightarrow> (nat \<times> 'a osal_st_scheme) option" where
  "mmosal_task_create task_fn argument priority stack_size_u32 name s =
     mm_halow_sched_task_create task_fn argument stack_size_u32 name s"

definition mmosal_task_delete :: "nat \<Rightarrow> 'a osal_st_scheme \<Rightarrow> 'a osal_st_scheme" where
  "mmosal_task_delete task s = mm_halow_sched_task_delete task s"

definition mmosal_task_get_active :: "'a osal_st_scheme \<Rightarrow> nat" where
  "mmosal_task_get_active s = mm_halow_sched_task_current s"

definition mmosal_task_yield ::
    "'a osal_st_scheme sched_env \<Rightarrow> 'a osal_st_scheme \<Rightarrow> 'a osal_st_scheme option" where
  "mmosal_task_yield env s = mm_halow_sched_yield env s"

definition mmosal_task_enter_critical :: "'a osal_st_scheme \<Rightarrow> 'a osal_st_scheme" where
  "mmosal_task_enter_critical s =
     (let (state, s1) = begin_atomic s;
          s2 = s1\<lparr>mm_halow_critical_nesting := mm_halow_critical_nesting s1 + 1\<rparr>
      in if mm_halow_critical_nesting s1 = 0 then s2\<lparr>mm_halow_critical_state := state\<rparr> else s2)"

definition mm_halow_osal_in_critical :: "'a osal_st_scheme \<Rightarrow> bool" where
  "mm_halow_osal_in_critical s \<longleftrightarrow> mm_halow_critical_nesting s > 0"

definition mmosal_task_exit_critical :: "'a osal_st_scheme \<Rightarrow> 'a osal_st_scheme" where
  "mmosal_task_exit_critical s =
     (if mm_halow_critical_nesting s > 0 then
        let s1 = s\<lparr>mm_halow_critical_nesting := mm_halow_critical_nesting s - 1\<rparr> in
        if mm_halow_critical_nesting s1 = 0 then end_atomic (mm_halow_critical_state s1) s1 else s1
      else s)"

definition mmosal_disable_interrupts :: "'a osal_st_scheme \<Rightarrow> 'a osal_st_scheme" where
  "mmosal_disable_interrupts s = mmosal_task_enter_critical s"

definition mmosal_enable_interrupts :: "'a osal_st_scheme \<Rightarrow> 'a osal_st_scheme" where
  "mmosal_enable_interrupts s = mmosal_task_exit_critical s"

definition mmosal_task_name :: "'a osal_st_scheme \<Rightarrow> string" where
  "mmosal_task_name s =
     (let task = mm_halow_sched_task_current s in
      if task \<noteq> 0 then t_name (mm_halow_tasks s task) else ''main'')"

definition mm_halow_task_is_dead :: "nat \<Rightarrow> 'a osal_st_scheme \<Rightarrow> bool \<times> 'a osal_st_scheme" where
  "mm_halow_task_is_dead task s = (t_state (mm_halow_tasks s task) = MM_HALOW_TASK_DEAD, s)"

definition mmosal_task_join ::
    "'a osal_st_scheme sched_env \<Rightarrow> nat \<Rightarrow> 'a osal_st_scheme \<Rightarrow> 'a osal_st_scheme option" where
  "mmosal_task_join env task s =
     map_option snd (mm_halow_sched_wait env (mm_halow_task_is_dead task) UINT32_MAX s)"

definition mm_halow_task_notified :: "nat \<Rightarrow> 'a osal_st_scheme \<Rightarrow> bool \<times> 'a osal_st_scheme" where
  "mm_halow_task_notified task s = atomically (\<lambda>s.
     if t_notify (mm_halow_tasks s task) \<noteq> 0
     then (True, upd_task task (\<lambda>t. t\<lparr>t_notify := t_notify t - 1\<rparr>) s) else (False, s)) s"

definition mmosal_task_wait_for_notification ::
    "'a osal_st_scheme sched_env \<Rightarrow> u32 \<Rightarrow> 'a osal_st_scheme \<Rightarrow> (bool \<times> 'a osal_st_scheme) option" where
  "mmosal_task_wait_for_notification env timeout_ms s =
     (let task = mm_halow_sched_task_current s in
      if task = 0 then Some (False, s)
      else mm_halow_sched_wait env (mm_halow_task_notified task) timeout_ms s)"

definition mmosal_task_notify :: "nat \<Rightarrow> 'a osal_st_scheme \<Rightarrow> 'a osal_st_scheme" where
  "mmosal_task_notify task s =
     (if task = 0 then s
      else mm_halow_sched_wake (snd (atomically
             (\<lambda>s. ((), upd_task task (\<lambda>t. t\<lparr>t_notify := t_notify t + 1\<rparr>) s)) s)))"

definition mmosal_task_notify_from_isr :: "nat \<Rightarrow> 'a osal_st_scheme \<Rightarrow> 'a osal_st_scheme" where
  "mmosal_task_notify_from_isr task s = mmosal_task_notify task s"

section \<open>Mutexes\<close>

definition mmosal_mutex_create :: "string \<Rightarrow> 'a osal_st_scheme \<Rightarrow> (ptr \<times> 'a osal_st_scheme) option" where
  "mmosal_mutex_create name s = do {
     (mutex, s1) \<leftarrow> mm_halow_osal_malloc 12 s;
     Some (mutex, if mutex \<noteq> 0
       then s1\<lparr>mutexes := (mutexes s1)(mutex := (mutexes s1 mutex)\<lparr>m_owner := 0, m_locked := False\<rparr>)\<rparr>
       else s1)
   }"

definition mmosal_mutex_delete :: "ptr \<Rightarrow> 'a osal_st_scheme \<Rightarrow> 'a osal_st_scheme option" where
  "mmosal_mutex_delete mutex s = mm_halow_osal_free mutex s"

definition mm_halow_mutex_acquired :: "ptr \<Rightarrow> 'a osal_st_scheme \<Rightarrow> bool \<times> 'a osal_st_scheme" where
  "mm_halow_mutex_acquired mutex s = atomically (\<lambda>s.
     if \<not> m_locked (mutexes s mutex)
     then (True, s\<lparr>mutexes := (mutexes s)(mutex :=
            \<lparr>m_owner = mm_halow_sched_task_current s, m_taken_ms = mm_halow_ticks_ms s, m_locked = True\<rparr>)\<rparr>)
     else (False, s)) s"

definition mmosal_mutex_get ::
    "'a osal_st_scheme sched_env \<Rightarrow> ptr \<Rightarrow> u32 \<Rightarrow> 'a osal_st_scheme \<Rightarrow> (bool \<times> 'a osal_st_scheme) option" where
  "mmosal_mutex_get env mutex timeout_ms s =
     (if mutex = 0 then Some (False, s)
      else if timeout_ms = UINT32_MAX then do {
        (got, s1) \<leftarrow> mm_halow_sched_wait env (mm_halow_mutex_acquired mutex) 9000 s;
        if got then Some (True, s1)
        else let owner = m_owner (mutexes s1 mutex) in
          mm_halow_sched_wait env (mm_halow_mutex_acquired mutex) timeout_ms
            (emit (Ev_mutex_slow mutex owner
                     (if owner \<noteq> 0 then t_state (mm_halow_tasks s1 owner) else 0)
                     (mm_halow_ticks_ms s1 - m_taken_ms (mutexes s1 mutex))) s1)
      }
      else mm_halow_sched_wait env (mm_halow_mutex_acquired mutex) timeout_ms s)"

definition mmosal_mutex_release :: "ptr \<Rightarrow> 'a osal_st_scheme \<Rightarrow> bool \<times> 'a osal_st_scheme" where
  "mmosal_mutex_release mutex s =
     (if mutex = 0 then (False, s)
      else (True, mm_halow_sched_wake (s\<lparr>mutexes := (mutexes s)(mutex :=
              (mutexes s mutex)\<lparr>m_owner := 0, m_locked := False\<rparr>)\<rparr>)))"

definition mmosal_mutex_is_held_by_active_task :: "ptr \<Rightarrow> 'a osal_st_scheme \<Rightarrow> bool" where
  "mmosal_mutex_is_held_by_active_task mutex s \<longleftrightarrow>
     mutex \<noteq> 0 \<and> m_locked (mutexes s mutex)
     \<and> m_owner (mutexes s mutex) = mm_halow_sched_task_current s"

section \<open>Semaphores\<close>

definition mmosal_sem_create ::
    "u32 \<Rightarrow> u32 \<Rightarrow> string \<Rightarrow> 'a osal_st_scheme \<Rightarrow> (ptr \<times> 'a osal_st_scheme) option" where
  "mmosal_sem_create max_count initial_count name s = do {
     (sem, s1) \<leftarrow> mm_halow_osal_malloc 8 s;
     Some (sem, if sem \<noteq> 0
       then s1\<lparr>sems := (sems s1)(sem := \<lparr>sem_count = initial_count, sem_max_count = max_count\<rparr>)\<rparr>
       else s1)
   }"

definition mmosal_sem_delete :: "ptr \<Rightarrow> 'a osal_st_scheme \<Rightarrow> 'a osal_st_scheme option" where
  "mmosal_sem_delete sem s = mm_halow_osal_free sem s"

definition mmosal_sem_give :: "ptr \<Rightarrow> 'a osal_st_scheme \<Rightarrow> bool \<times> 'a osal_st_scheme" where
  "mmosal_sem_give sem s =
     (if sem = 0 then (False, s)
      else let (given, s1) = atomically (\<lambda>s.
                 if sem_count (sems s sem) < sem_max_count (sems s sem)
                 then (True, s\<lparr>sems := (sems s)(sem := (sems s sem)\<lparr>sem_count := sem_count (sems s sem) + 1\<rparr>)\<rparr>)
                 else (False, s)) s
           in (given, if given then mm_halow_sched_wake s1 else s1))"

definition mmosal_sem_give_from_isr :: "ptr \<Rightarrow> 'a osal_st_scheme \<Rightarrow> bool \<times> 'a osal_st_scheme" where
  "mmosal_sem_give_from_isr sem s = mmosal_sem_give sem s"

definition mm_halow_sem_taken :: "ptr \<Rightarrow> 'a osal_st_scheme \<Rightarrow> bool \<times> 'a osal_st_scheme" where
  "mm_halow_sem_taken sem s = atomically (\<lambda>s.
     if sem_count (sems s sem) > 0
     then (True, s\<lparr>sems := (sems s)(sem := (sems s sem)\<lparr>sem_count := sem_count (sems s sem) - 1\<rparr>)\<rparr>)
     else (False, s)) s"

definition mmosal_sem_wait ::
    "'a osal_st_scheme sched_env \<Rightarrow> ptr \<Rightarrow> u32 \<Rightarrow> 'a osal_st_scheme \<Rightarrow> (bool \<times> 'a osal_st_scheme) option" where
  "mmosal_sem_wait env sem timeout_ms s =
     (if sem = 0 then Some (False, s)
      else mm_halow_sched_wait env (mm_halow_sem_taken sem) timeout_ms s)"

definition mmosal_sem_get_count :: "ptr \<Rightarrow> 'a osal_st_scheme \<Rightarrow> u32" where
  "mmosal_sem_get_count sem s = (if sem \<noteq> 0 then sem_count (sems s sem) else 0)"

section \<open>Binary semaphores\<close>

definition mmosal_semb_create :: "string \<Rightarrow> 'a osal_st_scheme \<Rightarrow> (ptr \<times> 'a osal_st_scheme) option" where
  "mmosal_semb_create name s = do {
     (semb, s1) \<leftarrow> mm_halow_osal_malloc 1 s;
     Some (semb, if semb \<noteq> 0 then s1\<lparr>sembs := (sembs s1)(semb := False)\<rparr> else s1)
   }"

definition mmosal_semb_delete :: "ptr \<Rightarrow> 'a osal_st_scheme \<Rightarrow> 'a osal_st_scheme option" where
  "mmosal_semb_delete semb s = mm_halow_osal_free semb s"

definition mmosal_semb_give :: "ptr \<Rightarrow> 'a osal_st_scheme \<Rightarrow> bool \<times> 'a osal_st_scheme" where
  "mmosal_semb_give semb s =
     (if semb = 0 then (False, s)
      else (True, mm_halow_sched_wake (s\<lparr>sembs := (sembs s)(semb := True)\<rparr>)))"

definition mmosal_semb_give_from_isr :: "ptr \<Rightarrow> 'a osal_st_scheme \<Rightarrow> bool \<times> 'a osal_st_scheme" where
  "mmosal_semb_give_from_isr semb s = mmosal_semb_give semb s"

definition mm_halow_semb_taken :: "ptr \<Rightarrow> 'a osal_st_scheme \<Rightarrow> bool \<times> 'a osal_st_scheme" where
  "mm_halow_semb_taken semb s = atomically (\<lambda>s.
     (sembs s semb, s\<lparr>sembs := (sembs s)(semb := False)\<rparr>)) s"

definition mmosal_semb_wait ::
    "'a osal_st_scheme sched_env \<Rightarrow> ptr \<Rightarrow> u32 \<Rightarrow> 'a osal_st_scheme \<Rightarrow> (bool \<times> 'a osal_st_scheme) option" where
  "mmosal_semb_wait env semb timeout_ms s =
     (if semb = 0 then Some (False, s)
      else mm_halow_sched_wait env (mm_halow_semb_taken semb) timeout_ms s)"

section \<open>Queues\<close>

text \<open>The queue header is 24 bytes; the ring of items follows it in the same block.\<close>

abbreviation QUEUE_HDR :: u32 where "QUEUE_HDR \<equiv> 24"

definition mmosal_queue_create ::
    "u32 \<Rightarrow> u32 \<Rightarrow> string \<Rightarrow> 'a osal_st_scheme \<Rightarrow> (ptr \<times> 'a osal_st_scheme) option" where
  "mmosal_queue_create num_items item_size name s =
     (if item_size \<noteq> 0 \<and> num_items > (- 1 - QUEUE_HDR) div item_size then Some (0, s)
      else do {
        (queue, s1) \<leftarrow> mm_halow_osal_malloc (QUEUE_HDR + num_items * item_size) s;
        Some (queue, if queue \<noteq> 0
          then s1\<lparr>queues := (queues s1)(queue := \<lparr>q_num_items = num_items, q_item_size = item_size,
                   q_head = 0, q_tail = 0, q_count = 0, q_items = queue + QUEUE_HDR\<rparr>)\<rparr>
          else s1)
      })"

definition mmosal_queue_delete :: "ptr \<Rightarrow> 'a osal_st_scheme \<Rightarrow> 'a osal_st_scheme option" where
  "mmosal_queue_delete queue s = mm_halow_osal_free queue s"

definition mmosal_queue_pop_from_isr :: "ptr \<Rightarrow> ptr \<Rightarrow> 'a osal_st_scheme \<Rightarrow> bool \<times> 'a osal_st_scheme" where
  "mmosal_queue_pop_from_isr queue item s =
     (if queue = 0 then (False, s)
      else let (popped, s1) = atomically (\<lambda>s.
                 let q = queues s queue in
                 if q_count q > 0
                 then (True, s\<lparr>
                   bytes := memcpy item (q_items q + q_head q * q_item_size q) (q_item_size q) (bytes s),
                   queues := (queues s)(queue := q\<lparr>q_head := (q_head q + 1) mod q_num_items q,
                                                   q_count := q_count q - 1\<rparr>)\<rparr>)
                 else (False, s)) s
           in (popped, if popped then mm_halow_sched_wake s1 else s1))"

definition mmosal_queue_push_from_isr :: "ptr \<Rightarrow> ptr \<Rightarrow> 'a osal_st_scheme \<Rightarrow> bool \<times> 'a osal_st_scheme" where
  "mmosal_queue_push_from_isr queue item s =
     (if queue = 0 then (False, s)
      else let (pushed, s1) = atomically (\<lambda>s.
                 let q = queues s queue in
                 if q_count q < q_num_items q
                 then (True, s\<lparr>
                   bytes := memcpy (q_items q + q_tail q * q_item_size q) item (q_item_size q) (bytes s),
                   queues := (queues s)(queue := q\<lparr>q_tail := (q_tail q + 1) mod q_num_items q,
                                                   q_count := q_count q + 1\<rparr>)\<rparr>)
                 else (False, s)) s
           in (pushed, if pushed then mm_halow_sched_wake s1 else s1))"

definition mm_halow_queue_popped :: "ptr \<times> ptr \<Rightarrow> 'a osal_st_scheme \<Rightarrow> bool \<times> 'a osal_st_scheme" where
  "mm_halow_queue_popped op s = mmosal_queue_pop_from_isr (fst op) (snd op) s"

definition mm_halow_queue_pushed :: "ptr \<times> ptr \<Rightarrow> 'a osal_st_scheme \<Rightarrow> bool \<times> 'a osal_st_scheme" where
  "mm_halow_queue_pushed op s = mmosal_queue_push_from_isr (fst op) (snd op) s"

definition mmosal_queue_pop ::
    "'a osal_st_scheme sched_env \<Rightarrow> ptr \<Rightarrow> ptr \<Rightarrow> u32 \<Rightarrow> 'a osal_st_scheme \<Rightarrow> (bool \<times> 'a osal_st_scheme) option" where
  "mmosal_queue_pop env queue item timeout_ms s =
     mm_halow_sched_wait env (mm_halow_queue_popped (queue, item)) timeout_ms s"

definition mmosal_queue_push ::
    "'a osal_st_scheme sched_env \<Rightarrow> ptr \<Rightarrow> ptr \<Rightarrow> u32 \<Rightarrow> 'a osal_st_scheme \<Rightarrow> (bool \<times> 'a osal_st_scheme) option" where
  "mmosal_queue_push env queue item timeout_ms s =
     mm_halow_sched_wait env (mm_halow_queue_pushed (queue, item)) timeout_ms s"

section \<open>Time\<close>

definition mmosal_get_time_ms :: "'a osal_st_scheme \<Rightarrow> u32" where
  "mmosal_get_time_ms s = mm_halow_ticks_ms s"

definition mmosal_get_time_ticks :: "'a osal_st_scheme \<Rightarrow> u32" where
  "mmosal_get_time_ticks s = mm_halow_ticks_ms s"

definition mmosal_ticks_per_second :: u32 where
  "mmosal_ticks_per_second = 1000"

section \<open>Timers\<close>

definition upd_timer :: "ptr \<Rightarrow> (mmosal_timer \<Rightarrow> mmosal_timer) \<Rightarrow> 'a osal_st_scheme \<Rightarrow> 'a osal_st_scheme" where
  "upd_timer t f s = s\<lparr>timers := (timers s)(t := f (timers s t))\<rparr>"

definition mmosal_timer_create ::
    "string \<Rightarrow> u32 \<Rightarrow> bool \<Rightarrow> u32 \<Rightarrow> ptr \<Rightarrow> 'a osal_st_scheme \<Rightarrow> (ptr \<times> 'a osal_st_scheme) option" where
  "mmosal_timer_create name timer_period_ms auto_reload arg callback s = do {
     (timer, s1) \<leftarrow> mm_halow_osal_malloc 28 s;
     if timer = 0 then Some (0, s1)
     else let s2 = upd_timer timer (\<lambda>t. t\<lparr>tm_name := name, tm_period_ms := timer_period_ms,
                tm_expires_at := 0, tm_auto_reload := auto_reload, tm_active := False,
                tm_arg := arg, tm_callback := callback\<rparr>) s1
          in Some (timer, snd (atomically (\<lambda>s. ((),
               (upd_timer timer (\<lambda>t. t\<lparr>tm_next := mm_halow_timer_list s\<rparr>) s)
               \<lparr>mm_halow_timer_list := timer\<rparr>)) s2))
   }"

text \<open>Unlinking: \<open>prev\<close> is the node whose next field is looked at, 0 for the list head.\<close>

partial_function (option) timer_unlink ::
    "ptr \<Rightarrow> ptr \<Rightarrow> 'a osal_st_scheme \<Rightarrow> 'a osal_st_scheme option" where
  "timer_unlink timer prev s =
     (let cur = (if prev = 0 then mm_halow_timer_list s else tm_next (timers s prev)) in
      if cur = 0 then Some s
      else if cur = timer then
        Some (if prev = 0 then s\<lparr>mm_halow_timer_list := tm_next (timers s timer)\<rparr>
              else upd_timer prev (\<lambda>t. t\<lparr>tm_next := tm_next (timers s timer)\<rparr>) s)
      else timer_unlink timer cur s)"

definition mmosal_timer_delete :: "ptr \<Rightarrow> 'a osal_st_scheme \<Rightarrow> 'a osal_st_scheme option" where
  "mmosal_timer_delete timer s =
     (if timer = 0 then Some s
      else do {
        let (atomic_state, s1) = begin_atomic s;
        s2 \<leftarrow> timer_unlink timer 0 s1;
        mm_halow_osal_free timer (end_atomic atomic_state s2)
      })"

definition mmosal_timer_start :: "ptr \<Rightarrow> 'a osal_st_scheme \<Rightarrow> bool \<times> 'a osal_st_scheme" where
  "mmosal_timer_start timer s =
     (if timer = 0 then (False, s)
      else (True, upd_timer timer (\<lambda>t. t\<lparr>tm_expires_at := mm_halow_ticks_ms s + tm_period_ms t,
                                          tm_active := True\<rparr>) s))"

definition mmosal_timer_stop :: "ptr \<Rightarrow> 'a osal_st_scheme \<Rightarrow> bool \<times> 'a osal_st_scheme" where
  "mmosal_timer_stop timer s =
     (if timer = 0 then (False, s) else (True, upd_timer timer (\<lambda>t. t\<lparr>tm_active := False\<rparr>) s))"

definition mmosal_timer_change_period :: "ptr \<Rightarrow> u32 \<Rightarrow> 'a osal_st_scheme \<Rightarrow> bool \<times> 'a osal_st_scheme" where
  "mmosal_timer_change_period timer new_period s =
     (if timer = 0 then (False, s)
      else let s1 = upd_timer timer (\<lambda>t. t\<lparr>tm_period_ms := new_period\<rparr>) s in
        (True, if tm_active (timers s1 timer)
               then upd_timer timer (\<lambda>t. t\<lparr>tm_expires_at := mm_halow_ticks_ms s + new_period\<rparr>) s1
               else s1))"

definition mmosal_timer_get_arg :: "ptr \<Rightarrow> 'a osal_st_scheme \<Rightarrow> u32" where
  "mmosal_timer_get_arg timer s = (if timer \<noteq> 0 then tm_arg (timers s timer) else 0)"

definition mmosal_is_timer_active :: "ptr \<Rightarrow> 'a osal_st_scheme \<Rightarrow> bool" where
  "mmosal_is_timer_active timer s \<longleftrightarrow> timer \<noteq> 0 \<and> tm_active (timers s timer)"

partial_function (option) timer_pending_from ::
    "(ptr \<Rightarrow> mmosal_timer) \<Rightarrow> u32 \<Rightarrow> ptr \<Rightarrow> bool option" where
  "timer_pending_from m now timer =
     (if timer = 0 then Some False
      else if tm_active (m timer) \<and> tick_reached now (tm_expires_at (m timer)) then Some True
      else timer_pending_from m now (tm_next (m timer)))"

definition mm_halow_osal_timer_pending :: "'a osal_st_scheme \<Rightarrow> bool option" where
  "mm_halow_osal_timer_pending s =
     timer_pending_from (timers s) (mm_halow_ticks_ms s) (mm_halow_timer_list s)"

text \<open>
  One poll. \<open>callback cb timer\<close> is the timer's callback, code of the vendor library: any
  effect on the driver's state. The next pointer is read before it runs.
\<close>

definition timer_fire :: "u32 \<Rightarrow> ptr \<Rightarrow> 'a osal_st_scheme \<Rightarrow> 'a osal_st_scheme" where
  "timer_fire now timer s =
     (if tm_auto_reload (timers s timer)
      then upd_timer timer (\<lambda>t. t\<lparr>tm_expires_at := now + tm_period_ms t\<rparr>) s
      else upd_timer timer (\<lambda>t. t\<lparr>tm_active := False\<rparr>) s)"

partial_function (option) timer_poll_from ::
    "(ptr \<Rightarrow> ptr \<Rightarrow> 'a osal_st_scheme \<Rightarrow> 'a osal_st_scheme option) \<Rightarrow> u32 \<Rightarrow> ptr \<Rightarrow>
     'a osal_st_scheme \<Rightarrow> 'a osal_st_scheme option" where
  "timer_poll_from callback now timer s =
     (if timer = 0 then Some s
      else if tm_active (timers s timer) \<and> tick_reached now (tm_expires_at (timers s timer))
      then Option.bind (callback (tm_callback (timers s timer)) timer
                (emit (Ev_callback timer) (timer_fire now timer s)))
             (\<lambda>s1. timer_poll_from callback now (tm_next (timers s timer)) (mm_halow_sched_wake s1))
      else timer_poll_from callback now (tm_next (timers s timer)) s)"

definition mm_halow_osal_timer_poll ::
    "(ptr \<Rightarrow> ptr \<Rightarrow> 'a osal_st_scheme \<Rightarrow> 'a osal_st_scheme option) \<Rightarrow> 'a osal_st_scheme \<Rightarrow>
     'a osal_st_scheme option" where
  "mm_halow_osal_timer_poll callback s =
     timer_poll_from callback (mm_halow_ticks_ms s) (mm_halow_timer_list s) s"

section \<open>Logging and failure handling\<close>

abbreviation MM_HALOW_LOG_LINES_PER_S :: u32 where "MM_HALOW_LOG_LINES_PER_S \<equiv> 20"
abbreviation MM_HALOW_FATAL_MAGIC :: u32 where "MM_HALOW_FATAL_MAGIC \<equiv> 0x48464154"

text \<open>\<open>vprintf_ret\<close> is what the host's MM_HALOW_VPRINTF returns for this line.\<close>

definition mmosal_printf :: "int \<Rightarrow> 'a osal_st_scheme \<Rightarrow> int \<times> 'a osal_st_scheme" where
  "mmosal_printf vprintf_ret s =
     (let now = mm_halow_ticks_ms s;
          s1 = (if now - log_window_start s \<ge> 1000
                then (if log_dropped s \<noteq> 0 then emit (Ev_dropped (log_dropped s)) s else s)
                     \<lparr>log_window_start := now, log_lines := 0, log_dropped := 0\<rparr>
                else s);
          s2 = s1\<lparr>log_lines := log_lines s1 + 1\<rparr>
      in if log_lines s2 > MM_HALOW_LOG_LINES_PER_S
         then (0, s2\<lparr>log_dropped := log_dropped s2 + 1\<rparr>)
         else (vprintf_ret, emit Ev_log s2))"

record mmosal_failure_info =
  info_pc :: u32
  info_lr :: u32
  info_fileid :: u32
  info_line :: u32

definition mmosal_log_failure_info :: "mmosal_failure_info \<Rightarrow> 'a osal_st_scheme \<Rightarrow> 'a osal_st_scheme" where
  "mmosal_log_failure_info info s =
     emit (Ev_failure (info_pc info) (info_lr info) (info_fileid info) (info_line info))
       (s\<lparr>fatal_record := \<lparr>fatal_magic = MM_HALOW_FATAL_MAGIC, fatal_pc = info_pc info,
            fatal_lr = info_lr info, fatal_fileid = info_fileid info, fatal_line = info_line info,
            fatal_ticks_ms = mm_halow_ticks_ms s\<rparr>\<rparr>)"

text \<open>The failure count is written through a pointer that may be null.\<close>

definition mmosal_extract_failure_info :: "u32 option \<Rightarrow> bool \<times> u32 option" where
  "mmosal_extract_failure_info failure_count = (False, map_option (\<lambda>_. 0) failure_count)"

definition mmosal_main :: "ptr \<Rightarrow> int" where
  "mmosal_main app_init_cb = - 1"

text \<open>A failed assertion: the port's handler, and should that return, a loop without end.\<close>

partial_function (option) assert_spin :: "'s \<Rightarrow> 's option" where
  "assert_spin s = assert_spin s"

definition mmosal_impl_assert :: "('s \<Rightarrow> 's option) \<Rightarrow> 's \<Rightarrow> 's option" where
  "mmosal_impl_assert assert_fail s = Option.bind (assert_fail s) assert_spin"

lemma impl_assert_never_returns: "mmosal_impl_assert assert_fail s = None"
proof -
  have "False" if "assert_spin t = Some t'" for t t'
    by (rule assert_spin.raw_induct [where P = "\<lambda>_ _. False", OF _ that])
  then have "assert_spin t = None" for t by (cases "assert_spin t") auto
  then show ?thesis by (cases "assert_fail s") (simp_all add: mmosal_impl_assert_def)
qed

end
