(* ===== verification/Halow_Sync.thy ===== *)
theory Halow_Sync
  imports Halow_Osal
begin

text \<open>
  Critical sections, notifications, mutexes and semaphores: the equations of their
  operations with the atomic bracket worked out, the waits on them as interpretations of
  \<open>wait_env\<close>, and their properties.
\<close>

section \<open>A concrete state for the witnesses\<close>

definition osal0 :: osal_st where
  "osal0 = \<lparr>time_ms = 0, irq_ctx = False, irq_off = False, trace = [],
     mm_halow_heap_head = 536870912, mm_halow_heap_mem = 536870912,
     blk = (\<lambda>_. \<lparr>b_next = 0, b_size = 98288, b_used = False\<rparr>), bytes = (\<lambda>_. 0),
     mm_halow_tasks = (\<lambda>_. task0), mm_halow_task_list = 0, mm_halow_task_cur = 1,
     mm_halow_sched_woken = False, mm_halow_sched_wake_at = 0, mm_halow_sched_running = False,
     mm_halow_service_owner = 0, mm_halow_service_depth = 0, mm_halow_sched_deadline = 0,
     mm_halow_sched_in_callback = False, mm_halow_wait_depth = 0, mm_halow_sched_teardown = False,
     words = (\<lambda>_. 0), trampoline_addr = 134217729,
     mm_halow_critical_nesting = 0, mm_halow_critical_state = False,
     mutexes = (\<lambda>_. \<lparr>m_owner = 0, m_taken_ms = 0, m_locked = False\<rparr>),
     sems = (\<lambda>_. \<lparr>sem_count = 0, sem_max_count = 2\<rparr>), sembs = (\<lambda>_. False),
     queues = (\<lambda>_. \<lparr>q_num_items = 2, q_item_size = 4, q_head = 0, q_tail = 0, q_count = 0, q_items = 1024\<rparr>),
     timers = (\<lambda>_. \<lparr>tm_next = 0, tm_name = [], tm_period_ms = 0, tm_expires_at = 0,
       tm_auto_reload = False, tm_active = False, tm_arg = 0, tm_callback = 0\<rparr>),
     mm_halow_timer_list = 0, log_window_start = 0, log_lines = 0, log_dropped = 0,
     fatal_record = \<lparr>fatal_magic = 0, fatal_pc = 0, fatal_lr = 0, fatal_fileid = 0,
       fatal_line = 0, fatal_ticks_ms = 0\<rparr>\<rparr>"

lemma osal0_simps [simp]:
  "time_ms osal0 = 0" "irq_off osal0 = False" "trace osal0 = []" "mm_halow_task_cur osal0 = 1"
  "mm_halow_tasks osal0 p = task0" "mm_halow_critical_nesting osal0 = 0"
  "mm_halow_sched_teardown osal0 = False" "mm_halow_wait_depth osal0 = 0"
  "mutexes osal0 m = \<lparr>m_owner = 0, m_taken_ms = 0, m_locked = False\<rparr>"
  "sems osal0 m = \<lparr>sem_count = 0, sem_max_count = 2\<rparr>" "sembs osal0 m = False"
  "queues osal0 m = \<lparr>q_num_items = 2, q_item_size = 4, q_head = 0, q_tail = 0, q_count = 0, q_items = 1024\<rparr>"
  "timers osal0 m = \<lparr>tm_next = 0, tm_name = [], tm_period_ms = 0, tm_expires_at = 0,
     tm_auto_reload = False, tm_active = False, tm_arg = 0, tm_callback = 0\<rparr>"
  "mm_halow_timer_list osal0 = 0" "log_window_start osal0 = 0" "log_lines osal0 = 0" "log_dropped osal0 = 0"
  "in_task osal0"
  by (simp_all add: osal0_def in_task_def)

lemma osal0_live: "heap_live osal0 {}"
proof -
  have "heap_rep osal0 [(98288, False)]" by (simp add: heap_rep_def osal0_def)
  then show ?thesis by (auto simp: heap_live_def live_def)
qed

section \<open>The operations without their brackets\<close>

lemma task_notified_eq:
  "mm_halow_task_notified p s =
     (if t_notify (mm_halow_tasks s p) \<noteq> 0 then (True, upd_task p (\<lambda>t. t\<lparr>t_notify := t_notify t - 1\<rparr>) s)
      else (False, s))"
  by (simp add: mm_halow_task_notified_def atomic_defs upd_task_def)

lemma task_notify_eq:
  "mmosal_task_notify p s =
     (if p = 0 then s else mm_halow_sched_wake (upd_task p (\<lambda>t. t\<lparr>t_notify := t_notify t + 1\<rparr>) s))"
  by (simp add: mmosal_task_notify_def atomic_defs upd_task_def mm_halow_sched_wake_def)

lemma mutex_acquired_eq:
  "mm_halow_mutex_acquired m s =
     (if \<not> m_locked (mutexes s m)
      then (True, s\<lparr>mutexes := (mutexes s)(m :=
             \<lparr>m_owner = mm_halow_task_cur s, m_taken_ms = mm_halow_ticks_ms s, m_locked = True\<rparr>)\<rparr>)
      else (False, s))"
  by (simp add: mm_halow_mutex_acquired_def atomic_defs mm_halow_sched_task_current_def mm_halow_ticks_ms_def)

lemma sem_taken_eq:
  "mm_halow_sem_taken p s =
     (if sem_count (sems s p) > 0
      then (True, s\<lparr>sems := (sems s)(p := (sems s p)\<lparr>sem_count := sem_count (sems s p) - 1\<rparr>)\<rparr>)
      else (False, s))"
  by (simp add: mm_halow_sem_taken_def atomic_defs)

lemma sem_give_eq:
  "mmosal_sem_give p s =
     (if p \<noteq> 0 \<and> sem_count (sems s p) < sem_max_count (sems s p)
      then (True, mm_halow_sched_wake (s\<lparr>sems := (sems s)(p := (sems s p)\<lparr>sem_count := sem_count (sems s p) + 1\<rparr>)\<rparr>))
      else (False, s))"
  by (simp add: mmosal_sem_give_def atomic_defs)

lemma semb_taken_eq:
  "mm_halow_semb_taken p s = (sembs s p, s\<lparr>sembs := (sembs s)(p := False)\<rparr>)"
  by (simp add: mm_halow_semb_taken_def atomic_defs)

section \<open>Waiting on them\<close>

interpretation notify_wait: wait_env "rest_env others" "mm_halow_task_notified p" in_task "\<lambda>_. 0" 1
  for others :: "'a osal_st_scheme \<Rightarrow> 'a osal_st_scheme" and p
  by (rule rest_wait_env) (auto simp: task_notified_eq upd_task_def split: if_splits)

interpretation join_wait: wait_env "rest_env others" "mm_halow_task_is_dead p" in_task "\<lambda>_. 0" 1
  for others :: "'a osal_st_scheme \<Rightarrow> 'a osal_st_scheme" and p
  by (rule rest_wait_env) (auto simp: mm_halow_task_is_dead_def)

interpretation mutex_wait: wait_env "rest_env others" "mm_halow_mutex_acquired p" in_task "\<lambda>_. 0" 1
  for others :: "'a osal_st_scheme \<Rightarrow> 'a osal_st_scheme" and p
  by (rule rest_wait_env) (auto simp: mutex_acquired_eq split: if_splits)

interpretation sem_wait: wait_env "rest_env others" "mm_halow_sem_taken p" in_task "\<lambda>_. 0" 1
  for others :: "'a osal_st_scheme \<Rightarrow> 'a osal_st_scheme" and p
  by (rule rest_wait_env) (auto simp: sem_taken_eq split: if_splits)

interpretation semb_wait: wait_env "rest_env others" "mm_halow_semb_taken p" in_task "\<lambda>_. 0" 1
  for others :: "'a osal_st_scheme \<Rightarrow> 'a osal_st_scheme" and p
  by (rule rest_wait_env) (auto simp: semb_taken_eq)

section \<open>Critical sections\<close>

text \<open>A sequence of entries (True) and exits (False), and the depth it should reach.\<close>

definition crit_step :: "bool \<Rightarrow> 'a osal_st_scheme \<Rightarrow> 'a osal_st_scheme" where
  "crit_step enter s = (if enter then mmosal_task_enter_critical s else mmosal_task_exit_critical s)"

definition crit_depth :: "bool list \<Rightarrow> nat" where
  "crit_depth ops = fold (\<lambda>e d. if e then Suc d else d - 1) ops 0"

definition crit_inv :: "bool \<Rightarrow> nat \<Rightarrow> 'a osal_st_scheme \<Rightarrow> bool" where
  "crit_inv b d s \<longleftrightarrow> mm_halow_critical_nesting s = of_nat d \<and> irq_off s = (0 < d \<or> b)
     \<and> (0 < d \<longrightarrow> mm_halow_critical_state s = b)"

lemma crit_step_inv:
  assumes inv: "crit_inv b d s" and d: "d < 4294967295"
  shows "crit_inv b (if e then Suc d else d - 1) (crit_step e s)"
proof -
  have z: "mm_halow_critical_nesting s = 0 \<longleftrightarrow> d = 0"
    using inv d of_nat_u32_eq_0_iff [of d] by (simp add: crit_inv_def)
  show ?thesis
  proof (cases e)
    case True
    with inv z show ?thesis
      by (cases "d = 0") (auto simp: crit_inv_def crit_step_def mmosal_task_enter_critical_def atomic_defs Let_def)
  next
    case False
    show ?thesis
    proof (cases d)
      case 0
      with inv z False show ?thesis
        by (auto simp: crit_inv_def crit_step_def mmosal_task_exit_critical_def)
    next
      case (Suc k)
      have n: "mm_halow_critical_nesting s - 1 = of_nat k" using inv Suc by (simp add: crit_inv_def)
      have k: "(of_nat k :: u32) = 0 \<longleftrightarrow> k = 0" using d Suc by (intro of_nat_u32_eq_0_iff) simp
      have "mm_halow_critical_nesting s > 0" using z Suc by (simp add: word_gt_0)
      with inv Suc False n k show ?thesis
        by (cases "k = 0") (auto simp: crit_inv_def crit_step_def mmosal_task_exit_critical_def atomic_defs Let_def)
    qed
  qed
qed

lemma crit_run_inv:
  "crit_inv b d s \<Longrightarrow> d + length ops < 4294967296 \<Longrightarrow>
     crit_inv b (fold (\<lambda>e d. if e then Suc d else d - 1) ops d) (fold crit_step ops s)"
proof (induction ops arbitrary: d s)
  case Nil
  then show ?case by simp
next
  case (Cons e ops)
  then have "crit_inv b (if e then Suc d else d - 1) (crit_step e s)" by (intro crit_step_inv) auto
  from Cons.IH [OF this] Cons.prems(2) show ?case by auto
qed

lemma crit_depth_le: "fold (\<lambda>e d. if e then Suc d else d - 1) ops d \<le> d + length ops"
proof (induction ops arbitrary: d)
  case Nil
  then show ?case by simp
next
  case (Cons e ops)
  from Cons.IH [of "if e then Suc d else d - 1"] show ?case by (cases e) simp_all
qed

text \<open>
  C30: Critical sections nest. After any sequence of entries and exits from an open state,
  interrupts are masked exactly while the nesting depth is positive, the outermost exit
  restores the mask that the first entry found, exits without an entry change nothing, and
  mm_halow_osal_in_critical() tells the two apart.
\<close>

theorem critical_sections_nest:
  assumes "mm_halow_critical_nesting s = 0" and "length ops < 4294967296"
  defines "s' \<equiv> fold crit_step ops s"
  shows "mm_halow_critical_nesting s' = of_nat (crit_depth ops)
    \<and> (irq_off s' \<longleftrightarrow> 0 < crit_depth ops \<or> irq_off s)
    \<and> (mm_halow_osal_in_critical s' \<longleftrightarrow> 0 < crit_depth ops)"
proof -
  have "crit_inv (irq_off s) 0 s" using assms(1) by (simp add: crit_inv_def)
  from crit_run_inv [OF this] assms(2) have inv: "crit_inv (irq_off s) (crit_depth ops) s'"
    by (simp add: crit_depth_def s'_def)
  have "crit_depth ops < 4294967296"
    using crit_depth_le [of ops 0] assms(2) by (simp add: crit_depth_def)
  with inv show ?thesis
    by (auto simp: crit_inv_def mm_halow_osal_in_critical_def word_gt_0 of_nat_u32_eq_0_iff)
qed

theorem critical_sections_nest_witness:
  "irq_off (fold crit_step [False, True, True, False] osal0)
     \<and> \<not> irq_off (fold crit_step [False, True, True, False, False] osal0)"
  using critical_sections_nest [of osal0 "[False, True, True, False]"]
    critical_sections_nest [of osal0 "[False, True, True, False, False]"]
  by (simp add: osal0_simps crit_depth_def)

section \<open>Counted resources\<close>

text \<open>
  A semaphore count and a task's pending notifications share a contract: what is put can
  be taken once. A semaphore also refuses to exceed its maximum.
\<close>

locale counter =
  fixes put :: "'s \<Rightarrow> bool \<times> 's" and get :: "'s \<Rightarrow> bool \<times> 's"
    and count :: "'s \<Rightarrow> nat" and inv :: "'s \<Rightarrow> bool" and cap :: nat
  assumes put_ok: "inv s \<Longrightarrow> count s < cap \<Longrightarrow>
      \<exists>s'. put s = (True, s') \<and> inv s' \<and> count s' = Suc (count s)"
    and take_ok: "inv s \<Longrightarrow> 0 < count s \<Longrightarrow>
      \<exists>s'. get s = (True, s') \<and> inv s' \<and> count s' = count s - 1"
    and take_empty: "inv s \<Longrightarrow> count s = 0 \<Longrightarrow> get s = (False, s)"
    and count_le: "inv s \<Longrightarrow> count s \<le> cap"

locale bounded_counter = counter +
  assumes put_full: "inv s \<Longrightarrow> count s = cap \<Longrightarrow> put s = (False, s)"

text \<open>A run of puts (True) and takes (False), with how many of each succeeded.\<close>

fun counter_run ::
    "('s \<Rightarrow> bool \<times> 's) \<Rightarrow> ('s \<Rightarrow> bool \<times> 's) \<Rightarrow> bool list \<Rightarrow> 's \<Rightarrow> nat \<times> nat \<times> 's" where
  "counter_run put get [] s = (0, 0, s)"
| "counter_run put get (True # ops) s =
     (let (b, s1) = put s; (p, t, s2) = counter_run put get ops s1 in ((if b then Suc p else p), t, s2))"
| "counter_run put get (False # ops) s =
     (let (b, s1) = get s; (p, t, s2) = counter_run put get ops s1 in (p, (if b then Suc t else t), s2))"

context counter
begin

lemma run_take:
  assumes "inv s"
  obtains s1 b where "get s = (b, s1)" "inv s1" "count s1 + (if b then 1 else 0) = count s" "b \<longleftrightarrow> 0 < count s"
proof (cases "count s = 0")
  case True
  with take_empty [OF assms] assms show ?thesis by (intro that [of False s]) auto
next
  case False
  then obtain s1 where "get s = (True, s1)" "inv s1" "count s1 = count s - 1"
    using take_ok [OF assms] by auto
  with False show ?thesis by (intro that [of True s1]) auto
qed

text \<open>As long as the puts fit, all of them count.\<close>

lemma ledger:
  "inv s \<Longrightarrow> count s + length (filter (\<lambda>e. e) ops) \<le> cap \<Longrightarrow> counter_run put get ops s = (p, t, s') \<Longrightarrow>
     inv s' \<and> p = length (filter (\<lambda>e. e) ops) \<and> count s' + t = count s + p"
proof (induction ops arbitrary: s p t s')
  case Nil
  then show ?case by simp
next
  case (Cons e ops)
  show ?case
  proof (cases e)
    case True
    then have "count s < cap" using Cons.prems(2) by simp
    then obtain s1 where s1: "put s = (True, s1)" "inv s1" "count s1 = Suc (count s)"
      using put_ok Cons.prems(1) by blast
    obtain p1 t1 s2 where r: "counter_run put get ops s1 = (p1, t1, s2)" by (metis prod_cases3)
    have "count s1 + length (filter (\<lambda>e. e) ops) \<le> cap" using Cons.prems(2) s1(3) True by simp
    from Cons.IH [OF s1(2) this r] show ?thesis using Cons.prems(3) r s1 True by simp
  next
    case False
    obtain s1 b where s1: "get s = (b, s1)" "inv s1" "count s1 + (if b then 1 else 0) = count s"
      using run_take [OF Cons.prems(1)] by blast
    obtain p1 t1 s2 where r: "counter_run put get ops s1 = (p1, t1, s2)" by (metis prod_cases3)
    have "count s1 + length (filter (\<lambda>e. e) ops) \<le> cap" using Cons.prems(2) s1(3) False by simp
    from Cons.IH [OF s1(2) this r] show ?thesis using Cons.prems(3) r s1 False by (auto split: if_splits)
  qed
qed

end

context bounded_counter
begin

lemma bounded_ledger:
  "inv s \<Longrightarrow> counter_run put get ops s = (p, t, s') \<Longrightarrow>
     inv s' \<and> count s' + t = count s + p \<and> count s' \<le> cap"
proof (induction ops arbitrary: s p t s')
  case Nil
  then show ?case using count_le by simp
next
  case (Cons e ops)
  obtain s1 b where s1: "(if e then put s else get s) = (b, s1)" "inv s1"
    "count s1 + (if b \<and> \<not> e then 1 else 0) = count s + (if b \<and> e then 1 else 0)"
  proof (cases e)
    case True
    show ?thesis
    proof (cases "count s = cap")
      case full: True
      with put_full Cons.prems(1) True that [of False s] show ?thesis by simp
    next
      case False
      then have "count s < cap" using count_le [OF Cons.prems(1)] by simp
      then obtain s1 where "put s = (True, s1)" "inv s1" "count s1 = Suc (count s)"
        using put_ok Cons.prems(1) by blast
      with True show ?thesis by (intro that [of True s1]) simp_all
    qed
  next
    case False
    obtain s1 b where "get s = (b, s1)" "inv s1" "count s1 + (if b then 1 else 0) = count s"
      using run_take [OF Cons.prems(1)] by blast
    with False show ?thesis by (intro that [of b s1]) simp_all
  qed
  obtain p1 t1 s2 where r: "counter_run put get ops s1 = (p1, t1, s2)" by (metis prod_cases3)
  from Cons.IH [OF s1(2) r] show ?case using Cons.prems(2) r s1 by (cases e; cases b; simp)
qed

end

definition sem_inv :: "ptr \<Rightarrow> u32 \<Rightarrow> 'a osal_st_scheme \<Rightarrow> bool" where
  "sem_inv p mx s \<longleftrightarrow> p \<noteq> 0 \<and> sem_max_count (sems s p) = mx \<and> sem_count (sems s p) \<le> mx"

interpretation sem: bounded_counter "mmosal_sem_give p" "mm_halow_sem_taken p"
    "\<lambda>s. unat (sem_count (sems s p))" "sem_inv p mx" "unat mx"
  for p and mx :: u32
proof
  fix s :: "'a osal_st_scheme"
  assume inv: "sem_inv p mx s"
  show "unat (sem_count (sems s p)) \<le> unat mx" using inv by (simp add: sem_inv_def word_le_nat_alt)
  show "\<exists>s'. mmosal_sem_give p s = (True, s') \<and> sem_inv p mx s'
      \<and> unat (sem_count (sems s' p)) = Suc (unat (sem_count (sems s p)))"
    if "unat (sem_count (sems s p)) < unat mx"
  proof -
    have lt: "sem_count (sems s p) < mx" using that by (simp add: word_less_nat_alt)
    have "unat (sem_count (sems s p) + 1) = unat (sem_count (sems s p)) + 1"
      using lt by (rule unat_inc_u32)
    moreover from this that have "sem_count (sems s p) + 1 \<le> mx" by (simp add: word_le_nat_alt)
    ultimately show ?thesis
      using inv lt by (auto simp: sem_inv_def sem_give_eq mm_halow_sched_wake_def)
  qed
  show "mmosal_sem_give p s = (False, s)" if "unat (sem_count (sems s p)) = unat mx"
  proof -
    have "sem_count (sems s p) = mx" using that by (simp only: word_unat_eq_iff)
    with inv show ?thesis by (simp add: sem_inv_def sem_give_eq)
  qed
  show "mm_halow_sem_taken p s = (False, s)" if "unat (sem_count (sems s p)) = 0"
    using that by (simp add: sem_taken_eq unat_eq_0)
  show "\<exists>s'. mm_halow_sem_taken p s = (True, s') \<and> sem_inv p mx s'
      \<and> unat (sem_count (sems s' p)) = unat (sem_count (sems s p)) - 1"
    if "0 < unat (sem_count (sems s p))"
  proof -
    have "unat (sem_count (sems s p) - 1) = unat (sem_count (sems s p)) - 1"
      using that by (subst unat_sub_u32) simp_all
    moreover from this have "sem_count (sems s p) - 1 \<le> sem_count (sems s p)" by (simp add: word_le_nat_alt)
    moreover have "sem_count (sems s p) > 0" using that by (simp add: word_less_nat_alt)
    ultimately show ?thesis
      using inv by (auto simp: sem_inv_def sem_taken_eq)
  qed
qed

interpretation notify: counter "\<lambda>s. (True, mmosal_task_notify p s)" "mm_halow_task_notified p"
    "\<lambda>s. unat (t_notify (mm_halow_tasks s p))" "\<lambda>_. p \<noteq> 0" 4294967295
  for p
proof
  fix s :: "'a osal_st_scheme"
  assume p: "p \<noteq> 0"
  let ?n = "t_notify (mm_halow_tasks s p)"
  show "unat ?n \<le> 4294967295" using unat_lt_u32 [of ?n] by linarith
  show "\<exists>s'. (True, mmosal_task_notify p s) = (True, s') \<and> p \<noteq> 0
      \<and> unat (t_notify (mm_halow_tasks s' p)) = Suc (unat ?n)" if "unat ?n < 4294967295"
    using that p by (simp add: task_notify_eq unat_add_u32)
  show "mm_halow_task_notified p s = (False, s)" if "unat ?n = 0"
    using that by (simp add: task_notified_eq unat_eq_0)
  show "\<exists>s'. mm_halow_task_notified p s = (True, s') \<and> p \<noteq> 0
      \<and> unat (t_notify (mm_halow_tasks s' p)) = unat ?n - 1" if "0 < unat ?n"
  proof -
    have "unat (?n - 1) = unat ?n - 1" using that by (subst unat_sub_u32) simp_all
    moreover have "?n \<noteq> 0" using that by auto
    ultimately show ?thesis using p by (simp add: task_notified_eq)
  qed
qed

section \<open>Properties of semaphores and notifications\<close>

text \<open>Nothing else moves: the other semaphores keep their counts.\<close>

lemma sem_run_other:
  "counter_run (mmosal_sem_give p) (mm_halow_sem_taken p) ops s = (g, t, s') \<Longrightarrow> q \<noteq> p \<Longrightarrow>
     sems s' q = sems s q"
proof (induction ops arbitrary: s g t)
  case (Cons e ops)
  obtain b s1 where s1: "(if e then mmosal_sem_give p s else mm_halow_sem_taken p s) = (b, s1)" by fastforce
  obtain g1 t1 s2 where r: "counter_run (mmosal_sem_give p) (mm_halow_sem_taken p) ops s1 = (g1, t1, s2)"
    by (metis prod_cases3)
  have e: "s2 = s'" using Cons.prems(1) s1 r by (cases e) auto
  from Cons.IH [OF r [unfolded e] Cons.prems(2)] have "sems s' q = sems s1 q" by simp
  also have "\<dots> = sems s q"
    using s1 Cons.prems(2)
    by (cases e) (auto simp: sem_give_eq sem_taken_eq mm_halow_sched_wake_def split: if_splits)
  finally show ?case .
qed simp

text \<open>
  C31: The semaphore ledger. Over any sequence of gives (from tasks or interrupts) and
  attempts to take, the count plus what was taken is the initial count plus what was
  given; the count never exceeds its maximum and never goes below zero; a give fails
  exactly at the maximum and an attempt exactly at zero, changing nothing; no other
  semaphore moves.
\<close>

theorem sem_ledger:
  assumes "p \<noteq> 0" and "sem_count (sems s p) \<le> sem_max_count (sems s p)"
    and "counter_run (mmosal_sem_give p) (mm_halow_sem_taken p) ops s = (g, t, s')"
  shows "unat (sem_count (sems s' p)) + t = unat (sem_count (sems s p)) + g
    \<and> sem_count (sems s' p) \<le> sem_max_count (sems s p) \<and> sem_max_count (sems s' p) = sem_max_count (sems s p)
    \<and> (fst (mmosal_sem_give p s') \<longleftrightarrow> sem_count (sems s' p) \<noteq> sem_max_count (sems s p))
    \<and> (fst (mm_halow_sem_taken p s') \<longleftrightarrow> sem_count (sems s' p) \<noteq> 0)
    \<and> (\<forall>q. q \<noteq> p \<longrightarrow> sems s' q = sems s q)"
proof -
  let ?mx = "sem_max_count (sems s p)"
  have "sem_inv p ?mx s" using assms(1,2) by (simp add: sem_inv_def)
  from sem.bounded_ledger [OF this assms(3)] have
    r: "sem_inv p ?mx s'" "unat (sem_count (sems s' p)) + t = unat (sem_count (sems s p)) + g" by auto
  have "fst (mmosal_sem_give p s') \<longleftrightarrow> sem_count (sems s' p) \<noteq> ?mx"
    using r(1) by (auto simp: sem_inv_def sem_give_eq)
  moreover have "fst (mm_halow_sem_taken p s') \<longleftrightarrow> sem_count (sems s' p) \<noteq> 0"
    by (simp add: sem_taken_eq word_gt_0)
  ultimately show ?thesis
    using r sem_run_other [OF assms(3)] by (simp add: sem_inv_def)
qed

theorem sem_ledger_witness:
  "\<exists>g t s'. counter_run (mmosal_sem_give 64) (mm_halow_sem_taken 64) [True, True, True, False] osal0 = (g, t, s')
     \<and> unat (sem_count (sems s' 64)) + t = g"
proof -
  obtain g t s' where r: "counter_run (mmosal_sem_give 64) (mm_halow_sem_taken 64) [True, True, True, False] osal0 = (g, t, s')"
    by (metis prod_cases3)
  from sem_ledger [OF _ _ r] r show ?thesis by auto
qed

text \<open>
  Notifications are counted, not collapsed. Over any sequence of notifications of a
  task and attempts to receive one, as long as fewer than 2^32 could be outstanding, the
  pending count plus what was received is the initial count plus what was sent, and an
  attempt fails exactly when nothing is pending.
\<close>

theorem notify_ledger:
  assumes "p \<noteq> 0"
    and "unat (t_notify (mm_halow_tasks s p)) + length (filter (\<lambda>e. e) ops) \<le> 4294967295"
    and "counter_run (\<lambda>s. (True, mmosal_task_notify p s)) (mm_halow_task_notified p) ops s = (n, r, s')"
  shows "unat (t_notify (mm_halow_tasks s' p)) + r
      = unat (t_notify (mm_halow_tasks s p)) + length (filter (\<lambda>e. e) ops)
    \<and> (fst (mm_halow_task_notified p s') \<longleftrightarrow> t_notify (mm_halow_tasks s' p) \<noteq> 0)"
  using notify.ledger [OF assms] by (simp add: task_notified_eq)

theorem notify_ledger_witness:
  "\<exists>n r s'. counter_run (\<lambda>s. (True, mmosal_task_notify 2 s)) (mm_halow_task_notified 2) [True, True, False] osal0 = (n, r, s')
     \<and> unat (t_notify (mm_halow_tasks s' 2)) + r = 2"
proof -
  obtain n r s' where e: "counter_run (\<lambda>s. (True, mmosal_task_notify 2 s)) (mm_halow_task_notified 2) [True, True, False] osal0 = (n, r, s')"
    by (metis prod_cases3)
  from notify_ledger [OF _ _ e] e show ?thesis by (auto simp: task0_def)
qed

text \<open>
  Waiting on a semaphore. A task that waits on a semaphore with a finite timeout,
  whatever the rest of the system does meanwhile, gets true exactly when its last look
  found a positive count, which is then one less, and false only after the whole (capped)
  timeout with the count at zero; a null semaphore is refused at once.
\<close>

theorem sem_wait_correct:
  fixes s :: "'a osal_st_scheme"
  assumes "in_task s" and "t \<noteq> UINT32_MAX"
  shows "\<exists>b s'. mmosal_sem_wait (rest_env others) p t s = Some (b, s') \<and>
    (if p = 0 then \<not> b \<and> s' = s
     else (\<exists>s0 :: 'a osal_st_scheme. b = (sem_count (sems s0 p) \<noteq> 0) \<and> in_task s0 \<and> time_ms s0 = time_ms s'
             \<and> sems s' = (if b then (sems s0)(p := (sems s0 p)\<lparr>sem_count := sem_count (sems s0 p) - 1\<rparr>) else sems s0))
        \<and> (\<not> b \<longrightarrow> time_ms s + min (unat t) 10000 \<le> time_ms s')
        \<and> time_ms s' \<le> time_ms s + min (unat t) 10000 + 2 \<and> (b \<longrightarrow> mm_halow_sched_woken s'))"
proof (cases "p = 0")
  case True
  then show ?thesis by (intro exI [of _ False] exI [of _ s]) (simp add: mmosal_sem_wait_def)
next
  case False
  have "t \<noteq> UINT32_MAX \<or> mm_halow_sched_teardown s" using assms(2) by blast
  from sem_wait.sched_wait_bounded [OF assms(1) this, of others p] obtain b s' s0 s1 where
    r: "mm_halow_sched_wait (rest_env others) (mm_halow_sem_taken p) t s = Some (b, s')"
      "mm_halow_sem_taken p s0 = (b, s1)" "in_task s0"
      "s' = (let s2 = (if mm_halow_task_cur s = 0
                then s1\<lparr>mm_halow_wait_depth := mm_halow_wait_depth s\<rparr> else s1)
             in if b then mm_halow_sched_wake s2 else s2)"
      "\<not> b \<longrightarrow> time_ms s + min (unat t) 10000 \<le> time_ms s'"
      "time_ms s' \<le> time_ms s + min (unat t) 10000 + 2 * 1" by blast
  have s': "s' = (if b then mm_halow_sched_wake s1 else s1)"
    using r(4) assms(1) by (simp add: in_task_def)
  have f: "b = (sem_count (sems s0 p) \<noteq> 0)" "time_ms s0 = time_ms s'"
    "sems s' = (if b then (sems s0)(p := (sems s0 p)\<lparr>sem_count := sem_count (sems s0 p) - 1\<rparr>) else sems s0)"
    "b \<longrightarrow> mm_halow_sched_woken s'"
    using r(2) by (auto simp: s' sem_taken_eq word_gt_0 mm_halow_sched_wake_def split: if_splits)
  have ex: "\<exists>s0 :: 'a osal_st_scheme. b = (sem_count (sems s0 p) \<noteq> 0) \<and> in_task s0 \<and> time_ms s0 = time_ms s'
      \<and> sems s' = (if b then (sems s0)(p := (sems s0 p)\<lparr>sem_count := sem_count (sems s0 p) - 1\<rparr>) else sems s0)"
    by (rule exI [of _ s0]) (intro conjI f(1-3) r(3))
  have "mmosal_sem_wait (rest_env others) p t s = Some (b, s')"
    using r(1) False by (simp add: mmosal_sem_wait_def)
  moreover have "time_ms s' \<le> time_ms s + min (unat t) 10000 + 2" using r(6) by simp
  ultimately show ?thesis using ex r(5) f(4) False
    by (intro exI [of _ b] exI [of _ s'] conjI) (assumption | simp only: if_False)+
qed

theorem sem_wait_correct_witness:
  "\<exists>b s'. mmosal_sem_wait (rest_env (\<lambda>s. snd (mmosal_sem_give 64 s))) 64 50 osal0 = Some (b, s') \<and> time_ms s' \<le> 52"
  using sem_wait_correct [of osal0 50 "\<lambda>s. snd (mmosal_sem_give 64 s)" 64] by auto

section \<open>Mutexes\<close>

text \<open>
  Any interleaving of attempts by tasks and the thread (0) and releases by the holder,
  with anything else in between that leaves this mutex alone.
\<close>

inductive mutex_reach :: "ptr \<Rightarrow> 'a osal_st_scheme \<Rightarrow> nat option \<Rightarrow> bool" for p where
  unlocked: "\<not> m_locked (mutexes s p) \<Longrightarrow> mutex_reach p s None"
| attempt: "mutex_reach p s h \<Longrightarrow> mm_halow_mutex_acquired p (s\<lparr>mm_halow_task_cur := c\<rparr>) = (b, s') \<Longrightarrow>
    mutex_reach p s' (if b then Some c else h)"
| unlock: "mutex_reach p s (Some c) \<Longrightarrow>
    mutex_reach p (snd (mmosal_mutex_release p (s\<lparr>mm_halow_task_cur := c\<rparr>))) None"
| elsewhere: "mutex_reach p s h \<Longrightarrow> mutexes s' p = mutexes s p \<Longrightarrow> mutex_reach p s' h"

lemma mutex_reach_inv:
  "mutex_reach p s h \<Longrightarrow> p \<noteq> 0 \<Longrightarrow> m_locked (mutexes s p) = (h \<noteq> None) \<and> (\<forall>c. h = Some c \<longrightarrow> m_owner (mutexes s p) = c)"
  by (induction rule: mutex_reach.induct)
    (auto simp: mutex_acquired_eq mmosal_mutex_release_def mm_halow_sched_wake_def split: if_splits)

text \<open>
  C11: Mutual exclusion. In every interleaving of attempts and releases a mutex has at most
  one holder: an attempt succeeds exactly when there is none, the holder is the task that
  made the last successful attempt, and only the holder sees the mutex as its own.
\<close>

theorem mutex_excludes:
  assumes "mutex_reach p s h" and "p \<noteq> 0"
  shows "(fst (mm_halow_mutex_acquired p (s\<lparr>mm_halow_task_cur := c\<rparr>)) \<longleftrightarrow> h = None)
    \<and> (mmosal_mutex_is_held_by_active_task p (s\<lparr>mm_halow_task_cur := c\<rparr>) \<longleftrightarrow> h = Some c)
    \<and> (h = None \<longrightarrow> mmosal_mutex_is_held_by_active_task p
         (snd (mm_halow_mutex_acquired p (s\<lparr>mm_halow_task_cur := c\<rparr>))))"
  using mutex_reach_inv [OF assms] assms(2)
  by (cases h) (auto simp: mutex_acquired_eq mmosal_mutex_is_held_by_active_task_def
      mm_halow_sched_task_current_def)

theorem mutex_excludes_witness:
  "\<exists>s :: osal_st. mutex_reach 32 s (Some 1) \<and> \<not> fst (mm_halow_mutex_acquired 32 (s\<lparr>mm_halow_task_cur := 2\<rparr>))"
proof -
  have "mutex_reach 32 osal0 None" by (rule unlocked) simp
  moreover obtain b s' where a: "mm_halow_mutex_acquired 32 (osal0\<lparr>mm_halow_task_cur := 1\<rparr>) = (b, s')" by fastforce
  ultimately have r: "mutex_reach 32 s' (if b then Some 1 else None)" by (rule attempt)
  have b using a by (auto simp: mutex_acquired_eq)
  with r mutex_excludes [OF r, of 2] show ?thesis by auto
qed

text \<open>Waiting as one given task, outside teardown.\<close>

definition as_task :: "nat \<Rightarrow> 'a sched_st_scheme \<Rightarrow> bool" where
  "as_task c s \<longleftrightarrow> c \<noteq> 0 \<and> mm_halow_task_cur s = c \<and> \<not> mm_halow_sched_teardown s"

definition keeps_teardown :: "('a sched_st_scheme \<Rightarrow> 'a sched_st_scheme) \<Rightarrow> bool" where
  "keeps_teardown f \<longleftrightarrow> (\<forall>s. mm_halow_sched_teardown (f s) = mm_halow_sched_teardown s)"

lemma as_task_wait_env:
  assumes others: "keeps_teardown others"
    and cond: "\<And>s b s'. cond s = (b, s') \<Longrightarrow> time_ms s' = time_ms s \<and> mm_halow_task_cur s' = mm_halow_task_cur s
      \<and> mm_halow_wait_depth s' = mm_halow_wait_depth s \<and> mm_halow_sched_teardown s' = mm_halow_sched_teardown s"
  shows "wait_env (rest_env others) cond (as_task c) (\<lambda>_. 0) 1"
proof
  fix s :: "'a sched_st_scheme" and timed w
  assume "as_task c s"
  with others show "\<exists>s'. mm_halow_sched_park (rest_env others) timed w s = Some s' \<and> as_task c s'
      \<and> mm_halow_wait_depth s' = mm_halow_wait_depth s \<and> time_ms s' \<le> time_ms s + 1
      \<and> (time_ms s < time_ms s' \<or> time_ms s = time_ms s' \<and> 0 < (0 :: nat))"
    by (auto simp: as_task_def mm_halow_sched_park_def rest_env_def Let_def keeps_teardown_def)
next
  fix s b s'
  assume "as_task c s" "cond s = (b, s')"
  with cond show "as_task c s' \<and> time_ms s' = time_ms s \<and> (0 :: nat) \<le> 0
      \<and> mm_halow_wait_depth s' = mm_halow_wait_depth s
      \<and> mm_halow_sched_teardown s' = mm_halow_sched_teardown s"
    by (simp add: as_task_def)
qed (simp_all add: as_task_def rest_env_def)

lemma mutex_as_task:
  fixes others :: "'a osal_st_scheme \<Rightarrow> 'a osal_st_scheme"
  assumes "keeps_teardown others"
  shows "wait_env (rest_env others) (mm_halow_mutex_acquired p) (as_task c) (\<lambda>_. 0) 1"
  by (rule as_task_wait_env [OF assms]) (auto simp: mutex_acquired_eq split: if_splits)

text \<open>What a successful wait on a mutex leaves behind.\<close>

lemma mutex_got:
  assumes "mm_halow_mutex_acquired p s0 = (True, s1)" and "as_task c s0"
  shows "mutexes s1 p = \<lparr>m_owner = c, m_taken_ms = mm_halow_ticks_ms s1, m_locked = True\<rparr>"
    and "mm_halow_task_cur s1 = c"
  using assms by (auto simp: mutex_acquired_eq as_task_def mm_halow_ticks_ms_def split: if_splits)

lemma mutex_wait_bounded:
  fixes s :: "'a osal_st_scheme"
  assumes others: "keeps_teardown others" and s: "as_task c s" and t: "t \<noteq> UINT32_MAX"
  shows "\<exists>b s'. mm_halow_sched_wait (rest_env others) (mm_halow_mutex_acquired p) t s = Some (b, s')
    \<and> as_task c s' \<and> (b \<longrightarrow> mutexes s' p = \<lparr>m_owner = c, m_taken_ms = mm_halow_ticks_ms s', m_locked = True\<rparr>)
    \<and> (\<not> b \<longrightarrow> m_locked (mutexes s' p) \<and> time_ms s + min (unat t) 10000 \<le> time_ms s')
    \<and> time_ms s' \<le> time_ms s + min (unat t) 10000 + 2"
proof -
  have "t \<noteq> UINT32_MAX \<or> mm_halow_sched_teardown s" using t by blast
  from wait_env.sched_wait_bounded [OF mutex_as_task [OF others, of p c] s this] obtain b s' s0 s1 where
    r: "mm_halow_sched_wait (rest_env others) (mm_halow_mutex_acquired p) t s = Some (b, s')"
      "mm_halow_mutex_acquired p s0 = (b, s1)" "as_task c s0" "as_task c s1"
      "s' = (let s2 = (if mm_halow_task_cur s = 0
                then s1\<lparr>mm_halow_wait_depth := mm_halow_wait_depth s\<rparr> else s1)
             in if b then mm_halow_sched_wake s2 else s2)"
      "\<not> b \<longrightarrow> time_ms s + min (unat t) 10000 \<le> time_ms s'"
      "time_ms s' \<le> time_ms s + min (unat t) 10000 + 2 * 1" by blast
  have s': "s' = (if b then mm_halow_sched_wake s1 else s1)" using r(5) s by (simp add: as_task_def)
  have m: "mutexes s' p = mutexes s1 p" "mm_halow_ticks_ms s' = mm_halow_ticks_ms s1" "as_task c s'"
    using r(4) by (auto simp: s' mm_halow_sched_wake_def mm_halow_ticks_ms_def as_task_def)
  have "b \<longrightarrow> mutexes s' p = \<lparr>m_owner = c, m_taken_ms = mm_halow_ticks_ms s', m_locked = True\<rparr>"
    unfolding m using mutex_got(1) [of p s0 s1 c] r(2,3) by (cases b) simp_all
  moreover have "\<not> b \<longrightarrow> m_locked (mutexes s' p)"
    unfolding m using r(2) by (auto simp: mutex_acquired_eq split: if_splits)
  moreover have "time_ms s' \<le> time_ms s + min (unat t) 10000 + 2" using r(7) by simp
  ultimately show ?thesis using r(1,6) m(3)
    by (intro exI [of _ b] exI [of _ s'] conjI impI) (assumption | blast)+
qed

text \<open>The get that waits forever: first nine seconds, then a complaint, then without a bound.\<close>

lemma mutex_get_forever:
  fixes s :: "'a osal_st_scheme"
  assumes others: "keeps_teardown others" and s: "as_task c s" and p: "p \<noteq> 0"
    and sv: "served_wait (rest_env others) (mm_halow_mutex_acquired p) (as_task c) (\<lambda>_. 0) 1 rank"
  shows "\<exists>s'. mmosal_mutex_get (rest_env others) p UINT32_MAX s = Some (True, s')
    \<and> mmosal_mutex_is_held_by_active_task p s' \<and> mm_halow_task_cur s' = c"
proof -
  have "(9000 :: u32) \<noteq> UINT32_MAX" by simp
  from mutex_wait_bounded [OF others s this, of p] obtain b1 s1 where
    w1: "mm_halow_sched_wait (rest_env others) (mm_halow_mutex_acquired p) 9000 s = Some (b1, s1)" "as_task c s1"
    "b1 \<longrightarrow> mutexes s1 p = \<lparr>m_owner = c, m_taken_ms = mm_halow_ticks_ms s1, m_locked = True\<rparr>" by blast
  show ?thesis
  proof (cases b1)
    case True
    with w1 p show ?thesis
      by (intro exI [of _ s1])
        (simp add: mmosal_mutex_get_def mmosal_mutex_is_held_by_active_task_def as_task_def
          mm_halow_sched_task_current_def)
  next
    case False
    let ?o = "m_owner (mutexes s1 p)"
    let ?s2 = "emit (Ev_mutex_slow p ?o (if ?o \<noteq> 0 then t_state (mm_halow_tasks s1 ?o) else 0)
        (mm_halow_ticks_ms s1 - m_taken_ms (mutexes s1 p))) s1"
    have pre: "as_task c ?s2" "\<not> mm_halow_sched_teardown ?s2"
      using w1(2) by (simp_all add: as_task_def emit_def)
    have "mm_halow_task_cur ?s2 \<noteq> 0" using pre(1) by (simp add: as_task_def)
    with sched_wait_forever_served' [OF sv pre] obtain s' s0 s3 where
      w2: "mm_halow_sched_wait (rest_env others) (mm_halow_mutex_acquired p) UINT32_MAX ?s2 = Some (True, s')"
        "mm_halow_mutex_acquired p s0 = (True, s3)" "as_task c s0" "s' = mm_halow_sched_wake s3" by auto
    note got = mutex_got [OF w2(2,3)]
    have "mmosal_mutex_get (rest_env others) p UINT32_MAX s = Some (True, s')"
      using w1(1) w2(1) False p by (simp add: mmosal_mutex_get_def Let_def)
    then show ?thesis
      using got p w2(4)
      by (intro exI [of _ s'])
        (simp add: mmosal_mutex_is_held_by_active_task_def mm_halow_sched_task_current_def mm_halow_sched_wake_def)
  qed
qed


text \<open>The rest of the system releases the mutex when it runs.\<close>

definition releaser :: "ptr \<Rightarrow> osal_st \<Rightarrow> osal_st" where
  "releaser p s = snd (mmosal_mutex_release p s)"

interpretation released: served_wait "rest_env (releaser 32)" "mm_halow_mutex_acquired 32" "as_task c"
    "\<lambda>_. 0" 1 "\<lambda>s. if m_locked (mutexes s 32) then 1 else 0"
  for c
proof (intro served_wait.intro served_wait_axioms.intro)
  show "wait_env (rest_env (releaser 32)) (mm_halow_mutex_acquired 32) (as_task c) (\<lambda>_. 0) 1"
    by (rule mutex_as_task)
      (simp add: keeps_teardown_def releaser_def mmosal_mutex_release_def mm_halow_sched_wake_def)
qed (auto simp: mutex_acquired_eq as_task_def mm_halow_sched_park_def rest_env_def releaser_def
      mmosal_mutex_release_def mm_halow_sched_wake_def split: if_splits)


end
