(* ===== verification/Halow_Queue.thy ===== *)
theory Halow_Queue
  imports Halow_Sync
begin

text \<open>
  Message queues: the ring of items in byte memory behaves as a bounded first-in,
  first-out list of byte strings. The contract is the locale \<open>fifo\<close>; the ring provides it.
\<close>

section \<open>The contract\<close>

locale fifo =
  fixes push pop :: "'b \<Rightarrow> 's \<Rightarrow> bool \<times> 's" and content :: "'s \<Rightarrow> 'b \<Rightarrow> 'v"
    and rep :: "'s \<Rightarrow> 'v list \<Rightarrow> bool" and buffer :: "'b \<Rightarrow> bool" and cap :: nat
  assumes push_ok: "rep s xs \<Longrightarrow> length xs < cap \<Longrightarrow>
      \<exists>s'. push b s = (True, s') \<and> rep s' (xs @ [content s b])"
    and push_full: "rep s xs \<Longrightarrow> length xs = cap \<Longrightarrow> push b s = (False, s)"
    and pop_ok: "rep s (x # xs) \<Longrightarrow> buffer b \<Longrightarrow>
      \<exists>s'. pop b s = (True, s') \<and> rep s' xs \<and> content s' b = x"
    and pop_empty: "rep s [] \<Longrightarrow> pop b s = (False, s)"
    and rep_length: "rep s xs \<Longrightarrow> length xs \<le> cap"

datatype 'b queue_op = Push 'b | Pop 'b

text \<open>What a run puts in and gets out.\<close>

fun fifo_run :: "('b \<Rightarrow> 's \<Rightarrow> bool \<times> 's) \<Rightarrow> ('b \<Rightarrow> 's \<Rightarrow> bool \<times> 's) \<Rightarrow> ('s \<Rightarrow> 'b \<Rightarrow> 'v) \<Rightarrow>
    'b queue_op list \<Rightarrow> 's \<Rightarrow> 'v list \<times> 'v list \<times> 's" where
  "fifo_run push pop content [] s = ([], [], s)"
| "fifo_run push pop content (Push b # ops) s =
     (let (ok, s1) = push b s; (is, os, s2) = fifo_run push pop content ops s1
      in ((if ok then content s b # is else is), os, s2))"
| "fifo_run push pop content (Pop b # ops) s =
     (let (ok, s1) = pop b s; (is, os, s2) = fifo_run push pop content ops s1
      in (is, (if ok then content s1 b # os else os), s2))"

context fifo
begin

lemma in_order:
  "rep s xs \<Longrightarrow> (\<And>b. Pop b \<in> set ops \<Longrightarrow> buffer b) \<Longrightarrow>
     fifo_run push pop content ops s = (is, os, s') \<Longrightarrow>
     \<exists>ys. rep s' ys \<and> xs @ is = os @ ys"
proof (induction ops arbitrary: s xs "is" os)
  case Nil
  then show ?case by auto
next
  case (Cons e ops)
  show ?case
  proof (cases e)
    case (Push b)
    show ?thesis
    proof (cases "length xs < cap")
      case True
      obtain s1 where s1: "push b s = (True, s1)" "rep s1 (xs @ [content s b])"
        using push_ok [OF Cons.prems(1) True] by blast
      obtain i1 o1 s2 where r: "fifo_run push pop content ops s1 = (i1, o1, s2)" by (metis prod_cases3)
      from Cons.prems(3) Push s1(1) r have e: "s2 = s'" "is = content s b # i1" "os = o1" by simp_all
      from Cons.IH [OF s1(2) _ r [unfolded e(1)]] Cons.prems(2) obtain ys where
        "rep s' ys" "(xs @ [content s b]) @ i1 = o1 @ ys" by auto
      with e show ?thesis by auto
    next
      case False
      then have "length xs = cap" using rep_length [OF Cons.prems(1)] by simp
      then have s1: "push b s = (False, s)" by (rule push_full [OF Cons.prems(1)])
      obtain i1 o1 s2 where r: "fifo_run push pop content ops s = (i1, o1, s2)" by (metis prod_cases3)
      from Cons.prems(3) Push s1(1) r have e: "s2 = s'" "is = i1" "os = o1" by simp_all
      from Cons.IH [OF Cons.prems(1) _ r [unfolded e(1)]] Cons.prems(2) e show ?thesis by auto
    qed
  next
    case (Pop b)
    show ?thesis
    proof (cases xs)
      case Nil
      with pop_empty Cons.prems(1) have s1: "pop b s = (False, s)" by blast
      obtain i1 o1 s2 where r: "fifo_run push pop content ops s = (i1, o1, s2)" by (metis prod_cases3)
      from Cons.prems(3) Pop s1(1) r have e: "s2 = s'" "is = i1" "os = o1" by simp_all
      from Cons.IH [OF Cons.prems(1) _ r [unfolded e(1)]] Cons.prems(2) e show ?thesis by auto
    next
      case (Cons x xs')
      have "buffer b" using Cons.prems(2) Pop by simp
      then obtain s1 where s1: "pop b s = (True, s1)" "rep s1 xs'" "content s1 b = x"
        using pop_ok Cons.prems(1) Cons by blast
      obtain i1 o1 s2 where r: "fifo_run push pop content ops s1 = (i1, o1, s2)" by (metis prod_cases3)
      from Cons.prems(3) Pop s1(1) r have e: "s2 = s'" "is = i1" "os = content s1 b # o1" by simp_all
      from Cons.IH [OF s1(2) _ r [unfolded e(1)]] Cons.prems(2) obtain ys where
        "rep s' ys" "xs' @ i1 = o1 @ ys" by auto
      with e s1(3) Cons show ?thesis by auto
    qed
  qed
qed

end

section \<open>Items in byte memory\<close>

definition item_bytes :: "nat \<Rightarrow> (ptr \<Rightarrow> u8) \<Rightarrow> ptr \<Rightarrow> u8 list" where
  "item_bytes n m a = map (\<lambda>i. m (a + of_nat i)) [0..<n]"

lemma item_bytes_cong: "(\<And>i. i < n \<Longrightarrow> m (a + of_nat i) = m' (b + of_nat i)) \<Longrightarrow>
    item_bytes n m a = item_bytes n m' b"
  by (simp add: item_bytes_def)

lemma item_bytes_apart:
  assumes "unat d + unat n \<le> 4294967296" and "unat a + k \<le> 4294967296" and "apart (unat a, k) (unat d, unat n)"
  shows "item_bytes k (memcpy d p n m) a = item_bytes k m a"
proof (rule item_bytes_cong)
  fix i assume "i < k"
  then have "in_block (a + of_nat i) (unat a, k)" by (rule in_block_offset [OF assms(2)])
  then have "\<not> in_block (a + of_nat i) (unat d, unat n)" by (rule in_block_apart [OF assms(3)])
  then show "memcpy d p n m (a + of_nat i) = m (a + of_nat i)" by (simp add: memcpy_in [OF assms(1)])
qed

lemma item_bytes_copied:
  assumes "unat d + unat n \<le> 4294967296"
  shows "item_bytes (unat n) (memcpy d p n m) d = item_bytes (unat n) m p"
proof (rule item_bytes_cong)
  fix i assume "i < unat n"
  then have "in_block (d + of_nat i) (unat d, unat n)" by (rule in_block_offset [OF assms])
  then show "memcpy d p n m (d + of_nat i) = m (p + of_nat i)" by (simp add: memcpy_in [OF assms])
qed

section \<open>The ring\<close>

definition slot :: "ptr \<Rightarrow> nat \<Rightarrow> nat \<Rightarrow> ptr" where
  "slot items sz j = items + of_nat (j * sz)"

definition queue_rep ::
    "ptr \<Rightarrow> ptr \<Rightarrow> u32 \<Rightarrow> u32 \<Rightarrow> 'a osal_st_scheme \<Rightarrow> u8 list list \<Rightarrow> bool" where
  "queue_rep p items num sz s xs \<longleftrightarrow>
     (let q = queues s p in
        p \<noteq> 0 \<and> q_items q = items \<and> q_num_items q = num \<and> q_item_size q = sz
        \<and> unat items + unat num * unat sz \<le> 4294967296 \<and> unat (q_head q) < unat num
        \<and> unat (q_count q) \<le> unat num \<and> length xs = unat (q_count q)
        \<and> unat (q_tail q) = (unat (q_head q) + unat (q_count q)) mod unat num
        \<and> (\<forall>i < length xs. xs ! i =
             item_bytes (unat sz) (bytes s) (slot items (unat sz) ((unat (q_head q) + i) mod unat num))))"

text \<open>A caller's buffer: it does not wrap and does not overlap the ring.\<close>

definition item_buffer :: "ptr \<Rightarrow> u32 \<Rightarrow> u32 \<Rightarrow> ptr \<Rightarrow> bool" where
  "item_buffer items num sz b \<longleftrightarrow> unat b + unat sz \<le> 4294967296
     \<and> apart (unat b, unat sz) (unat items, unat num * unat sz)"

lemma slot_bounds:
  assumes "unat items + num * sz \<le> 4294967296" and "j < num"
  shows "unat (slot items sz j) = unat items + j * sz" and "unat items + j * sz + sz \<le> 4294967296"
proof -
  have "Suc j * sz \<le> num * sz" using assms(2) by (intro mult_right_mono) auto
  then have le: "j * sz + sz \<le> num * sz" by simp
  with assms(1) show "unat items + j * sz + sz \<le> 4294967296" by linarith
  have "unat items + j * sz < 4294967296"
  proof (cases "sz = 0")
    case True
    then show ?thesis using unat_lt_u32 [of items] by simp
  next
    case False
    with le assms(1) show ?thesis by linarith
  qed
  then show "unat (slot items sz j) = unat items + j * sz"
    unfolding slot_def by (subst unat_add_u32) (simp_all add: unat_of_nat_u32 del: of_nat_mult)
qed

lemma slots_apart:
  assumes "unat items + num * sz \<le> 4294967296" and "j < num" and "k < num" and "j \<noteq> k"
  shows "apart (unat (slot items sz j), sz) (unat (slot items sz k), sz)"
proof -
  have "j * sz + sz \<le> k * sz \<or> k * sz + sz \<le> j * sz"
  proof (cases "j < k")
    case True
    then have "Suc j * sz \<le> k * sz" by (intro mult_right_mono) auto
    then show ?thesis by simp
  next
    case False
    with assms(4) have "Suc k * sz \<le> j * sz" by (intro mult_right_mono) auto
    then show ?thesis by simp
  qed
  then show ?thesis
    using slot_bounds(1) [OF assms(1,2)] slot_bounds(1) [OF assms(1,3)] by (auto simp: apart_def)
qed

lemma unat_succ_mod: "unat h < unat n \<Longrightarrow> unat ((h + 1) mod n :: u32) = (unat h + 1) mod unat n"
proof -
  assume "unat h < unat n"
  then have "h < n" by (simp add: word_less_nat_alt)
  then show ?thesis by (simp add: unat_mod unat_inc_u32)
qed

lemma ring_inj: "h < n \<Longrightarrow> i < n \<Longrightarrow> j < n \<Longrightarrow> (h + i) mod n = (h + j) mod n \<Longrightarrow> i = j" for n :: nat
  by (auto simp: mod_if split: if_splits)

lemma pop_eq:
  "mmosal_queue_pop_from_isr p b s =
     (let q = queues s p in
      if p \<noteq> 0 \<and> q_count q \<noteq> 0
      then (True, mm_halow_sched_wake (s\<lparr>
             bytes := memcpy b (slot (q_items q) (unat (q_item_size q)) (unat (q_head q))) (q_item_size q) (bytes s),
             queues := (queues s)(p := q\<lparr>q_head := (q_head q + 1) mod q_num_items q, q_count := q_count q - 1\<rparr>)\<rparr>))
      else (False, s))"
  by (simp add: mmosal_queue_pop_from_isr_def atomic_defs slot_def word_gt_0 Let_def)

lemma push_eq:
  "mmosal_queue_push_from_isr p b s =
     (let q = queues s p in
      if p \<noteq> 0 \<and> q_count q < q_num_items q
      then (True, mm_halow_sched_wake (s\<lparr>
             bytes := memcpy (slot (q_items q) (unat (q_item_size q)) (unat (q_tail q))) b (q_item_size q) (bytes s),
             queues := (queues s)(p := q\<lparr>q_tail := (q_tail q + 1) mod q_num_items q, q_count := q_count q + 1\<rparr>)\<rparr>))
      else (False, s))"
  by (simp add: mmosal_queue_push_from_isr_def atomic_defs slot_def Let_def)

lemma queue_repD:
  assumes "queue_rep p items num sz s xs"
  shows "p \<noteq> 0" "q_items (queues s p) = items" "q_num_items (queues s p) = num"
    "q_item_size (queues s p) = sz" "unat items + unat num * unat sz \<le> 4294967296"
    "unat (q_head (queues s p)) < unat num" "unat (q_count (queues s p)) \<le> unat num"
    "length xs = unat (q_count (queues s p))"
    "unat (q_tail (queues s p)) = (unat (q_head (queues s p)) + length xs) mod unat num"
    "\<And>i. i < length xs \<Longrightarrow> xs ! i = item_bytes (unat sz) (bytes s)
       (slot items (unat sz) ((unat (q_head (queues s p)) + i) mod unat num))"
  using assms unfolding queue_rep_def Let_def by simp_all

lemma push_fifo:
  assumes rep: "queue_rep p items num sz s xs" and room: "length xs < unat num"
  shows "\<exists>s'. mmosal_queue_push_from_isr p b s = (True, s')
    \<and> queue_rep p items num sz s' (xs @ [item_bytes (unat sz) (bytes s) b])"
proof -
  note r = queue_repD [OF rep]
  let ?q = "queues s p" and ?n = "unat num" and ?z = "unat sz"
  let ?h = "unat (q_head ?q)" and ?c = "length xs"
  let ?t = "(?h + ?c) mod ?n"
  let ?s = "mm_halow_sched_wake (s\<lparr>bytes := memcpy (slot items ?z ?t) b sz (bytes s),
        queues := (queues s)(p := ?q\<lparr>q_tail := (q_tail ?q + 1) mod num, q_count := q_count ?q + 1\<rparr>)\<rparr>)"
  have lt: "q_count ?q < num" using room r(8) by (simp add: word_less_nat_alt)
  have run: "mmosal_queue_push_from_isr p b s = (True, ?s)"
    using r(1-4,9) lt by (simp add: push_eq Let_def)
  have n0: "0 < ?n" using room by simp
  then have tn: "?t < ?n" by simp
  note bt = slot_bounds [OF r(5) tn]
  have old: "item_bytes ?z (memcpy (slot items ?z ?t) b sz (bytes s)) (slot items ?z ((?h + i) mod ?n))
      = item_bytes ?z (bytes s) (slot items ?z ((?h + i) mod ?n))" if i: "i < ?c" for i
  proof (rule item_bytes_apart)
    have j: "(?h + i) mod ?n < ?n" using n0 by simp
    have "(?h + i) mod ?n \<noteq> ?t" using ring_inj [of ?h ?n i ?c] r(6) i room by auto
    then show "apart (unat (slot items ?z ((?h + i) mod ?n)), ?z) (unat (slot items ?z ?t), unat sz)"
      by (rule slots_apart [OF r(5) j tn])
    show "unat (slot items ?z ((?h + i) mod ?n)) + ?z \<le> 4294967296"
      using slot_bounds [OF r(5) j] by simp
  qed (use bt in simp)
  have new: "item_bytes ?z (memcpy (slot items ?z ?t) b sz (bytes s)) (slot items ?z ?t) = item_bytes ?z (bytes s) b"
    by (rule item_bytes_copied) (use bt in simp)
  have c1: "unat (q_count ?q + 1) = ?c + 1" using unat_inc_u32 [OF lt] r(8) by simp
  have "unat (q_tail ?q) < ?n" using r(9) tn by simp
  then have t1: "unat ((q_tail ?q + 1) mod num) = (?h + (?c + 1)) mod ?n"
    using r(9) by (simp add: unat_succ_mod mod_Suc_eq)
  have "queue_rep p items num sz ?s (xs @ [item_bytes ?z (bytes s) b])"
    unfolding queue_rep_def Let_def
    using r c1 t1 room old new
    by (simp add: mm_halow_sched_wake_def nth_append less_Suc_eq)
  with run show ?thesis by blast
qed

lemma pop_fifo:
  assumes rep: "queue_rep p items num sz s (x # xs)" and buf: "item_buffer items num sz b"
  shows "\<exists>s'. mmosal_queue_pop_from_isr p b s = (True, s') \<and> queue_rep p items num sz s' xs
    \<and> item_bytes (unat sz) (bytes s') b = x"
proof -
  note r = queue_repD [OF rep]
  let ?q = "queues s p" and ?n = "unat num" and ?z = "unat sz"
  let ?h = "unat (q_head ?q)"
  let ?s = "mm_halow_sched_wake (s\<lparr>bytes := memcpy b (slot items ?z ?h) sz (bytes s),
        queues := (queues s)(p := ?q\<lparr>q_head := (q_head ?q + 1) mod num, q_count := q_count ?q - 1\<rparr>)\<rparr>)"
  have c: "q_count ?q \<noteq> 0" "unat (q_count ?q) = Suc (length xs)" using r(8) by auto
  have run: "mmosal_queue_pop_from_isr p b s = (True, ?s)"
    using r(1-4) c(1) by (simp add: pop_eq Let_def)
  have bb: "unat b + ?z \<le> 4294967296" "apart (unat b, ?z) (unat items, ?n * ?z)"
    using buf by (simp_all add: item_buffer_def)
  have keep: "item_bytes ?z (memcpy b (slot items ?z ?h) sz (bytes s)) (slot items ?z j)
      = item_bytes ?z (bytes s) (slot items ?z j)" if j: "j < ?n" for j
  proof (rule item_bytes_apart [OF bb(1)])
    note sb = slot_bounds [OF r(5) j]
    show "unat (slot items ?z j) + ?z \<le> 4294967296" using sb by simp
    have "Suc j * ?z \<le> ?n * ?z" using j by (intro mult_right_mono) auto
    then have "j * ?z + ?z \<le> ?n * ?z" by simp
    then show "apart (unat (slot items ?z j), ?z) (unat b, ?z)"
      using bb(2) sb(1) by (auto simp: apart_def)
  qed
  have x: "item_bytes ?z (memcpy b (slot items ?z ?h) sz (bytes s)) b = x"
    using item_bytes_copied [OF bb(1), of "slot items ?z ?h" "bytes s"] r(10) [of 0] r(6) by simp
  have n0: "0 < ?n" using r(6) by simp
  have c1: "unat (q_count ?q - 1) = length xs" using c by (subst unat_sub_u32) simp_all
  have h1: "unat ((q_head ?q + 1) mod num) = (?h + 1) mod ?n" by (rule unat_succ_mod [OF r(6)])
  have "xs ! i = item_bytes ?z (memcpy b (slot items ?z ?h) sz (bytes s))
      (slot items ?z (((?h + 1) mod ?n + i) mod ?n))" if "i < length xs" for i
  proof -
    have "((?h + 1) mod ?n + i) mod ?n = (?h + Suc i) mod ?n" by (simp add: mod_simps)
    then show ?thesis using r(10) [of "Suc i"] keep n0 that by simp
  qed
  moreover have "unat (q_tail ?q) = ((?h + 1) mod ?n + length xs) mod ?n"
    using r(9) by (simp add: mod_simps)
  ultimately have "queue_rep p items num sz ?s xs"
    unfolding queue_rep_def Let_def
    using r(1-7) c c1 h1 n0 by (simp add: mm_halow_sched_wake_def)
  with run x show ?thesis by (intro exI [of _ ?s]) (simp add: mm_halow_sched_wake_def)
qed

interpretation queue: fifo "mmosal_queue_push_from_isr p" "mmosal_queue_pop_from_isr p"
    "\<lambda>s. item_bytes (unat sz) (bytes s)" "queue_rep p items num sz" "item_buffer items num sz" "unat num"
  for p items num sz
proof
  fix s :: "'a osal_st_scheme" and xs b
  assume rep: "queue_rep p items num sz s xs"
  show "\<exists>s'. mmosal_queue_push_from_isr p b s = (True, s')
      \<and> queue_rep p items num sz s' (xs @ [item_bytes (unat sz) (bytes s) b])" if "length xs < unat num"
    by (rule push_fifo [OF rep that])
  show "mmosal_queue_push_from_isr p b s = (False, s)" if "length xs = unat num"
    using queue_repD(3,8) [OF rep] that by (simp add: push_eq Let_def word_less_nat_alt)
  show "length xs \<le> unat num" using queue_repD(7,8) [OF rep] by simp
next
  fix s :: "'a osal_st_scheme" and x xs b
  assume "queue_rep p items num sz s (x # xs)" "item_buffer items num sz b"
  then show "\<exists>s'. mmosal_queue_pop_from_isr p b s = (True, s') \<and> queue_rep p items num sz s' xs
      \<and> item_bytes (unat sz) (bytes s') b = x" by (rule pop_fifo)
next
  fix s :: "'a osal_st_scheme" and b
  assume "queue_rep p items num sz s []"
  from queue_repD(8) [OF this] show "mmosal_queue_pop_from_isr p b s = (False, s)"
    by (simp add: pop_eq Let_def unat_eq_0)
qed

section \<open>Properties\<close>

text \<open>
  C7: Queues are first in, first out. Over any sequence of pushes and pops on a
  well-formed queue, with any buffers that do not overlap its ring, what was in the queue
  followed by what was accepted is exactly what came out followed by what is still in it,
  byte for byte; it never holds more than its capacity, a push is refused exactly when it
  is full and a pop exactly when it is empty.
\<close>

theorem queue_fifo:
  assumes rep: "queue_rep p items num sz s xs"
    and bufs: "\<And>b. Pop b \<in> set ops \<Longrightarrow> item_buffer items num sz b"
    and run: "fifo_run (mmosal_queue_push_from_isr p) (mmosal_queue_pop_from_isr p)
       (\<lambda>s. item_bytes (unat sz) (bytes s)) ops s = (pushed, popped, s')"
  shows "\<exists>ys. queue_rep p items num sz s' ys \<and> xs @ pushed = popped @ ys \<and> length ys \<le> unat num
    \<and> (fst (mmosal_queue_push_from_isr p b s') \<longleftrightarrow> length ys < unat num)
    \<and> (fst (mmosal_queue_pop_from_isr p b s') \<longleftrightarrow> ys \<noteq> [])"
proof -
  from queue.in_order [OF rep bufs run] obtain ys where
    ys: "queue_rep p items num sz s' ys" "xs @ pushed = popped @ ys" by blast
  note r = queue_repD [OF ys(1)]
  have "fst (mmosal_queue_push_from_isr p b s') \<longleftrightarrow> length ys < unat num"
    using r(1-8) by (simp add: push_eq Let_def word_less_nat_alt)
  moreover have "fst (mmosal_queue_pop_from_isr p b s') \<longleftrightarrow> ys \<noteq> []"
    using r(1-8) unat_eq_0 [of "q_count (queues s' p)"] by (auto simp: pop_eq Let_def)
  ultimately show ?thesis using ys r(7,8) by auto
qed

theorem queue_fifo_witness:
  "\<exists>s' ys. fifo_run (mmosal_queue_push_from_isr 1000) (mmosal_queue_pop_from_isr 1000)
       (\<lambda>s. item_bytes 4 (bytes s)) [Push 64, Push 80, Pop 96] osal0 = (ys @ [[0, 0, 0, 0]], [[0, 0, 0, 0]], s')
     \<and> length ys = 1"
proof -
  have rep: "queue_rep 1000 1024 2 4 osal0 []" by (simp add: queue_rep_def)
  obtain i os s' where r: "fifo_run (mmosal_queue_push_from_isr 1000) (mmosal_queue_pop_from_isr 1000)
       (\<lambda>s. item_bytes (unat (4 :: u32)) (bytes s)) [Push 64, Push 80, Pop 96] osal0 = (i, os, s')"
    by (metis prod_cases3)
  have "item_buffer 1024 2 4 b" if "Pop b \<in> set [Push 64, Push 80, Pop (96 :: ptr)]" for b
    using that by (simp add: item_buffer_def apart_def)
  from queue_fifo [OF rep this r] obtain ys where ys: "i = os @ ys" "length ys \<le> 2" by auto
  have z: "item_bytes 4 (\<lambda>_. 0) a = [0, 0, 0, 0]" for a by (simp add: item_bytes_def upt_rec)
  have "i = [[0, 0, 0, 0], [0, 0, 0, 0]] \<and> length os = 1"
    using r z by (auto simp: push_eq pop_eq Let_def mm_halow_sched_wake_def osal0_def memcpy_def item_bytes_def
        upt_rec slot_def split: if_splits)
  with ys have "os = [[0, 0, 0, 0]]" "i = [[0, 0, 0, 0]] @ [[0, 0, 0, 0]]" by (cases os; auto)+
  with r show ?thesis by (intro exI [of _ s'] exI [of _ "[[0, 0, 0, 0]]"]) simp
qed

text \<open>The overflow test on the size of header and ring, and the ring behind the header.\<close>

lemma queue_guard:
  "sz \<noteq> 0 \<and> num > (- 1 - QUEUE_HDR) div sz \<longleftrightarrow> 4294967296 \<le> 24 + unat num * unat sz"
proof -
  have u: "unat (- 1 - QUEUE_HDR) = 4294967271" by simp
  have "sz \<noteq> 0 \<and> num > (- 1 - QUEUE_HDR) div sz \<longleftrightarrow> unat sz \<noteq> 0 \<and> 4294967271 div unat sz < unat num"
    by (simp only: word_less_nat_alt unat_div u unat_eq_0)
  also have "\<dots> \<longleftrightarrow> 4294967271 < unat num * unat sz"
  proof (cases "unat sz = 0")
    case False
    then show ?thesis by (simp add: div_less_iff_less_mult)
  qed simp
  finally show ?thesis by linarith
qed

lemma ring_fits:
  assumes "unat (p :: ptr) + k \<le> 4294967296" and "24 + unat num * unat sz \<le> k" and "num \<noteq> 0"
  shows "0 < unat num \<and> unat (p + 24) + unat num * unat sz \<le> 4294967296"
proof (rule conjI)
  show "0 < unat num" using assms(3) by (simp add: unat_gt_0)
  show "unat (p + 24) + unat num * unat sz \<le> 4294967296"
  proof (cases "unat p + 24 < 4294967296")
    case True
    then have "unat (p + 24) = unat p + 24" by (subst unat_add_u32) simp_all
    with assms(1,2) show ?thesis by linarith
  next
    case False
    with assms(1,2) have e: "unat p + 24 = 4294967296" "unat num * unat sz = 0" by linarith+
    then have "unat (p + 24) = 0" by (simp add: unat_word_ariths)
    with e(2) show ?thesis by linarith
  qed
qed

text \<open>
  C34: Queue creation. With a well-formed heap, creating a queue returns; if header and
  ring do not fit 32 bits, or cannot be allocated, it returns NULL and nothing changes;
  otherwise the queue is empty and well formed and lies with its whole ring inside one
  fresh heap block.
\<close>

theorem queue_create_correct:
  assumes live: "heap_live s L"
  shows "\<exists>p s'. mmosal_queue_create num sz nm s = Some (p, s') \<and> (p = 0 \<longrightarrow> s' = s)
    \<and> (4294967296 \<le> 24 + unat num * unat sz \<longrightarrow> p = 0)
    \<and> (p = 0 \<longleftrightarrow> 4294967296 \<le> 24 + unat num * unat sz \<or> mm_halow_osal_malloc (24 + num * sz) s = Some (0, s))
    \<and> (p \<noteq> 0 \<longrightarrow> (\<exists>k. heap_live s' (insert (unat p, k) L) \<and> 24 + unat num * unat sz \<le> k
         \<and> (\<forall>y \<in> L. apart (unat p, k) y) \<and> (num \<noteq> 0 \<longrightarrow> queue_rep p (p + 24) num sz s' [])))"
proof -
  note guard = queue_guard [of sz num]
  show ?thesis
  proof (cases "4294967296 \<le> 24 + unat num * unat sz")
    case True
    then have "mmosal_queue_create num sz nm s = Some (0, s)"
      using guard by (simp only: mmosal_queue_create_def if_True)
    with True show ?thesis by (intro exI [of _ 0] exI [of _ s]) simp
  next
    case False
    then have u: "unat (24 + num * sz) = 24 + unat num * unat sz"
      by (subst unat_add_u32; subst unat_mult_u32) simp_all
    obtain p s1 where m: "mm_halow_osal_malloc (24 + num * sz) s = Some (p, s1)"
      using heap.malloc_returns [OF live] by blast
    show ?thesis
    proof (cases "p = 0")
      case True
      with m heap.malloc_null [OF live] have "mm_halow_osal_malloc (24 + num * sz) s = Some (0, s)" by blast
      with False guard show ?thesis
        by (intro exI [of _ 0] exI [of _ s]) (simp only: mmosal_queue_create_def if_False, simp)
    next
      case p: False
      obtain k where k: "unat (24 + num * sz) \<le> k" "heap_live s1 (insert (unat p, k) L)"
          "\<forall>y \<in> L. apart (unat p, k) y"
        using heap.malloc_block [OF live m p] by blast
      let ?s = "s1\<lparr>queues := (queues s1)(p := \<lparr>q_num_items = num, q_item_size = sz,
                   q_head = 0, q_tail = 0, q_count = 0, q_items = p + QUEUE_HDR\<rparr>)\<rparr>"
      have run: "mmosal_queue_create num sz nm s = Some (p, ?s)"
        using False guard m p by (simp only: mmosal_queue_create_def if_False) simp
      have "heap_live ?s (insert (unat p, k) L)" using k(2) by (simp add: heap_live_cong [of ?s s1])
      moreover have "queue_rep p (p + 24) num sz ?s []" if "num \<noteq> 0"
        using ring_fits [OF heap_live_block(3) [OF k(2) insertI1] k(1) [unfolded u] that] p by (simp add: queue_rep_def)
      ultimately show ?thesis
        using run k u False m p by (intro exI [of _ p] exI [of _ ?s]) auto
    qed
  qed
qed

theorem queue_create_correct_witness:
  "\<exists>p s'. mmosal_queue_create 8 12 ''q'' osal0 = Some (p, s') \<and> mmosal_queue_create 65536 65536 ''q'' osal0 = Some (0, osal0)"
  using queue_create_correct [OF osal0_live, of 8 12 "''q''"] queue_create_correct [OF osal0_live, of 65536 65536 "''q''"]
  by auto

end
