(* ===== verification/Halow_Blocking.thy ===== *)
theory Halow_Blocking
  imports Halow_Queue
begin

text \<open>
  The blocking operations of the OS layer. Each is a wait on the attempt that its
  non-blocking form makes, and one statement holds of all of them: what a blocking call
  reports and does is what its last attempt did, in whatever state the rest of the system
  had left.
\<close>

section \<open>A wait as its last attempt\<close>

definition last_attempt ::
    "('a sched_st_scheme \<Rightarrow> bool \<times> 'a sched_st_scheme) \<Rightarrow> u32 \<Rightarrow> 'a sched_st_scheme \<Rightarrow>
     (bool \<times> 'a sched_st_scheme) option \<Rightarrow> bool" where
  "last_attempt attempt t s r \<longleftrightarrow> (\<exists>b s' s0 s1. r = Some (b, s') \<and> in_task s0 \<and> attempt s0 = (b, s1)
     \<and> s' = (if b then mm_halow_sched_wake s1 else s1)
     \<and> (\<not> b \<longrightarrow> time_ms s + min (unat t) 10000 \<le> time_ms s') \<and> time_ms s \<le> time_ms s'
     \<and> time_ms s' \<le> time_ms s + min (unat t) 10000 + 2)"

lemma wait_last_attempt:
  assumes env: "wait_env (rest_env others) att in_task (\<lambda>_. 0) 1" and s: "in_task s" and t: "t \<noteq> UINT32_MAX"
  shows "last_attempt att t s (mm_halow_sched_wait (rest_env others) att t s)"
proof -
  have "t \<noteq> UINT32_MAX \<or> mm_halow_sched_teardown s" using t by blast
  from wait_env.sched_wait_bounded [OF env s this] obtain b s' s0 s1 where
    r: "mm_halow_sched_wait (rest_env others) att t s = Some (b, s')" "att s0 = (b, s1)" "in_task s0"
      "s' = (let s2 = (if mm_halow_task_cur s = 0
                then s1\<lparr>mm_halow_wait_depth := mm_halow_wait_depth s\<rparr> else s1)
             in if b then mm_halow_sched_wake s2 else s2)"
      "\<not> b \<longrightarrow> time_ms s + min (unat t) 10000 \<le> time_ms s'" "time_ms s \<le> time_ms s'"
      "time_ms s' \<le> time_ms s + min (unat t) 10000 + 2 * 1" by blast
  have "s' = (if b then mm_halow_sched_wake s1 else s1)" using r(4) s by (simp add: in_task_def)
  with r(1-3,5-) show ?thesis unfolding last_attempt_def
    by (intro exI [of _ b] exI [of _ s'] exI [of _ s0] exI [of _ s1]) simp
qed

interpretation pop_wait: wait_env "rest_env others" "mm_halow_queue_popped op" in_task "\<lambda>_. 0" 1
  for others :: "'a osal_st_scheme \<Rightarrow> 'a osal_st_scheme" and op
  by (rule rest_wait_env)
    (auto simp: mm_halow_queue_popped_def pop_eq Let_def mm_halow_sched_wake_def split: if_splits)

interpretation push_wait: wait_env "rest_env others" "mm_halow_queue_pushed op" in_task "\<lambda>_. 0" 1
  for others :: "'a osal_st_scheme \<Rightarrow> 'a osal_st_scheme" and op
  by (rule rest_wait_env)
    (auto simp: mm_halow_queue_pushed_def push_eq Let_def mm_halow_sched_wake_def split: if_splits)

section \<open>Joining\<close>

text \<open>The rest of the system retires the task when it runs.\<close>

definition retirer :: "nat \<Rightarrow> 'a osal_st_scheme \<Rightarrow> 'a osal_st_scheme" where
  "retirer p s = mm_halow_sched_task_delete p s"

interpretation retired: served_wait "rest_env (retirer (Suc i))" "mm_halow_task_is_dead (Suc i)" in_task "\<lambda>_. 0" 1
    "\<lambda>s. if t_state (mm_halow_tasks s (Suc i)) = MM_HALOW_TASK_DEAD then 0 else 1"
  for i
proof (intro served_wait.intro served_wait_axioms.intro)
  show "wait_env (rest_env (retirer (Suc i))) (mm_halow_task_is_dead (Suc i)) in_task (\<lambda>_. 0) 1"
    by (rule join_wait.wait_env_axioms)
qed (auto simp: mm_halow_task_is_dead_def in_task_def mm_halow_sched_park_def rest_env_def retirer_def
      mm_halow_sched_task_delete_def mm_halow_sched_wake_def upd_task_def)

section \<open>Property\<close>

text \<open>
  C32: Blocking operations. A task that waits on a semaphore, a binary semaphore, a queue
  with an item or with room, or a notification, with a finite timeout and whatever the rest
  of the system does meanwhile, returns: the result and the effect are those of its last
  non-blocking attempt, in the state it found then, and it gives up only after the whole
  (capped) timeout, at most two hand-overs late. A null semaphore is refused at once. A join
  returns, and the task is dead, if every hand-over brings its end closer.
\<close>

theorem blocking_ops_correct:
  fixes s :: "'a osal_st_scheme"
  assumes s: "in_task s" and t: "t \<noteq> UINT32_MAX"
  shows "(if p = 0 then mmosal_sem_wait (rest_env others) p t s = Some (False, s)
              \<and> mmosal_semb_wait (rest_env others) p t s = Some (False, s)
          else last_attempt (mm_halow_sem_taken p) t s (mmosal_sem_wait (rest_env others) p t s)
              \<and> last_attempt (mm_halow_semb_taken p) t s (mmosal_semb_wait (rest_env others) p t s))
    \<and> last_attempt (mmosal_queue_pop_from_isr p item) t s (mmosal_queue_pop (rest_env others) p item t s)
    \<and> last_attempt (mmosal_queue_push_from_isr p item) t s (mmosal_queue_push (rest_env others) p item t s)
    \<and> last_attempt (mm_halow_task_notified (mm_halow_task_cur s)) t s
        (mmosal_task_wait_for_notification (rest_env others) t s)
    \<and> (served_wait (rest_env others) (mm_halow_task_is_dead q) in_task (\<lambda>_. 0) 1 rank \<and> \<not> mm_halow_sched_teardown s
        \<longrightarrow> (\<exists>s'. mmosal_task_join (rest_env others) q s = Some s' \<and> t_state (mm_halow_tasks s' q) = MM_HALOW_TASK_DEAD))"
proof (intro conjI impI)
  show "if p = 0 then mmosal_sem_wait (rest_env others) p t s = Some (False, s)
              \<and> mmosal_semb_wait (rest_env others) p t s = Some (False, s)
          else last_attempt (mm_halow_sem_taken p) t s (mmosal_sem_wait (rest_env others) p t s)
              \<and> last_attempt (mm_halow_semb_taken p) t s (mmosal_semb_wait (rest_env others) p t s)"
    using wait_last_attempt [OF sem_wait.wait_env_axioms s t] wait_last_attempt [OF semb_wait.wait_env_axioms s t]
    by (simp add: mmosal_sem_wait_def mmosal_semb_wait_def)
  show "last_attempt (mmosal_queue_pop_from_isr p item) t s (mmosal_queue_pop (rest_env others) p item t s)"
    using wait_last_attempt [OF pop_wait.wait_env_axioms s t, of "(p, item)" others]
    by (simp add: mmosal_queue_pop_def mm_halow_queue_popped_def [abs_def])
  show "last_attempt (mmosal_queue_push_from_isr p item) t s (mmosal_queue_push (rest_env others) p item t s)"
    using wait_last_attempt [OF push_wait.wait_env_axioms s t, of "(p, item)" others]
    by (simp add: mmosal_queue_push_def mm_halow_queue_pushed_def [abs_def])
  show "last_attempt (mm_halow_task_notified (mm_halow_task_cur s)) t s
      (mmosal_task_wait_for_notification (rest_env others) t s)"
    using wait_last_attempt [OF notify_wait.wait_env_axioms s t, of "mm_halow_task_cur s" others] s
    by (simp add: mmosal_task_wait_for_notification_def mm_halow_sched_task_current_def in_task_def)
  assume "served_wait (rest_env others) (mm_halow_task_is_dead q) in_task (\<lambda>_. 0) 1 rank \<and> \<not> mm_halow_sched_teardown s"
  then show "\<exists>s'. mmosal_task_join (rest_env others) q s = Some s' \<and> t_state (mm_halow_tasks s' q) = MM_HALOW_TASK_DEAD"
    using sched_wait_forever_served' [of "rest_env others" "mm_halow_task_is_dead q" in_task "\<lambda>_. 0" 1 rank s] s
    by (auto simp: mmosal_task_join_def mm_halow_task_is_dead_def in_task_def mm_halow_sched_wake_def)
qed

theorem blocking_ops_correct_witness:
  "\<exists>b s' s''. mmosal_sem_wait (rest_env (retirer 2)) 64 50 osal0 = Some (b, s') \<and> time_ms s' \<le> 52
     \<and> mmosal_task_join (rest_env (retirer 2)) 2 osal0 = Some s''"
proof -
  have s: "in_task osal0" "(50 :: u32) \<noteq> UINT32_MAX" "\<not> mm_halow_sched_teardown osal0" "time_ms osal0 = 0"
    by (simp_all add: in_task_def osal0_def)
  note b = blocking_ops_correct [OF s(1,2), of 64 "retirer 2" 0 2 "\<lambda>s. if t_state (mm_halow_tasks s 2) = MM_HALOW_TASK_DEAD then 0 else 1"]
  have "served_wait (rest_env (retirer 2)) (mm_halow_task_is_dead 2) in_task (\<lambda>_. 0) 1
      (\<lambda>s :: osal_st. if t_state (mm_halow_tasks s 2) = MM_HALOW_TASK_DEAD then 0 else 1)"
    using retired.served_wait_axioms [of 1] by (simp add: numeral_2_eq_2)
  with b s(3,4) show ?thesis unfolding last_attempt_def by fastforce
qed

end
