(* ===== verification/Halow_Frame.thy ===== *)
theory Halow_Frame
  imports Halow_Wait
begin

text \<open>
  What running others does to the rest of the driver. A pass over the tasks, the reaper, a
  yield, a park and a wait change the scheduler's own variables, and otherwise whatever the
  tasks, the interrupts and the port's hook do. The locales \<open>sched_frame\<close> and \<open>handover\<close> say
  this for any reflexive and transitive relation: if each turn of a task keeps it, a whole pass
  does, and if every way of giving up the processor keeps it, a wait does.
\<close>

section \<open>The scheduler's own changes\<close>

definition own_change :: "'a sched_st_scheme \<Rightarrow> 'a sched_st_scheme \<Rightarrow> bool" where
  "own_change s s' \<longleftrightarrow> sched_st.more s' = sched_st.more s \<and> mm_halow_heap_mem s' = mm_halow_heap_mem s
     \<and> mm_halow_sched_in_callback s' = mm_halow_sched_in_callback s
     \<and> mm_halow_sched_teardown s' = mm_halow_sched_teardown s"

definition same_claim :: "'a sched_st_scheme \<Rightarrow> 'a sched_st_scheme \<Rightarrow> bool" where
  "same_claim s s' \<longleftrightarrow> mm_halow_service_owner s' = mm_halow_service_owner s
     \<and> mm_halow_service_depth s' = mm_halow_service_depth s"

lemma same_claim_refl [simp]: "same_claim s s"
  by (simp add: same_claim_def)

lemma same_claim_trans: "same_claim s t \<Longrightarrow> same_claim t u \<Longrightarrow> same_claim s u"
  by (simp add: same_claim_def)

text \<open>The reaper changes the task table, the list and the pool.\<close>

definition reap_change :: "'a sched_st_scheme \<Rightarrow> 'a sched_st_scheme \<Rightarrow> bool" where
  "reap_change s s' \<longleftrightarrow> own_change s s' \<and> same_claim s s' \<and> time_ms s' = time_ms s
     \<and> mm_halow_sched_wake_at s' = mm_halow_sched_wake_at s \<and> mm_halow_sched_woken s' = mm_halow_sched_woken s"

lemma reap_change_trans: "reap_change s t \<Longrightarrow> reap_change t u \<Longrightarrow> reap_change s u"
  by (simp add: reap_change_def own_change_def same_claim_def)

lemma reap_change_steps:
  "reap_change s s" "reap_change s (set_next prev t s)" "reap_change s (upd_task t f s)"
  "mm_halow_osal_free p s = Some s' \<Longrightarrow> reap_change s s'"
  by (auto simp: reap_change_def own_change_def same_claim_def set_next_def upd_task_def free_eq split: if_splits)

lemma reap_changes:
  assumes run: "reap_from prev task s = Some s'" shows "reap_change s s'"
proof (rule reap_from.raw_induct [where P = "\<lambda>prev task. reap_change", OF _ run], goal_cases)
  case (1 f prev task s s')
  consider (stop) "task = 0" | (skip) "task \<noteq> 0" "t_state (mm_halow_tasks s task) \<noteq> MM_HALOW_TASK_DEAD"
    | (dead) "task \<noteq> 0" "t_state (mm_halow_tasks s task) = MM_HALOW_TASK_DEAD" by blast
  then show ?case
  proof cases
    case stop
    with 1(2) have "s' = s" by simp
    then show ?thesis by (simp add: reap_change_steps)
  next
    case skip
    with 1(2) have "f task (t_next (mm_halow_tasks s task)) s = Some s'" by simp
    then show ?thesis by (rule 1(1))
  next
    case dead
    let ?s0 = "set_next prev (t_next (mm_halow_tasks s task)) s"
    obtain s1 where s1: "mm_halow_osal_free (t_stack (mm_halow_tasks ?s0 task)) ?s0 = Some s1"
      "f prev (t_next (mm_halow_tasks s task)) (upd_task task (\<lambda>t. t\<lparr>t_stack := 0, t_next := 0\<rparr>) s1) = Some s'"
      using 1(2) dead by (auto split: bind_splits)
    have "reap_change s s1" by (rule reap_change_trans [OF reap_change_steps(2) reap_change_steps(4) [OF s1(1)]])
    moreover have "reap_change s1 s'" by (rule reap_change_trans [OF reap_change_steps(3) 1(1) [OF s1(2)]])
    ultimately show ?thesis by (rule reap_change_trans)
  qed
qed

lemma reap_own: "mm_halow_sched_reap s = Some s' \<Longrightarrow> own_change s s' \<and> same_claim s s'"
  using reap_changes [of 0 "mm_halow_task_list s" s s'] by (simp add: mm_halow_sched_reap_def reap_change_def)

lemma claim_own: "mm_halow_sched_claim s = (b, s') \<Longrightarrow> own_change s s'"
  by (auto simp: mm_halow_sched_claim_def atomic_defs own_change_def Let_def split: if_splits)

lemma release_own: "own_change s (mm_halow_sched_release s)"
  by (auto simp: mm_halow_sched_release_def atomic_defs own_change_def Let_def)

section \<open>A pass over the tasks\<close>

locale sched_frame =
  fixes env :: "'a sched_st_scheme sched_env" and R :: "'a sched_st_scheme \<Rightarrow> 'a sched_st_scheme \<Rightarrow> bool"
  assumes own: "own_change s s' \<Longrightarrow> same_claim s s' \<Longrightarrow> R s s'"
    and trans: "R s t \<Longrightarrow> R t u \<Longrightarrow> R s u"
    and turn: "p \<noteq> 0 \<Longrightarrow> mm_halow_task_cur s = p \<Longrightarrow> turn env p s = Some s' \<Longrightarrow> R s s'"
begin

lemma tasks_rel:
  assumes run: "run_tasks env task s = Some s'" shows "R s s'"
proof (rule mp [OF run_tasks.raw_induct [where P = "\<lambda>env' task s s'. env' = env \<longrightarrow> R s s'", OF _ run]], goal_cases)
  case (1 f env' task s s')
  show ?case
  proof
    assume env: "env' = env"
    show "R s s'"
    proof (cases "task \<noteq> 0 \<and> t_state (mm_halow_tasks s task) = MM_HALOW_TASK_READY")
      case True
      then obtain s1 where s1: "turn env task (emit (Ev_turn task) (s\<lparr>mm_halow_task_cur := task\<rparr>)) = Some s1"
        "f env (t_next (mm_halow_tasks s1 task)) (s1\<lparr>mm_halow_task_cur := 0\<rparr>) = Some s'"
        using 1(2) env by (auto split: bind_splits)
      have "R s (emit (Ev_turn task) (s\<lparr>mm_halow_task_cur := task\<rparr>))"
        by (rule own) (simp_all add: emit_def own_change_def same_claim_def)
      moreover have "R (emit (Ev_turn task) (s\<lparr>mm_halow_task_cur := task\<rparr>)) s1"
        by (rule turn [OF _ _ s1(1)]) (use True in \<open>simp_all add: emit_def\<close>)
      moreover have "R s1 (s1\<lparr>mm_halow_task_cur := 0\<rparr>)" by (rule own) (simp_all add: own_change_def same_claim_def)
      moreover have "R (s1\<lparr>mm_halow_task_cur := 0\<rparr>) s'" using 1(1) [OF s1(2)] by simp
      ultimately show ?thesis by (blast intro: trans)
    next
      case False
      with 1 env show ?thesis by (auto split: if_splits intro: own simp: own_change_def)
    qed
  qed
qed simp

lemma passes_rel: "run_passes env n s = Some s' \<Longrightarrow> R s s'"
proof (induction n arbitrary: s)
  case 0
  then show ?case by (auto intro: own simp: own_change_def)
next
  case (Suc n)
  show ?case
  proof (cases "mm_halow_pass_expired s")
    case False
    let ?s1 = "mm_halow_sched_wake_at_reset (s\<lparr>mm_halow_sched_woken := False\<rparr>)"
    obtain s2 where s2: "run_tasks env (mm_halow_task_list ?s1) ?s1 = Some s2"
      "(if \<not> mm_halow_sched_woken s2 then Some s2 else run_passes env n s2) = Some s'"
      using Suc.prems False by (auto simp: Let_def split: bind_splits)
    have "R s ?s1" by (rule own) (simp_all add: own_change_def same_claim_def mm_halow_sched_wake_at_reset_def)
    then have "R s s2" using tasks_rel [OF s2(1)] by (rule trans)
    with s2(2) Suc.IH [of s2] show ?thesis by (auto split: if_splits intro: trans)
  qed (use Suc.prems in \<open>auto intro: own simp: own_change_def\<close>)
qed

lemma run_rel:
  assumes run: "mm_halow_sched_run env s = Some s'" shows "R s s'"
proof (cases "mm_halow_sched_running s \<or> mm_halow_task_cur s \<noteq> 0")
  case False
  let ?s1 = "s\<lparr>mm_halow_sched_running := True, mm_halow_sched_deadline := mm_halow_ticks_ms s + MM_HALOW_SCHED_BUDGET_MS\<rparr>"
  obtain s2 s3 where s: "run_passes env MM_HALOW_SCHED_PASSES ?s1 = Some s2" "mm_halow_sched_reap s2 = Some s3"
    "s' = s3\<lparr>mm_halow_sched_running := False\<rparr>"
    using run False by (auto simp: mm_halow_sched_run_def Let_def split: bind_splits)
  have "R s ?s1" by (rule own) (simp_all add: own_change_def same_claim_def)
  moreover have "R ?s1 s2" by (rule passes_rel [OF s(1)])
  moreover have "R s2 s3" using reap_own [OF s(2)] own by blast
  moreover have "R s3 s'" by (rule own) (simp_all add: s(3) own_change_def same_claim_def)
  ultimately show ?thesis by (blast intro: trans)
qed (use run in \<open>auto simp: mm_halow_sched_run_def own_change_def intro: own\<close>)

end

section \<open>Giving up the processor\<close>

locale handover = sched_frame +
  assumes own_any: "own_change s s' \<Longrightarrow> R s s'"
    and switch: "switch env s = Some s' \<Longrightarrow> R s s'"
    and hook: "R s (hook env s)"
    and irq: "R s (irq env s)"
begin

lemma yield_rel:
  assumes run: "mm_halow_sched_yield env s = Some s'" shows "R s s'"
proof (cases "mm_halow_task_cur s = 0")
  case True
  obtain b s1 where c: "mm_halow_sched_claim s = (b, s1)" by (cases "mm_halow_sched_claim s")
  obtain s2 where s2: "(if b then do { s' \<leftarrow> mm_halow_sched_run env s1; Some (mm_halow_sched_release s') } else Some s1) = Some s2"
    "s' = (if \<not> mm_halow_in_irq s2 then hook env s2 else s2)"
    using run True c by (auto simp: mm_halow_sched_yield_def split: bind_splits)
  have "R s s1" by (rule own_any [OF claim_own [OF c]])
  moreover have "R s1 s2" using s2(1)
    by (auto simp: own_change_def split: if_splits bind_splits intro: own_any trans [OF run_rel own_any [OF release_own]])
  moreover have "R s2 s'" using s2(2) hook own_any [of s2 s2] by (auto simp: own_change_def)
  ultimately show ?thesis by (blast intro: trans)
next
  case False
  then have "switch env (s\<lparr>mm_halow_sched_woken := True\<rparr>) = Some s'" using run by (simp add: mm_halow_sched_yield_def)
  from trans [OF own_any switch [OF this]] show ?thesis by (simp add: own_change_def)
qed

lemma park_rel:
  assumes run: "mm_halow_sched_park env timed w s = Some s'" shows "R s s'"
proof (cases "mm_halow_task_cur s = 0")
  case False
  let ?s1 = "if timed \<and> sint (w - mm_halow_sched_wake_at s) < 0 then s\<lparr>mm_halow_sched_wake_at := w\<rparr> else s"
  have "switch env ?s1 = Some s'" using run False by (simp add: mm_halow_sched_park_def Let_def)
  from trans [OF own_any switch [OF this]] show ?thesis by (simp add: own_change_def)
qed (use run in \<open>simp add: mm_halow_sched_park_def yield_rel\<close>)

lemma loop_rel:
  assumes cond: "\<And>s b s'. cond s = (b, s') \<Longrightarrow> R s s'" and run: "wait_loop env cond t st fe s = Some (b, s')"
  shows "R s s'"
proof -
  have "env = env \<and> cond = cond \<longrightarrow> R s (snd (b, s'))"
  proof (rule wait_loop.raw_induct [where P = "\<lambda>env' cond' t st fe s r. env' = env \<and> cond' = cond \<longrightarrow> R s (snd r)", OF _ run],
      goal_cases)
    case (1 f env' cond' t st fe s r)
    show ?case
    proof (intro impI, elim conjE)
      assume env: "env' = env" "cond' = cond"
      obtain c s1 where c: "cond s = (c, s1)" by (cases "cond s")
      let ?s2 = "irq env s1"
      consider "snd r = s1"
        | s2 where "mm_halow_sched_park env False 0 s1 = Some s2" "f env cond t st fe s2 = Some r"
        | "cond ?s2 = r"
        | w t' st' s3 where "mm_halow_sched_park env True w ?s2 = Some s3" "f env cond t' st' False s3 = Some r"
        using 1(2) unfolding env c by (auto simp: Let_def split: if_splits bind_splits)
      then have "R s1 (snd r)"
      proof cases
        case 1
        then show ?thesis by (auto intro: own_any simp: own_change_def)
      next
        case (2 s2)
        with 1(1) [OF 2(2)] show ?thesis using env by (auto intro: trans park_rel)
      next
        case 3
        then show ?thesis by (cases r) (auto intro: trans irq cond)
      next
        case (4 w t' st' s3)
        with 1(1) [OF 4(2)] show ?thesis using env trans [OF irq park_rel [OF 4(1)]] by (auto intro: trans)
      qed
      with cond [OF c] show "R s (snd r)" by (rule trans)
    qed
  qed
  then show ?thesis by simp
qed

lemma wait_rel:
  assumes cond: "\<And>s b s'. cond s = (b, s') \<Longrightarrow> R s s'" and run: "mm_halow_sched_wait env cond t s = Some (b, s')"
  shows "R s s'"
proof -
  let ?s1 = "if mm_halow_sched_task_current s = 0 then s\<lparr>mm_halow_wait_depth := mm_halow_wait_depth s + 1\<rparr> else s"
  obtain t' fe st s2 where s2: "wait_loop env cond t' st fe ?s1 = Some (b, s2)"
    and s': "s' = (let s3 = (if mm_halow_sched_task_current s = 0 then s2\<lparr>mm_halow_wait_depth := mm_halow_wait_depth s2 - 1\<rparr> else s2)
                   in if b then mm_halow_sched_wake s3 else s3)"
    using run by (auto simp: mm_halow_sched_wait_def Let_def split: bind_splits)
  have "R s ?s1" "R s2 s'" by (rule own_any, simp add: own_change_def s' mm_halow_sched_wake_def Let_def)+
  moreover have "R ?s1 s2" by (rule loop_rel [OF cond s2])
  ultimately show ?thesis by (blast intro: trans)
qed

end

section \<open>Scripted tasks\<close>

text \<open>Whatever program of driver operations a task runs, its turn changes the scheduler and the pool only.\<close>

definition task_change :: "'a sched_st_scheme \<Rightarrow> 'a sched_st_scheme \<Rightarrow> bool" where
  "task_change s s' \<longleftrightarrow> own_change s s' \<and> same_claim s s' \<and> mm_halow_task_cur s' = mm_halow_task_cur s"

lemma task_change_trans: "task_change s t \<Longrightarrow> task_change t u \<Longrightarrow> task_change s u"
  by (simp add: task_change_def own_change_def same_claim_def)

lemma task_change_steps:
  "task_change s s" "task_change s (upd_task p f s)" "task_change s (mm_halow_sched_wake s)"
  "task_change s (s\<lparr>time_ms := t\<rparr>)" "task_change s (s\<lparr>words := m\<rparr>)"
  "mm_halow_osal_malloc n s = Some (q, s') \<Longrightarrow> task_change s s'"
  "task_append p s = Some s' \<Longrightarrow> task_change s s'"
  by (auto simp: task_change_def own_change_def same_claim_def upd_task_def mm_halow_sched_wake_def malloc_eq
      task_append_def split: if_splits bind_splits)

lemma create_change:
  assumes "mm_halow_sched_task_create e x n nm s = Some (p, s')" shows "task_change s s'"
  using assms
  by (auto simp: mm_halow_sched_task_create_def Let_def mm_halow_sched_wake_def upd_task_def task_change_def own_change_def
      same_claim_def split: if_splits bind_splits option.splits dest!: task_change_steps(6,7))

lemma do_act_change: "do_act a s = Some s' \<Longrightarrow> task_change s s'"
  by (cases a) (auto simp: do_act_def mm_halow_sched_task_delete_def
      intro: task_change_steps create_change task_change_trans [OF task_change_steps(2) task_change_steps(3)])

lemma do_acts_change: "do_acts as s = Some s' \<Longrightarrow> task_change s s'"
  by (induction as arbitrary: s) (auto split: bind_splits intro: task_change_steps task_change_trans dest!: do_act_change)

lemma script_change:
  assumes "mm_halow_task_cur s \<noteq> 0" and "turn (script_env prog) p s = Some s'" shows "task_change s s'"
proof -
  obtain s1 where s1: "do_acts (fst (prog p s)) s = Some s1" "script_finish (snd (prog p s)) s1 = Some s'"
    using assms(2) by (auto simp: script_env_def split: bind_splits)
  have c: "task_change s s1" by (rule do_acts_change [OF s1(1)])
  then have "mm_halow_task_cur s1 \<noteq> 0" using assms(1) by (simp add: task_change_def)
  with s1(2) have "task_change s1 s'"
    by (cases "snd (prog p s)") (auto simp: script_finish_def mm_halow_sched_yield_def mm_halow_sched_park_def
        mm_halow_sched_task_delete_def mm_halow_sched_wake_def upd_task_def Let_def task_change_def own_change_def same_claim_def split: if_splits)
  with c show ?thesis by (rule task_change_trans)
qed

interpretation script_frame: sched_frame "script_env prog" same_claim for prog
proof (unfold_locales, goal_cases)
  case (3 p s s')
  then show ?case using script_change [of s prog p s'] by (simp add: task_change_def)
qed (simp_all add: same_claim_def)

end
