(* ===== verification/Halow_Deadline.thy ===== *)
theory Halow_Deadline
  imports Halow_Frame
begin

text \<open>
  The deadlines of parked tasks. A task that parks leaves behind only the earliest wake-up
  time, a 32-bit tick compared by the sign of a difference. The locale \<open>timed_waiters\<close> is a
  system whose tasks, when they have nothing else to do, park with their deadlines; in it the
  poll finds work after a run of the scheduler exactly when one of the deadlines has come.
\<close>

section \<open>The earliest of the deadlines\<close>

text \<open>Armed in the pass that began at time \<open>T\<close>, with the deadlines \<open>ds\<close> parked so far.\<close>

definition armed :: "nat \<Rightarrow> nat set \<Rightarrow> 'a sched_st_scheme \<Rightarrow> bool" where
  "armed T ds s \<longleftrightarrow> finite ds \<and> ds \<subseteq> {T..T + 2147483647}
     \<and> mm_halow_sched_wake_at s = of_nat (Min (insert (T + 2147483647) ds))"

lemma armed_cong: "mm_halow_sched_wake_at s' = mm_halow_sched_wake_at s \<Longrightarrow> armed T ds s' = armed T ds s"
  by (simp add: armed_def)

lemma armed_reset: "armed (time_ms s) {} (mm_halow_sched_wake_at_reset s)"
  by (simp add: armed_def mm_halow_sched_wake_at_reset_def mm_halow_ticks_ms_def)

lemma armed_Min: "armed T ds s \<Longrightarrow> Min (insert (T + 2147483647) ds) \<in> {T..T + 2147483647}"
  unfolding armed_def using Min_in [of "insert (T + 2147483647) ds"] by auto

text \<open>The two sides of a context switch: what a task leaves is what the scheduler finds.\<close>

definition scheduler_side :: "'a sched_st_scheme sched_env" where
  "scheduler_side = \<lparr>turn = (\<lambda>_. Some), switch = Some, hook = (\<lambda>s. s), irq = (\<lambda>s. s)\<rparr>"

lemma armed_park:
  assumes a: "armed T ds t" and d: "T \<le> d" "d \<le> T + 2147483647" and cur: "mm_halow_task_cur t \<noteq> 0"
    and park: "mm_halow_sched_park scheduler_side True (of_nat d) t = Some s'"
  shows "armed T (insert d ds) s'"
proof -
  let ?m = "Min (insert (T + 2147483647) ds)"
  have m: "T \<le> ?m" "?m \<le> T + 2147483647" using armed_Min [OF a] by simp_all
  have w: "mm_halow_sched_wake_at t = of_nat ?m" and fin: "finite ds" using a by (simp_all add: armed_def)
  have "tick_reached (of_nat d) (of_nat ?m) \<longleftrightarrow> ?m \<le> d"
    using m d by (intro tick_reached_of_nat) simp_all
  then have early: "sint ((of_nat d :: u32) - of_nat ?m) < 0 \<longleftrightarrow> d < ?m" by (simp only: tick_reached_def not_le [symmetric])
  have "mm_halow_sched_wake_at s' = of_nat (min d ?m)"
    using park cur w early by (auto simp: mm_halow_sched_park_def scheduler_side_def Let_def min_def)
  moreover have "Min (insert (T + 2147483647) (insert d ds)) = min d ?m"
    using fin by (subst insert_commute) simp
  ultimately show ?thesis using a d by (simp add: armed_def)
qed

lemma armed_pending:
  assumes a: "armed T ds u" and t: "T \<le> time_ms u" "time_ms u < T + 2147483647" and quiet: "\<not> mm_halow_sched_woken u"
  shows "mm_halow_sched_pending u \<longleftrightarrow> (\<exists>d\<in>ds. d \<le> time_ms u)"
proof -
  let ?m = "Min (insert (T + 2147483647) ds)"
  have m: "T \<le> ?m" "?m \<le> T + 2147483647" using armed_Min [OF a] by simp_all
  have w: "mm_halow_sched_wake_at u = of_nat ?m" and fin: "finite ds" using a by (simp_all add: armed_def)
  have "mm_halow_sched_pending u \<longleftrightarrow> tick_reached (of_nat (time_ms u)) (of_nat ?m)"
    using quiet w by (simp add: mm_halow_sched_pending_def mm_halow_ticks_ms_def)
  also have "\<dots> \<longleftrightarrow> ?m \<le> time_ms u"
    using m t by (intro tick_reached_of_nat) simp_all
  also have "\<dots> \<longleftrightarrow> (\<exists>d\<in>ds. d \<le> time_ms u)"
    using fin t by (subst Min_le_iff) auto
  finally show ?thesis .
qed

section \<open>The contract\<close>

text \<open>
  A turn that does not wake the scheduler ends in a park, with the task's deadline if it has
  one: not yet passed, and within the 10 s a wait may take.
\<close>

definition parked :: "nat option \<Rightarrow> 'a sched_st_scheme \<Rightarrow> 'a sched_st_scheme \<Rightarrow> bool" where
  "parked dl t s' \<longleftrightarrow> (case dl of None \<Rightarrow> mm_halow_sched_park scheduler_side False 0 t = Some s'
     | Some d \<Rightarrow> time_ms t \<le> d \<and> d \<le> time_ms t + 10000
         \<and> mm_halow_sched_park scheduler_side True (of_nat d) t = Some s')"

definition due :: "(nat \<Rightarrow> nat option) \<Rightarrow> nat list \<Rightarrow> nat set" where
  "due D ts = {d. \<exists>p\<in>set ts. D p = Some d}"

lemma due_simps [simp]: "due D [] = {}" "due D (p # ts) = set_option (D p) \<union> due D ts"
  by (auto simp: due_def)

locale timed_waiters = coop_turn env for env :: "'a sched_st_scheme sched_env" +
  fixes D :: "nat \<Rightarrow> nat option"
  assumes waits: "p \<noteq> 0 \<Longrightarrow> mm_halow_task_cur s = p \<Longrightarrow> turn env p s = Some s' \<Longrightarrow>
      turns (trace s') = turns (trace s) \<and> time_ms s \<le> time_ms s'
      \<and> (mm_halow_sched_woken s \<longrightarrow> mm_halow_sched_woken s')
      \<and> (mm_halow_sched_woken s' \<or> (\<exists>t. mm_halow_task_cur t = p \<and> time_ms t = time_ms s'
           \<and> mm_halow_sched_wake_at t = mm_halow_sched_wake_at s \<and> parked (D p) t s'))"
begin

lemma turn_arms:
  assumes p: "p \<noteq> 0" "mm_halow_task_cur s = p" and run: "turn env p s = Some s'" and a: "armed T ds s"
    and quiet: "\<not> mm_halow_sched_woken s'" and t: "T \<le> time_ms s" "time_ms s' < T + 1073741824"
  shows "armed T (set_option (D p) \<union> ds) s'"
proof -
  obtain t where t': "mm_halow_task_cur t = p" "time_ms t = time_ms s'"
    "mm_halow_sched_wake_at t = mm_halow_sched_wake_at s" "parked (D p) t s'" "time_ms s \<le> time_ms s'"
    using waits [OF p run] quiet by blast
  have a': "armed T ds t" using a t'(3) by (simp add: armed_def)
  show ?thesis
  proof (cases "D p")
    case None
    with t'(1,4) p(1) have "mm_halow_sched_wake_at s' = mm_halow_sched_wake_at t"
      by (simp add: parked_def mm_halow_sched_park_def scheduler_side_def)
    with a' None show ?thesis by (simp add: armed_def)
  next
    case (Some d)
    with t' t have "T \<le> d" "d \<le> T + 2147483647" by (simp_all add: parked_def)
    from armed_park [OF a' this] t'(1,4) p(1) Some show ?thesis by (simp add: parked_def)
  qed
qed

lemma tasks_arm:
  assumes run: "run_tasks env task s = Some s'"
  shows "(mm_halow_sched_woken s \<longrightarrow> mm_halow_sched_woken s') \<and> time_ms s \<le> time_ms s'
    \<and> (\<exists>ts. turns (trace s') = turns (trace s) @ ts
         \<and> (armed T ds s \<and> T \<le> time_ms s \<and> \<not> mm_halow_sched_woken s' \<and> time_ms s' < T + 1073741824
              \<longrightarrow> armed T (due D ts \<union> ds) s'))"
    (is "?P ds s s'")
proof -
  have "env = env \<longrightarrow> (\<forall>ds. ?P ds s s')"
  proof (rule run_tasks.raw_induct [where P = "\<lambda>env' task s s'. env' = env \<longrightarrow> (\<forall>ds. ?P ds s s')", OF _ run], goal_cases)
    case (1 f env' task s s')
    show ?case
    proof (intro impI allI)
      fix ds assume env: "env' = env"
      consider (stop) "task = 0" | (skip) "task \<noteq> 0" "t_state (mm_halow_tasks s task) \<noteq> MM_HALOW_TASK_READY"
        | (go) "task \<noteq> 0" "t_state (mm_halow_tasks s task) = MM_HALOW_TASK_READY" by blast
      then show "?P ds s s'"
      proof cases
        case stop
        with 1(2) have "s' = s" by simp
        then show ?thesis by (auto intro!: exI [of _ "[]"])
      next
        case skip
        with 1(2) env have "f env (t_next (mm_halow_tasks s task)) s = Some s'" by simp
        from 1(1) [OF this] show ?thesis by blast
      next
        case go
        let ?s0 = "emit (Ev_turn task) (s\<lparr>mm_halow_task_cur := task\<rparr>)"
        obtain s1 where s1: "turn env task ?s0 = Some s1"
          "f env (t_next (mm_halow_tasks s1 task)) (s1\<lparr>mm_halow_task_cur := 0\<rparr>) = Some s'"
          using 1(2) go env by (auto split: bind_splits)
        let ?s2 = "s1\<lparr>mm_halow_task_cur := 0\<rparr>"
        have cur: "mm_halow_task_cur ?s0 = task" by simp
        note w = waits [OF go(1) cur s1(1)]
        have IH: "?P (set_option (D task) \<union> ds) ?s2 s'" using 1(1) [OF s1(2)] by blast
        then obtain ts where ts: "turns (trace s') = turns (trace ?s2) @ ts"
          "armed T (set_option (D task) \<union> ds) ?s2 \<and> T \<le> time_ms ?s2 \<and> \<not> mm_halow_sched_woken s' \<and> time_ms s' < T + 1073741824
              \<longrightarrow> armed T (due D ts \<union> (set_option (D task) \<union> ds)) s'" by blast
        have mono: "mm_halow_sched_woken s1 \<longrightarrow> mm_halow_sched_woken s'" "time_ms s1 \<le> time_ms s'"
          using IH by simp_all
        have "turns (trace s') = turns (trace s) @ (task # ts)" using ts(1) w by simp
        moreover have "armed T (due D (task # ts) \<union> ds) s'"
          if "armed T ds s \<and> T \<le> time_ms s \<and> \<not> mm_halow_sched_woken s' \<and> time_ms s' < T + 1073741824"
        proof -
          have "armed T (set_option (D task) \<union> ds) s1"
            by (rule turn_arms [OF go(1) cur s1(1)]) (use that mono in \<open>auto simp: armed_def emit_def\<close>)
          then have "armed T (set_option (D task) \<union> ds) ?s2" by (simp add: armed_def)
          with ts(2) that w have "armed T (due D ts \<union> (set_option (D task) \<union> ds)) s'" by simp
          then show ?thesis by (simp add: Un_ac)
        qed
        ultimately show ?thesis using w mono by (intro conjI exI [of _ "task # ts"]) (auto simp: emit_def)
      qed
    qed
  qed
  then show ?thesis by blast
qed

text \<open>A run that ends with nobody woken ends with a whole pass.\<close>

lemma last_pass:
  assumes "sched_ok s q L" and "mm_halow_sched_running s" and "mm_halow_task_cur s = 0"
    and "run_passes env n s = Some s'" and "0 < n" "\<not> mm_halow_pass_expired s" and "\<not> mm_halow_sched_woken s'"
  shows "\<exists>u q1 L1. time_ms s \<le> time_ms u \<and> sched_ok u q1 L1 \<and> mm_halow_sched_running u \<and> mm_halow_task_cur u = 0
    \<and> armed (time_ms u) {} u \<and> run_tasks env (mm_halow_task_list u) u = Some s'"
  using assms
proof (induction n arbitrary: s q L)
  case (Suc n)
  let ?u = "mm_halow_sched_wake_at_reset (s\<lparr>mm_halow_sched_woken := False\<rparr>)"
  have ok1: "sched_ok ?u ([] @ q) L" using Suc.prems(1) by (simp add: mm_halow_sched_wake_at_reset_def)
  have fr: "mm_halow_sched_running ?u" "mm_halow_task_cur ?u = 0" "time_ms ?u = time_ms s" "armed (time_ms ?u) {} ?u"
    using Suc.prems(2,3) armed_reset [of "s\<lparr>mm_halow_sched_woken := False\<rparr>"] by (simp_all add: mm_halow_sched_wake_at_reset_def)
  have "chain (task_next ?u) 0 (mm_halow_task_list ?u) q" using ok1 by (simp add: sched_ok_def)
  from run_tasks_ok [OF ok1 this fr(1,2)] obtain s2 new L2 where
    s2: "run_tasks env (mm_halow_task_list ?u) ?u = Some s2" "sched_ok s2 (q @ new) L2"
      "mm_halow_sched_running s2" "mm_halow_task_cur s2 = 0" "time_ms ?u \<le> time_ms s2" by auto
  have rest: "(if \<not> mm_halow_sched_woken s2 then Some s2 else run_passes env n s2) = Some s'"
    using Suc.prems(4,6) s2(1) by (simp add: Let_def)
  show ?case
  proof (cases "mm_halow_sched_woken s2")
    case False
    with rest s2(1) ok1 fr show ?thesis by (intro exI [of _ ?u] exI [of _ q] exI [of _ L]) simp
  next
    case True
    with rest have r: "run_passes env n s2 = Some s'" by simp
    have "\<not> (n = 0 \<or> mm_halow_pass_expired s2)"
    proof
      assume "n = 0 \<or> mm_halow_pass_expired s2"
      then have "s' = s2" using r by (cases n) auto
      with True Suc.prems(7) show False by simp
    qed
    then have "0 < n" "\<not> mm_halow_pass_expired s2" by simp_all
    from Suc.IH [OF s2(2-4) r this Suc.prems(7)] s2(5) fr(3) show ?thesis by (auto intro: le_trans)
  qed
qed simp

lemma run_arms:
  assumes ok: "sched_ok s q L" and idle: "\<not> mm_halow_sched_running s" "mm_halow_task_cur s = 0"
    and run: "mm_halow_sched_run env s = Some s'" and quiet: "\<not> mm_halow_sched_woken s'"
    and t: "time_ms s' < time_ms s + 1073741824"
  shows "\<exists>T ts pre q' L'. T \<in> {time_ms s..time_ms s'} \<and> sched_ok s' q' L' \<and> set q' \<subseteq> set ts
    \<and> turns (trace s') = pre @ ts \<and> armed T (due D ts) s'"
proof -
  let ?s1 = "s\<lparr>mm_halow_sched_running := True,
               mm_halow_sched_deadline := mm_halow_ticks_ms s + MM_HALOW_SCHED_BUDGET_MS\<rparr>"
  obtain s2 s3 where s: "run_passes env MM_HALOW_SCHED_PASSES ?s1 = Some s2" "mm_halow_sched_reap s2 = Some s3"
    "s' = s3\<lparr>mm_halow_sched_running := False\<rparr>"
    using run idle by (auto simp: mm_halow_sched_run_def Let_def split: bind_splits)
  have reap: "mm_halow_sched_wake_at s3 = mm_halow_sched_wake_at s2" "mm_halow_sched_woken s3 = mm_halow_sched_woken s2"
    "time_ms s3 = time_ms s2"
    using reap_changes [of 0 "mm_halow_task_list s2" s2 s3] s(2) by (simp_all add: mm_halow_sched_reap_def reap_change_def)
  have fresh: "\<not> mm_halow_pass_expired ?s1"
    by (simp add: mm_halow_pass_expired_def mm_halow_ticks_ms_def tick_reached_iff unat_neg_u32)
  have "sched_ok ?s1 q L" "mm_halow_sched_running ?s1" "mm_halow_task_cur ?s1 = 0" using ok idle by simp_all
  from last_pass [OF this s(1) _ fresh] quiet s(3) reap obtain u q1 L1 where
    u: "time_ms s \<le> time_ms u" "sched_ok u ([] @ q1) L1" "mm_halow_sched_running u" "mm_halow_task_cur u = 0"
      "armed (time_ms u) {} u" "run_tasks env (mm_halow_task_list u) u = Some s2" by auto
  have "chain (task_next u) 0 (mm_halow_task_list u) q1" using u(2) by (simp add: sched_ok_def)
  from run_tasks_ok [OF u(2) this u(3,4)] u(6) obtain new L2 ts where
    r: "sched_ok s2 (q1 @ new) L2" "turns (trace s2) = turns (trace u) @ ts" "time_ms u \<le> time_ms s2"
      "\<forall>p \<in> set (q1 @ new). task_ready s2 p \<longrightarrow> p \<in> set ts" by auto
  have "time_ms s2 < time_ms u + 1073741824" using t s(3) reap(3) u(1) by simp
  with tasks_arm [OF u(6), of "time_ms u" "{}"] u(5) quiet s(3) reap r(2) have a: "armed (time_ms u) (due D ts) s2" by auto
  from reap_ok [OF r(1)] s(2) obtain L3 where
    q': "sched_ok s3 (filter (\<lambda>p. \<not> task_dead s2 p) (q1 @ new)) L3" "trace s3 = trace s2" by auto
  have "task_ready s2 p \<or> task_dead s2 p" if "p \<in> set (q1 @ new)" for p using r(1) that by (auto simp: sched_ok_def)
  with r(4) have "set (filter (\<lambda>p. \<not> task_dead s2 p) (q1 @ new)) \<subseteq> set ts" by auto
  with u(1) r(2,3) a q' s(3) reap show ?thesis
    by (intro exI [of _ "time_ms u"] exI [of _ ts] exI [of _ "turns (trace u)"] exI conjI) (auto simp: armed_def)
qed

end

section \<open>Tasks that work, then wait\<close>

text \<open>
  Each task works for a while in its turn; then it goes on waiting for its deadline, if that
  is ahead, or it is done waiting and yields.
\<close>

definition waiter ::
    "(nat \<Rightarrow> 'a sched_st_scheme \<Rightarrow> nat) \<Rightarrow> (nat \<Rightarrow> nat option) \<Rightarrow> nat \<Rightarrow> 'a sched_st_scheme \<Rightarrow> act list \<times> finish" where
  "waiter cost D p s =
     ([Work (cost p s)],
      case D p of None \<Rightarrow> Parks False 0
      | Some d \<Rightarrow> if time_ms s + cost p s \<le> d \<and> d \<le> time_ms s + cost p s + 10000 then Parks True (of_nat d) else Yields)"

interpretation waiting: timed_waiters "script_env (waiter cost D)" D for cost D
proof (unfold_locales, goal_cases)
  case (1 p s s')
  let ?t = "s\<lparr>time_ms := time_ms s + cost p s\<rparr>"
  have run: "script_finish (snd (waiter cost D p s)) ?t = Some s'"
    using 1(3) by (simp add: script_env_def waiter_def do_act_def)
  have cur: "mm_halow_task_cur ?t = p" using 1(2) by simp
  show ?case
  proof (cases "snd (waiter cost D p s)")
    case Yields
    with run cur 1(1) have "s' = ?t\<lparr>mm_halow_sched_woken := True\<rparr>"
      by (auto simp: script_finish_def mm_halow_sched_yield_def)
    then show ?thesis by simp
  next
    case (Parks timed w)
    have park: "mm_halow_sched_park scheduler_side timed w ?t = Some s'"
      using run Parks by (simp add: script_finish_def scheduler_side_def)
    then have s': "s' = (if timed \<and> sint (w - mm_halow_sched_wake_at ?t) < 0 then ?t\<lparr>mm_halow_sched_wake_at := w\<rparr> else ?t)"
      using cur 1(1) by (simp add: mm_halow_sched_park_def scheduler_side_def Let_def)
    have "parked (D p) ?t s'"
      using Parks park by (auto simp: waiter_def parked_def split: option.splits if_splits)
    moreover have "turns (trace s') = turns (trace s)" "time_ms s' = time_ms ?t"
      "mm_halow_sched_woken s' = mm_halow_sched_woken s" by (simp_all add: s')
    ultimately show ?thesis using cur by (intro conjI disjI2 exI [of _ ?t]) simp_all
  next
    case Exits
    then show ?thesis by (auto simp: waiter_def split: option.splits if_splits)
  qed
qed

section \<open>Property\<close>

text \<open>
  C9: No timeout is missed. When a run of the scheduler ends with nobody woken, its tasks are
  parked, some with deadlines, which are 32-bit ticks that may wrap. From then on, for at
  least 2^30 ms, and as long as nobody parks or wakes, mm_halow_sched_pending() says there is
  work exactly when the deadline of one of the tasks served last has come; every task that is
  left is among those, so none oversleeps, and no poll is wasted while none is due.
\<close>

theorem timeouts_not_missed:
  fixes env :: "'a sched_st_scheme sched_env"
  assumes w: "timed_waiters env D" and ok: "sched_ok s q L"
    and idle: "\<not> mm_halow_sched_running s" "mm_halow_task_cur s = 0"
    and run: "mm_halow_sched_run env s = Some s'" and quiet: "\<not> mm_halow_sched_woken s'"
    and short: "time_ms s' < time_ms s + 2 ^ 30"
  shows "\<exists>ts pre q' L'. sched_ok s' q' L' \<and> set q' \<subseteq> set ts \<and> turns (trace s') = pre @ ts
    \<and> (\<forall>u :: 'a sched_st_scheme. mm_halow_sched_wake_at u = mm_halow_sched_wake_at s' \<and> \<not> mm_halow_sched_woken u
          \<and> time_ms s' \<le> time_ms u \<and> time_ms u < time_ms s' + 2 ^ 30 \<longrightarrow>
        (mm_halow_sched_pending u \<longleftrightarrow> (\<exists>p\<in>set ts. \<exists>d. D p = Some d \<and> d \<le> time_ms u)))"
proof -
  have "time_ms s' < time_ms s + 1073741824" using short by simp
  from timed_waiters.run_arms [OF w ok idle run quiet this] obtain T ts pre q' L' where
    r: "T \<in> {time_ms s..time_ms s'}" "sched_ok s' q' L'" "set q' \<subseteq> set ts" "turns (trace s') = pre @ ts" "armed T (due D ts) s'"
    by (elim exE conjE) (rule that; assumption)
  have "mm_halow_sched_pending u \<longleftrightarrow> (\<exists>p\<in>set ts. \<exists>d. D p = Some d \<and> d \<le> time_ms u)"
    if u: "mm_halow_sched_wake_at u = mm_halow_sched_wake_at s'" "\<not> mm_halow_sched_woken u"
      "time_ms s' \<le> time_ms u" "time_ms u < time_ms s' + 2 ^ 30" for u :: "'a sched_st_scheme"
  proof -
    have "armed T (due D ts) u" by (rule iffD2 [OF armed_cong [OF u(1)] r(5)])
    moreover have "T \<le> time_ms u" "time_ms u < T + 2147483647" using r(1) u(3,4) short by simp_all
    ultimately have "mm_halow_sched_pending u \<longleftrightarrow> (\<exists>d\<in>due D ts. d \<le> time_ms u)" using u(2) by (intro armed_pending)
    then show ?thesis unfolding due_def by blast
  qed
  with r(2-4) show ?thesis by blast
qed

lemma sched1_fields:
  "mm_halow_task_list sched1 = 1" "task_ready sched1 1" "task_next sched1 1 = 0" "mm_halow_task_cur sched1 = 0"
  "\<not> mm_halow_sched_running sched1" "time_ms sched1 = 0"
  by (simp_all add: sched1_def create_eq stack_words_of_def malloc_eq sched0_def task0_def task_append_def upt_rec
        heap_first_fit.simps MM_HALOW_BLOCK_ROUND_def Let_def upd_task_def mm_halow_sched_wake_def)

lemma sched1_waits:
  "\<exists>s'. mm_halow_sched_run (script_env (waiter (\<lambda>p s. 3) (\<lambda>p. Some 5000))) sched1 = Some s'
     \<and> \<not> mm_halow_sched_woken s' \<and> time_ms s' = 3 \<and> mm_halow_task_list s' = 1"
proof -
  let ?env = "script_env (waiter (\<lambda>p s. 3) (\<lambda>p. Some 5000)) :: sched_st sched_env"
  let ?s1 = "sched1\<lparr>mm_halow_sched_running := True, mm_halow_sched_deadline := 20\<rparr>"
  have "\<exists>s2. run_passes ?env MM_HALOW_SCHED_PASSES ?s1 = Some s2 \<and> \<not> mm_halow_sched_woken s2 \<and> time_ms s2 = 3
    \<and> mm_halow_task_list s2 = 1 \<and> mm_halow_tasks s2 = mm_halow_tasks sched1"
    using sched1_fields
    by (simp add: eval_nat_numeral mm_halow_pass_expired_def mm_halow_ticks_ms_def tick_reached_def Let_def run_tasks.simps
        mm_halow_sched_wake_at_reset_def script_env_def waiter_def do_act_def script_finish_def mm_halow_sched_park_def emit_def)
  then obtain s2 where s2: "run_passes ?env MM_HALOW_SCHED_PASSES ?s1 = Some s2" "\<not> mm_halow_sched_woken s2" "time_ms s2 = 3"
    "mm_halow_task_list s2 = 1" "mm_halow_tasks s2 = mm_halow_tasks sched1" by blast
  have "mm_halow_sched_reap s2 = Some s2"
    using s2(4,5) sched1_fields by (simp add: mm_halow_sched_reap_def reap_from.simps)
  with s2 show ?thesis using sched1_fields by (simp add: mm_halow_sched_run_def Let_def mm_halow_ticks_ms_def)
qed

theorem timeouts_not_missed_witness:
  "\<exists>s'. mm_halow_sched_run (script_env (waiter (\<lambda>p s. 3) (\<lambda>p. Some 5000))) sched1 = Some s'
     \<and> \<not> mm_halow_sched_pending (s'\<lparr>time_ms := 4999\<rparr>) \<and> mm_halow_sched_pending (s'\<lparr>time_ms := 5000\<rparr>)"
proof -
  obtain L where ok: "sched_ok sched1 [1] L" using sched1_ok by blast
  obtain s' where s': "mm_halow_sched_run (script_env (waiter (\<lambda>p s. 3) (\<lambda>p. Some 5000))) sched1 = Some s'"
    "\<not> mm_halow_sched_woken s'" "time_ms s' = 3" "mm_halow_task_list s' = 1" using sched1_waits by blast
  have "time_ms s' < time_ms sched1 + 2 ^ 30" using s'(3) by simp
  from timeouts_not_missed [OF waiting.timed_waiters_axioms ok sched1_fields(5,4) s'(1,2) this] obtain ts q' L' where
    r: "sched_ok s' q' L'" "set q' \<subseteq> set ts" "\<forall>u :: sched_st. mm_halow_sched_wake_at u = mm_halow_sched_wake_at s' \<and> \<not> mm_halow_sched_woken u
          \<and> time_ms s' \<le> time_ms u \<and> time_ms u < time_ms s' + 2 ^ 30 \<longrightarrow>
        (mm_halow_sched_pending u \<longleftrightarrow> (\<exists>p\<in>set ts. \<exists>d. Some 5000 = Some d \<and> d \<le> time_ms u))"
    by (elim exE conjE) (rule that; assumption)
  have "q' \<noteq> []" using r(1) s'(4) by (auto simp: sched_ok_def)
  with r(2) have "set ts \<noteq> {}" by auto
  with r(3) [rule_format, of "s'\<lparr>time_ms := 4999\<rparr>"] r(3) [rule_format, of "s'\<lparr>time_ms := 5000\<rparr>"] s'(2,3)
  have "\<not> mm_halow_sched_pending (s'\<lparr>time_ms := 4999\<rparr>)" "mm_halow_sched_pending (s'\<lparr>time_ms := 5000\<rparr>)" by auto
  with s'(1) show ?thesis by blast
qed

end
