(* ===== verification/Halow_Timers.thy ===== *)
theory Halow_Timers
  imports Halow_Queue
begin

text \<open>
  Software timers: the list of timers in the driver's heap, their creation, deletion and
  polling, and the rate limit on log output. What a timer's callback may do is the locale
  \<open>timer_callbacks\<close>; its interpretation is on callbacks that run any sequence of timer
  operations on their own timer, ending by keeping or deleting it.
\<close>

section \<open>The timer list\<close>

abbreviation timer_next :: "'a osal_st_scheme \<Rightarrow> ptr \<Rightarrow> ptr" where
  "timer_next s \<equiv> (\<lambda>p. tm_next (timers s p))"

definition timers_ok :: "'a osal_st_scheme \<Rightarrow> ptr list \<Rightarrow> (nat \<times> nat) set \<Rightarrow> bool" where
  "timers_ok s ts L \<longleftrightarrow> chain (timer_next s) 0 (mm_halow_timer_list s) ts \<and> heap_live s L
     \<and> (\<forall>t \<in> set ts. \<exists>k. (unat t, k) \<in> L)"

definition fired :: "event list \<Rightarrow> ptr list" where
  "fired tr = List.map_filter (\<lambda>e. case e of Ev_callback p \<Rightarrow> Some p | _ \<Rightarrow> None) tr"

lemma fired_simps [simp]:
  "fired [] = []" "fired (xs @ ys) = fired xs @ fired ys" "fired [Ev_callback p] = [p]"
  by (simp_all add: fired_def map_filter_def)

definition timer_due :: "'a osal_st_scheme \<Rightarrow> u32 \<Rightarrow> ptr \<Rightarrow> bool" where
  "timer_due s now t \<longleftrightarrow> tm_active (timers s t) \<and> tick_reached now (tm_expires_at (timers s t))"

lemma upd_timer_simps [simp]:
  "timers (upd_timer t f s) = (timers s)(t := f (timers s t))"
  "mm_halow_timer_list (upd_timer t f s) = mm_halow_timer_list s"
  "trace (upd_timer t f s) = trace s" "time_ms (upd_timer t f s) = time_ms s"
  "mm_halow_heap_head (upd_timer t f s) = mm_halow_heap_head s"
  "mm_halow_heap_mem (upd_timer t f s) = mm_halow_heap_mem s" "blk (upd_timer t f s) = blk s"
  "irq_off (upd_timer t f s) = irq_off s"
  by (simp_all add: upd_timer_def)

lemma malloc_osal_frame [frame]:
  assumes "mm_halow_osal_malloc n s = Some (p, s')"
  shows "timers s' = timers s" "mm_halow_timer_list s' = mm_halow_timer_list s" "trace s' = trace s"
    "time_ms s' = time_ms s"
  using assms by (auto simp: malloc_eq split: if_splits)

lemma free_osal_frame [frame]:
  assumes "mm_halow_osal_free p s = Some s'"
  shows "timers s' = timers s" "mm_halow_timer_list s' = mm_halow_timer_list s" "trace s' = trace s"
    "time_ms s' = time_ms s"
  using assms by (auto simp: free_eq split: if_splits)

lemma timers_ok_distinct: "timers_ok s ts L \<Longrightarrow> distinct ts"
  by (auto simp: timers_ok_def intro: chain_distinct)

lemma timers_ok_nonnull: "timers_ok s ts L \<Longrightarrow> t \<in> set ts \<Longrightarrow> t \<noteq> 0"
  using chain_nul_notin [of "timer_next s" 0 _ ts] by (auto simp: timers_ok_def)

lemma timers_ok_upd:
  assumes "timers_ok s ts L" and "tm_next (f (timers s t)) = tm_next (timers s t)"
  shows "timers_ok (upd_timer t f s) ts L"
proof -
  have "timer_next (upd_timer t f s) = timer_next s" using assms(2) by auto
  with assms(1) show ?thesis
    by (simp add: timers_ok_def heap_live_cong [of "upd_timer t f s" s])
qed

lemma timers_ok_cong:
  "timers s' = timers s \<Longrightarrow> mm_halow_timer_list s' = mm_halow_timer_list s \<Longrightarrow>
   mm_halow_heap_head s' = mm_halow_heap_head s \<Longrightarrow> mm_halow_heap_mem s' = mm_halow_heap_mem s \<Longrightarrow>
   blk s' = blk s \<Longrightarrow> timers_ok s' ts L = timers_ok s ts L"
  by (simp add: timers_ok_def heap_live_cong [of s' s])

section \<open>Creation and deletion\<close>

lemma timer_create_ok:
  assumes ok: "timers_ok s ts L"
  shows "mmosal_timer_create nm per re a cb s = Some (0, s) \<and> mm_halow_osal_malloc 28 s = Some (0, s) \<or>
    (\<exists>t s' k. mmosal_timer_create nm per re a cb s = Some (t, s') \<and> t \<noteq> 0 \<and> t \<notin> set ts
       \<and> timers_ok s' (t # ts) (insert (unat t, k) L) \<and> 28 \<le> k
       \<and> timers s' t = \<lparr>tm_next = mm_halow_timer_list s, tm_name = nm, tm_period_ms = per, tm_expires_at = 0,
            tm_auto_reload = re, tm_active = False, tm_arg = a, tm_callback = cb\<rparr>
       \<and> (\<forall>u. u \<noteq> t \<longrightarrow> timers s' u = timers s u) \<and> trace s' = trace s \<and> time_ms s' = time_ms s)"
proof -
  have live: "heap_live s L" using ok by (simp add: timers_ok_def)
  obtain t s1 where m: "mm_halow_osal_malloc 28 s = Some (t, s1)"
    using heap.malloc_returns [OF live] by blast
  show ?thesis
  proof (cases "t = 0")
    case True
    with m heap.malloc_null [OF live] have "mm_halow_osal_malloc 28 s = Some (0, s)" by blast
    then show ?thesis by (simp add: mmosal_timer_create_def)
  next
    case False
    obtain k where k: "unat (28 :: u32) \<le> k" "heap_live s1 (insert (unat t, k) L)"
      using heap.malloc_block [OF live m False] by blast
    note fr = malloc_osal_frame [OF m]
    let ?new = "\<lparr>tm_next = mm_halow_timer_list s, tm_name = nm, tm_period_ms = per, tm_expires_at = 0,
            tm_auto_reload = re, tm_active = False, tm_arg = a, tm_callback = cb\<rparr>"
    let ?s = "s1\<lparr>timers := (timers s1)(t := ?new), mm_halow_timer_list := t\<rparr>"
    have run: "mmosal_timer_create nm per re a cb s = Some (t, ?s)"
      using m False fr
      by (cases "timers s t") (simp add: mmosal_timer_create_def atomic_defs upd_timer_def Let_def)
    have nt: "t \<notin> set ts"
    proof
      assume "t \<in> set ts"
      then obtain j where "(unat t, j) \<in> L" using ok by (auto simp: timers_ok_def)
      with heap.malloc_fresh [OF live m False, of j] show False by simp
    qed
    have "chain (timer_next ?s) 0 (mm_halow_timer_list s) ts"
      by (rule iffD2 [OF chain_cong [of ts _ "timer_next s"]]) (use nt fr ok in \<open>auto simp: timers_ok_def\<close>)
    moreover have "heap_live ?s (insert (unat t, k) L)" using k(2) by (simp add: heap_live_cong [of ?s s1])
    ultimately have "timers_ok ?s (t # ts) (insert (unat t, k) L)"
      using False ok by (auto simp: timers_ok_def)
    with run False nt k(1) fr show ?thesis
      by (intro disjI2 exI [of _ t] exI [of _ ?s] exI [of _ k]) auto
  qed
qed

lemma chain_cursor:
  assumes ch: "chain nx 0 h (pre @ rest)" and prev: "prev = (if pre = [] then 0 else last pre)"
  shows "(if prev = 0 then h else nx prev) = (case rest of [] \<Rightarrow> 0 | a # _ \<Rightarrow> a)"
proof (cases "pre = []")
  case True
  with assms show ?thesis by (cases rest) simp_all
next
  case False
  then obtain us where us: "pre = us @ [last pre]" by (metis append_butlast_last_id)
  then have "chain nx 0 h (us @ last pre # rest)" using ch by (metis append.assoc append_Cons append_Nil)
  from chain_suffix [OF this] have "nx (last pre) = (case rest of [] \<Rightarrow> 0 | a # _ \<Rightarrow> a)"
    by (cases rest) auto
  moreover have "last pre \<noteq> 0" using False chain_nul_notin [OF ch] by (auto dest: last_in_set)
  ultimately show ?thesis using False prev by simp
qed

lemma timer_unlink_ok:
  assumes "chain (timer_next s) 0 (mm_halow_timer_list s) (pre @ rest)" and "t \<notin> set pre" and "t \<noteq> 0"
    and "prev = (if pre = [] then 0 else last pre)"
  shows "\<exists>s'. timer_unlink t prev s = Some s'
    \<and> chain (timer_next s') 0 (mm_halow_timer_list s') (pre @ remove1 t rest)
    \<and> s' = s\<lparr>timers := timers s', mm_halow_timer_list := mm_halow_timer_list s'\<rparr>
    \<and> (\<forall>u. (timers s' u)\<lparr>tm_next := 0\<rparr> = (timers s u)\<lparr>tm_next := 0\<rparr>)
    \<and> (\<forall>u. u \<notin> set (takeWhile (\<lambda>x. x \<noteq> t) (pre @ rest)) \<longrightarrow> timers s' u = timers s u)"
  using assms
proof (induction rest arbitrary: pre prev)
  case Nil
  have "(if prev = 0 then mm_halow_timer_list s else tm_next (timers s prev)) = 0"
    using chain_cursor [OF Nil.prems(1,4)] by simp
  then have "timer_unlink t prev s = Some s" by (subst timer_unlink.simps) (simp add: Let_def)
  with Nil show ?case by simp
next
  case (Cons a rest)
  have nn: "a \<noteq> 0" "0 \<notin> set pre"
    using chain_nul_notin [OF Cons.prems(1)] by auto
  have dist: "distinct (pre @ a # rest)" by (rule chain_distinct [OF Cons.prems(1)])
  have p0: "prev = 0 \<longleftrightarrow> pre = []"
    using Cons.prems(4) nn(2) last_in_set [of pre] by metis
  have cur: "(if prev = 0 then mm_halow_timer_list s else tm_next (timers s prev)) = a"
    using chain_cursor [OF Cons.prems(1,4)] by simp
  show ?case
  proof (cases "a = t")
    case True
    let ?s = "if prev = 0 then s\<lparr>mm_halow_timer_list := tm_next (timers s t)\<rparr>
              else upd_timer prev (\<lambda>x. x\<lparr>tm_next := tm_next (timers s t)\<rparr>) s"
    have run: "timer_unlink t prev s = Some ?s"
      using cur True nn by (subst timer_unlink.simps) (simp add: Let_def)
    have "timer_next ?s = (if pre = [] then timer_next s else (timer_next s)(last pre := tm_next (timers s a)))"
      using True p0 Cons.prems(4) by auto
    moreover have "mm_halow_timer_list ?s = (if pre = [] then tm_next (timers s a) else mm_halow_timer_list s)"
      using True p0 by auto
    ultimately have ch: "chain (timer_next ?s) 0 (mm_halow_timer_list ?s) (pre @ rest)"
      using chain_unlink [OF Cons.prems(1)] by simp
    have tw: "takeWhile (\<lambda>x. x \<noteq> t) (pre @ a # rest) = pre"
      using True Cons.prems(2) by (auto simp: takeWhile_append)
    have "\<forall>u. u \<notin> set pre \<longrightarrow> timers ?s u = timers s u"
      using p0 Cons.prems(4) last_in_set [of pre] by auto
    moreover have "?s = s\<lparr>timers := timers ?s, mm_halow_timer_list := mm_halow_timer_list ?s\<rparr>"
      by (simp add: upd_timer_def)
    moreover have "\<forall>u. (timers ?s u)\<lparr>tm_next := 0\<rparr> = (timers s u)\<lparr>tm_next := 0\<rparr>" by simp
    ultimately show ?thesis using run ch True unfolding tw by auto
  next
    case False
    have "chain (timer_next s) 0 (mm_halow_timer_list s) ((pre @ [a]) @ rest)" "t \<notin> set (pre @ [a])"
      "a = (if pre @ [a] = [] then 0 else last (pre @ [a]))"
      using Cons.prems(1,2) False by simp_all
    from Cons.IH [OF this(1,2) Cons.prems(3) this(3)] obtain s' where
      s': "timer_unlink t a s = Some s'"
        "chain (timer_next s') 0 (mm_halow_timer_list s') ((pre @ [a]) @ remove1 t rest)"
        "s' = s\<lparr>timers := timers s', mm_halow_timer_list := mm_halow_timer_list s'\<rparr>"
        "\<forall>u. (timers s' u)\<lparr>tm_next := 0\<rparr> = (timers s u)\<lparr>tm_next := 0\<rparr>"
        "\<forall>u. u \<notin> set (takeWhile (\<lambda>x. x \<noteq> t) ((pre @ [a]) @ rest)) \<longrightarrow> timers s' u = timers s u" by blast
    have "timer_unlink t prev s = timer_unlink t a s"
      using cur False nn(1) by (subst timer_unlink.simps) (simp add: Let_def)
    with s' False show ?thesis by (intro exI [of _ s']) auto
  qed
qed

lemma timer_delete_ok:
  assumes ok: "timers_ok s ts L" and t: "(unat t, k) \<in> L"
  shows "\<exists>s'. mmosal_timer_delete t s = Some s' \<and> timers_ok s' (remove1 t ts) (L - {(unat t, k)})
    \<and> (\<forall>u. (timers s' u)\<lparr>tm_next := 0\<rparr> = (timers s u)\<lparr>tm_next := 0\<rparr>)
    \<and> (\<forall>u. u \<notin> set (takeWhile (\<lambda>x. x \<noteq> t) ts) \<longrightarrow> timers s' u = timers s u)
    \<and> trace s' = trace s \<and> time_ms s' = time_ms s"
proof -
  have live: "heap_live s L" and ch: "chain (timer_next s) 0 (mm_halow_timer_list s) ts"
    using ok by (simp_all add: timers_ok_def)
  have t0: "t \<noteq> 0" using heap_live_block(1) [OF live t] by auto
  let ?s0 = "s\<lparr>irq_off := True\<rparr>"
  have "chain (timer_next ?s0) 0 (mm_halow_timer_list ?s0) ([] @ ts)" using ch by simp
  from timer_unlink_ok [OF this _ t0, of 0] obtain s1 where
    s1: "timer_unlink t 0 ?s0 = Some s1" "chain (timer_next s1) 0 (mm_halow_timer_list s1) (remove1 t ts)"
      "s1 = ?s0\<lparr>timers := timers s1, mm_halow_timer_list := mm_halow_timer_list s1\<rparr>"
      "\<forall>u. (timers s1 u)\<lparr>tm_next := 0\<rparr> = (timers ?s0 u)\<lparr>tm_next := 0\<rparr>"
      "\<forall>u. u \<notin> set (takeWhile (\<lambda>x. x \<noteq> t) ts) \<longrightarrow> timers s1 u = timers ?s0 u" by auto
  let ?s2 = "s1\<lparr>irq_off := irq_off s\<rparr>"
  have h: "mm_halow_heap_head ?s2 = mm_halow_heap_head s \<and> mm_halow_heap_mem ?s2 = mm_halow_heap_mem s
      \<and> blk ?s2 = blk s \<and> trace ?s2 = trace s \<and> time_ms ?s2 = time_ms s"
    by (subst (1 2 3 4 5) s1(3)) simp
  then have "heap_live ?s2 L" using live heap_live_cong [of ?s2 s] by blast
  from heap.free_live [OF this t] obtain s' where
    s': "mm_halow_osal_free t ?s2 = Some s'" "heap_live s' (L - {(unat t, k)})" by blast
  note fr = free_osal_frame [OF s'(1)]
  have "mmosal_timer_delete t s = Some s'"
    using t0 s1(1) s'(1) by (simp add: mmosal_timer_delete_def atomic_defs)
  moreover have "timers_ok s' (remove1 t ts) (L - {(unat t, k)})"
  proof -
    have "\<exists>j. (unat u, j) \<in> L - {(unat t, k)}" if u: "u \<in> set (remove1 t ts)" for u
    proof -
      have "u \<in> set ts" "u \<noteq> t" using u timers_ok_distinct [OF ok] by auto
      moreover from this obtain j where "(unat u, j) \<in> L" using ok by (auto simp: timers_ok_def)
      ultimately show ?thesis by (auto simp: word_unat_eq_iff)
    qed
    then show ?thesis using s1(2) s'(2) fr by (simp add: timers_ok_def)
  qed
  moreover have "\<forall>u. (timers s' u)\<lparr>tm_next := 0\<rparr> = (timers s u)\<lparr>tm_next := 0\<rparr>" using s1(4) fr by simp
  moreover have "\<forall>u. u \<notin> set (takeWhile (\<lambda>x. x \<noteq> t) ts) \<longrightarrow> timers s' u = timers s u" using s1(5) fr by simp
  ultimately show ?thesis using h fr by auto
qed

section \<open>Pending\<close>

lemma timer_pending_from_eq:
  "chain (timer_next s) 0 p ts \<Longrightarrow>
     timer_pending_from (timers s) now p = Some (\<exists>t \<in> set ts. timer_due s now t)"
proof (induction ts arbitrary: p)
  case Nil
  then show ?case by (subst timer_pending_from.simps) simp
next
  case (Cons a ts)
  then show ?case by (subst timer_pending_from.simps) (auto simp: timer_due_def)
qed

section \<open>Polling\<close>

locale timer_callbacks =
  fixes callback :: "ptr \<Rightarrow> ptr \<Rightarrow> 'a osal_st_scheme \<Rightarrow> 'a osal_st_scheme option"
  assumes callback_ok: "timers_ok s (pre @ t # rest) L \<Longrightarrow>
      \<exists>s' pre' L'. callback cb t s = Some s' \<and> timers_ok s' (pre' @ rest) L'
        \<and> (\<forall>u \<in> set rest. timers s' u = timers s u) \<and> fired (trace s') = fired (trace s)"
begin

lemma poll_from_ok:
  assumes "timers_ok s (pre @ rest) L" and "chain (timer_next s) 0 p rest"
  shows "\<exists>s' ts' L'. timer_poll_from callback now p s = Some s' \<and> timers_ok s' ts' L'
    \<and> fired (trace s') = fired (trace s) @ filter (timer_due s now) rest"
  using assms
proof (induction rest arbitrary: pre s L p)
  case Nil
  then show ?case by (subst timer_poll_from.simps) auto
next
  case (Cons t rest)
  have p: "p = t" "t \<noteq> 0" and ch: "chain (timer_next s) 0 (tm_next (timers s t)) rest" using Cons.prems(2) by auto
  have dist: "distinct (pre @ t # rest)" by (rule timers_ok_distinct [OF Cons.prems(1)])
  show ?case
  proof (cases "timer_due s now t")
    case False
    have "timers_ok s ((pre @ [t]) @ rest) L" using Cons.prems(1) by simp
    note IH = Cons.IH [OF this ch]
    have "\<not> (tm_active (timers s t) \<and> tick_reached now (tm_expires_at (timers s t)))"
      using False by (simp add: timer_due_def)
    then have "timer_poll_from callback now p s = timer_poll_from callback now (tm_next (timers s t)) s"
      using p by (subst timer_poll_from.simps) (simp only: if_False if_True simp_thms)
    with IH False show ?thesis by simp
  next
    case True
    let ?s1 = "emit (Ev_callback t) (timer_fire now t s)"
    have "timers_ok (timer_fire now t s) (pre @ t # rest) L"
      using Cons.prems(1) by (simp add: timer_fire_def timers_ok_upd)
    then have "timers_ok ?s1 (pre @ t # rest) L"
      by (rule iffD2 [OF timers_ok_cong, rotated -1]) (simp_all add: emit_def)
    from callback_ok [OF this, of "tm_callback (timers s t)"] obtain s2 pre' L2 where
      s2: "callback (tm_callback (timers s t)) t ?s1 = Some s2" "timers_ok s2 (pre' @ rest) L2"
        "\<forall>u \<in> set rest. timers s2 u = timers ?s1 u" "fired (trace s2) = fired (trace ?s1)" by blast
    let ?s3 = "mm_halow_sched_wake s2"
    have same: "timers ?s3 u = timers s u" if "u \<in> set rest" for u
    proof -
      have "u \<noteq> t" using that dist by auto
      then have "timers ?s1 u = timers s u" by (simp add: timer_fire_def emit_def)
      then show ?thesis using s2(3) that by (simp add: mm_halow_sched_wake_def)
    qed
    have ok3: "timers_ok ?s3 (pre' @ rest) L2"
      using s2(2) by (rule iffD2 [OF timers_ok_cong, rotated -1]) (simp_all add: mm_halow_sched_wake_def)
    have ch3: "chain (timer_next ?s3) 0 (tm_next (timers s t)) rest"
      by (rule iffD2 [OF chain_cong ch]) (use same in simp)
    from Cons.IH [OF ok3 ch3] obtain s' ts' L' where
      IH: "timer_poll_from callback now (tm_next (timers s t)) ?s3 = Some s'" "timers_ok s' ts' L'"
        "fired (trace s') = fired (trace ?s3) @ filter (timer_due ?s3 now) rest" by blast
    have "filter (timer_due ?s3 now) rest = filter (timer_due s now) rest"
      by (rule filter_cong [OF refl]) (simp add: timer_due_def same)
    moreover have "fired (trace ?s3) = fired (trace s) @ [t]"
      using s2(4) by (simp add: mm_halow_sched_wake_def timer_fire_def)
    moreover have "timer_poll_from callback now p s = Some s'"
      using IH(1) s2(1) True p by (subst timer_poll_from.simps) (simp add: timer_due_def)
    ultimately show ?thesis using IH(2,3) True by auto
  qed
qed

lemma poll_ok:
  assumes "timers_ok s ts L"
  shows "\<exists>s' ts' L'. mm_halow_osal_timer_poll callback s = Some s' \<and> timers_ok s' ts' L'
    \<and> fired (trace s') = fired (trace s) @ filter (timer_due s (mm_halow_ticks_ms s)) ts"
  using poll_from_ok [of s "[]" ts L "mm_halow_timer_list s" "mm_halow_ticks_ms s"] assms
  by (simp add: mm_halow_osal_timer_poll_def) (simp add: timers_ok_def)

end

section \<open>Callbacks that work on their own timer\<close>

datatype cb_op = Cb_start | Cb_stop | Cb_period u32 | Cb_create string u32 bool u32 ptr

definition do_cb :: "cb_op \<Rightarrow> ptr \<Rightarrow> 'a osal_st_scheme \<Rightarrow> 'a osal_st_scheme option" where
  "do_cb c t s = (case c of
      Cb_start \<Rightarrow> Some (snd (mmosal_timer_start t s))
    | Cb_stop \<Rightarrow> Some (snd (mmosal_timer_stop t s))
    | Cb_period n \<Rightarrow> Some (snd (mmosal_timer_change_period t n s))
    | Cb_create nm per re a cb \<Rightarrow> map_option snd (mmosal_timer_create nm per re a cb s))"

fun do_cbs :: "cb_op list \<Rightarrow> ptr \<Rightarrow> 'a osal_st_scheme \<Rightarrow> 'a osal_st_scheme option" where
  "do_cbs [] t s = Some s"
| "do_cbs (c # cs) t s = Option.bind (do_cb c t s) (do_cbs cs t)"

definition cb_script ::
    "(ptr \<Rightarrow> ptr \<Rightarrow> 'a osal_st_scheme \<Rightarrow> cb_op list \<times> bool) \<Rightarrow>
     ptr \<Rightarrow> ptr \<Rightarrow> 'a osal_st_scheme \<Rightarrow> 'a osal_st_scheme option" where
  "cb_script prog cb t s = Option.bind (do_cbs (fst (prog cb t s)) t s)
     (\<lambda>s1. if snd (prog cb t s) then mmosal_timer_delete t s1 else Some s1)"

lemma do_cb_keeps:
  assumes ok: "timers_ok s (pre @ t # rest) L"
  shows "\<exists>s' pre' L'. do_cb c t s = Some s' \<and> timers_ok s' (pre' @ t # rest) L'
    \<and> (\<forall>u \<in> set rest. timers s' u = timers s u) \<and> fired (trace s') = fired (trace s)"
proof -
  have dist: "distinct (pre @ t # rest)" by (rule timers_ok_distinct [OF ok])
  have upd: "\<exists>s' pre' L'. Some (upd_timer t f s) = Some s' \<and> timers_ok s' (pre' @ t # rest) L'
    \<and> (\<forall>u \<in> set rest. timers s' u = timers s u) \<and> fired (trace s') = fired (trace s)"
    if "\<And>x. tm_next (f x) = tm_next x" for f
  proof -
    have "timers_ok (upd_timer t f s) (pre @ t # rest) L" by (rule timers_ok_upd [OF ok]) (rule that)
    moreover have "\<forall>u \<in> set rest. timers (upd_timer t f s) u = timers s u" using dist by auto
    ultimately show ?thesis by (intro exI [of _ "upd_timer t f s"]) auto
  qed
  have same: "\<exists>s' pre' L'. Some s = Some s' \<and> timers_ok s' (pre' @ t # rest) L'
    \<and> (\<forall>u \<in> set rest. timers s' u = timers s u) \<and> fired (trace s') = fired (trace s)"
    using ok by blast
  show ?thesis
  proof (cases c)
    case Cb_start
    with upd [of "\<lambda>x. x\<lparr>tm_expires_at := mm_halow_ticks_ms s + tm_period_ms x, tm_active := True\<rparr>"] same
    show ?thesis by (cases "t = 0") (simp_all add: do_cb_def mmosal_timer_start_def)
  next
    case Cb_stop
    with upd [of "\<lambda>x. x\<lparr>tm_active := False\<rparr>"] same
    show ?thesis by (cases "t = 0") (simp_all add: do_cb_def mmosal_timer_stop_def)
  next
    case (Cb_period n)
    have e: "upd_timer t (\<lambda>x. x\<lparr>tm_expires_at := e\<rparr>) (upd_timer t (\<lambda>x. x\<lparr>tm_period_ms := n\<rparr>) s)
        = upd_timer t (\<lambda>x. x\<lparr>tm_period_ms := n, tm_expires_at := e\<rparr>) s" for e
      by (simp add: upd_timer_def)
    show ?thesis
      using Cb_period same upd [of "\<lambda>x. x\<lparr>tm_period_ms := n\<rparr>"]
        upd [of "\<lambda>x. x\<lparr>tm_period_ms := n, tm_expires_at := mm_halow_ticks_ms s + n\<rparr>"]
      by (cases "t = 0"; cases "tm_active (timers s t)")
        (simp_all add: do_cb_def mmosal_timer_change_period_def Let_def e del: upd_timer_simps(2-))
  next
    case (Cb_create nm per re a cb)
    from timer_create_ok [OF ok, of nm per re a cb] show ?thesis
    proof (elim disjE conjE exE)
      assume "mmosal_timer_create nm per re a cb s = Some (0, s)"
      with Cb_create same show ?thesis by (simp add: do_cb_def)
    next
      fix x s' k
      assume s': "mmosal_timer_create nm per re a cb s = Some (x, s')" "x \<notin> set (pre @ t # rest)"
        "timers_ok s' (x # pre @ t # rest) (insert (unat x, k) L)"
        "\<forall>u. u \<noteq> x \<longrightarrow> timers s' u = timers s u" "trace s' = trace s"
      have "timers_ok s' ((x # pre) @ t # rest) (insert (unat x, k) L)" using s'(3) by simp
      moreover have "\<forall>u \<in> set rest. timers s' u = timers s u" using s'(2,4) by auto
      moreover have "do_cb c t s = Some s'" using Cb_create s'(1) by (simp add: do_cb_def)
      ultimately show ?thesis using s'(5)
        by (intro exI [of _ s'] exI [of _ "x # pre"] exI [of _ "insert (unat x, k) L"]) simp
    qed
  qed
qed

lemma do_cbs_keep:
  "timers_ok s (pre @ t # rest) L \<Longrightarrow> \<exists>s' pre' L'. do_cbs cs t s = Some s' \<and> timers_ok s' (pre' @ t # rest) L'
    \<and> (\<forall>u \<in> set rest. timers s' u = timers s u) \<and> fired (trace s') = fired (trace s)"
proof (induction cs arbitrary: s pre L)
  case Nil
  then show ?case by auto
next
  case (Cons c cs)
  obtain s1 pre1 L1 where s1: "do_cb c t s = Some s1" "timers_ok s1 (pre1 @ t # rest) L1"
    "\<forall>u \<in> set rest. timers s1 u = timers s u" "fired (trace s1) = fired (trace s)"
    using do_cb_keeps [OF Cons.prems] by blast
  obtain s2 pre2 L2 where "do_cbs cs t s1 = Some s2" "timers_ok s2 (pre2 @ t # rest) L2"
    "\<forall>u \<in> set rest. timers s2 u = timers s1 u" "fired (trace s2) = fired (trace s1)"
    using Cons.IH [OF s1(2)] by blast
  with s1 show ?case by (intro exI [of _ s2]) auto
qed

interpretation scripted: timer_callbacks "cb_script prog" for prog :: "ptr \<Rightarrow> ptr \<Rightarrow> 'a osal_st_scheme \<Rightarrow> cb_op list \<times> bool"
proof
  fix s :: "'a osal_st_scheme" and pre t rest L cb
  assume ok: "timers_ok s (pre @ t # rest) L"
  obtain s1 pre1 L1 where s1: "do_cbs (fst (prog cb t s)) t s = Some s1" "timers_ok s1 (pre1 @ t # rest) L1"
    "\<forall>u \<in> set rest. timers s1 u = timers s u" "fired (trace s1) = fired (trace s)"
    using do_cbs_keep [OF ok] by blast
  show "\<exists>s' pre' L'. cb_script prog cb t s = Some s' \<and> timers_ok s' (pre' @ rest) L'
      \<and> (\<forall>u \<in> set rest. timers s' u = timers s u) \<and> fired (trace s') = fired (trace s)"
  proof (cases "snd (prog cb t s)")
    case False
    have "timers_ok s1 ((pre1 @ [t]) @ rest) L1" using s1(2) by simp
    with False s1(1,3,4) show ?thesis
      unfolding cb_script_def by (intro exI [of _ s1] exI [of _ "pre1 @ [t]"] exI [of _ L1]) auto
  next
    case True
    obtain k where "(unat t, k) \<in> L1" using s1(2) by (auto simp: timers_ok_def)
    from timer_delete_ok [OF s1(2) this] obtain s2 where
      s2: "mmosal_timer_delete t s1 = Some s2" "timers_ok s2 (remove1 t (pre1 @ t # rest)) (L1 - {(unat t, k)})"
        "\<forall>u. u \<notin> set (takeWhile (\<lambda>x. x \<noteq> t) (pre1 @ t # rest)) \<longrightarrow> timers s2 u = timers s1 u"
        "trace s2 = trace s1" by blast
    have dist: "distinct (pre1 @ t # rest)" by (rule timers_ok_distinct [OF s1(2)])
    have r: "remove1 t (pre1 @ t # rest) = pre1 @ rest" using dist by (simp add: remove1_append)
    have tw: "takeWhile (\<lambda>x. x \<noteq> t) (pre1 @ t # rest) = pre1"
      using dist by (auto simp: takeWhile_append)
    have "\<forall>u \<in> set rest. timers s2 u = timers s u" using s2(3) s1(3) dist unfolding tw by auto
    with True s1(1,4) s2(1,2,4) show ?thesis
      unfolding r cb_script_def by (intro exI [of _ s2] exI [of _ pre1] exI [of _ "L1 - {(unat t, k)}"]) auto
  qed
qed

section \<open>Properties\<close>


text \<open>Two timers on the concrete heap: the second created is the first on the list.\<close>

definition timers2 :: osal_st where
  "timers2 = (let (b, s1) = the (mmosal_timer_create ''b'' 5 False 0 134218001 osal0);
                  (a, s2) = the (mmosal_timer_create ''a'' 5 True 0 134218001 s1)
              in snd (mmosal_timer_start a (snd (mmosal_timer_start b s2))))\<lparr>time_ms := 6\<rparr>"

lemmas timers2_eval = timers2_def mmosal_timer_create_def malloc_eq osal0_def heap_first_fit.simps
  MM_HALOW_BLOCK_ROUND_def heap_take_def Let_def atomic_defs upd_timer_def mmosal_timer_start_def
  mm_halow_ticks_ms_def

lemma timers2_ok: "timers_ok timers2 [536870976, 536870928] {(536870928, 32), (536870976, 32)}"
proof -
  have "heap_rep timers2 [(32, True), (32, True), (98192, False)]"
    by (simp add: heap_rep_def timers2_eval)
  moreover have "heap_base timers2 = 536870912" by (simp add: timers2_eval)
  ultimately have "heap_live timers2 {(536870928, 32), (536870976, 32)}"
    by (auto simp: heap_live_def live_def intro!: exI [of _ "[(32, True), (32, True), (98192, False)]"])
  moreover have "chain (timer_next timers2) 0 (mm_halow_timer_list timers2) [536870976, 536870928]"
    by (simp add: timers2_eval)
  ultimately show ?thesis by (simp add: timers_ok_def)
qed


text \<open>
  C35: Deleting a timer. From a well-formed list, deleting a timer returns, takes exactly
  that timer off the list wherever it stands, gives exactly its block back to the heap and
  changes nothing of the other timers but the link around it.
\<close>

theorem timer_delete_exact:
  assumes "timers_ok s ts L" and "t \<in> set ts"
  shows "\<exists>s' k. mmosal_timer_delete t s = Some s' \<and> (unat t, k) \<in> L
    \<and> timers_ok s' (filter (\<lambda>u. u \<noteq> t) ts) (L - {(unat t, k)})
    \<and> (\<forall>u. (timers s' u)\<lparr>tm_next := 0\<rparr> = (timers s u)\<lparr>tm_next := 0\<rparr>) \<and> trace s' = trace s"
proof -
  obtain k where k: "(unat t, k) \<in> L" using assms by (auto simp: timers_ok_def)
  have "remove1 t ts = filter (\<lambda>u. u \<noteq> t) ts"
    using timers_ok_distinct [OF assms(1)] by (auto simp: distinct_remove1_removeAll removeAll_filter_not_eq intro!: filter_cong)
  with timer_delete_ok [OF assms(1) k] k show ?thesis by (auto simp: eq_commute)
qed

theorem timer_delete_exact_witness:
  "\<exists>s' L. mmosal_timer_delete 536870928 timers2 = Some s' \<and> timers_ok s' [536870976] L"
  using timer_delete_exact [OF timers2_ok, of 536870928] by auto

lemmas timer_poll_eval = mmosal_timer_delete_def timer_unlink.simps free_eq heap_coalesce.simps
  MM_HALOW_DATA_BLOCK_def timer_fire_def emit_def mm_halow_osal_timer_poll_def timer_poll_from.simps
  tick_reached_def mm_halow_sched_wake_def timers2_eval

text \<open>
  A callback that deletes another timer. When the callback of the first of two due
  timers deletes the second, the poll still calls the second: the pointer to it was read
  before. Its node has been unlinked and its heap block freed by then.
\<close>

theorem timer_poll_calls_deleted:
  "\<exists>(s :: osal_st) a b L s1 s'. timers_ok s [a, b] L \<and> a \<noteq> b
    \<and> mmosal_timer_delete b (emit (Ev_callback a) (timer_fire (mm_halow_ticks_ms s) a s)) = Some s1
    \<and> chain (timer_next s1) 0 (mm_halow_timer_list s1) [a] \<and> \<not> b_used (blk s1 (MM_HALOW_DATA_BLOCK b))
    \<and> mm_halow_osal_timer_poll (\<lambda>cb t s. if t = a then mmosal_timer_delete b s else Some s) s = Some s'
    \<and> fired (trace s') = fired (trace s) @ [a, b]"
proof -
  let ?a = "536870976 :: ptr" and ?b = "536870928 :: ptr"
  have "\<exists>s1. mmosal_timer_delete ?b (emit (Ev_callback ?a) (timer_fire (mm_halow_ticks_ms timers2) ?a timers2)) = Some s1
    \<and> chain (timer_next s1) 0 (mm_halow_timer_list s1) [?a] \<and> \<not> b_used (blk s1 (MM_HALOW_DATA_BLOCK ?b))"
    by (simp add: timer_poll_eval)
  then obtain s1 where s1: "mmosal_timer_delete ?b (emit (Ev_callback ?a) (timer_fire (mm_halow_ticks_ms timers2) ?a timers2)) = Some s1"
    "chain (timer_next s1) 0 (mm_halow_timer_list s1) [?a]" "\<not> b_used (blk s1 (MM_HALOW_DATA_BLOCK ?b))" by blast
  have "\<exists>s'. mm_halow_osal_timer_poll (\<lambda>cb t s. if t = ?a then mmosal_timer_delete ?b s else Some s) timers2
      = Some s' \<and> trace s' = [Ev_callback ?a] @ [Ev_callback ?b]"
    by (simp add: timer_poll_eval)
  then obtain s' where s': "mm_halow_osal_timer_poll (\<lambda>cb t s. if t = ?a then mmosal_timer_delete ?b s else Some s) timers2
      = Some s'" "trace s' = [Ev_callback ?a] @ [Ev_callback ?b]" by blast
  have "trace timers2 = []" by (simp add: timers2_eval)
  then have f: "fired (trace s') = fired (trace timers2) @ [?a, ?b]"
    unfolding s'(2) by (simp only: fired_simps) simp
  have "?a \<noteq> ?b" by simp
  then show ?thesis
    by (intro exI [of _ timers2] exI [of _ ?a] exI [of _ ?b] exI [of _ "{(536870928, 32), (536870976, 32)}"]
        exI [of _ s1] exI [of _ s'] conjI timers2_ok s1 s'(1) f)
qed

section \<open>The rate limit on log output\<close>

fun log_run :: "nat list \<Rightarrow> 'a osal_st_scheme \<Rightarrow> 'a osal_st_scheme" where
  "log_run [] s = s"
| "log_run (t # ts) s = log_run ts (snd (mmosal_printf 0 (s\<lparr>time_ms := t\<rparr>)))"

lemma printf_in_window:
  assumes "log_window_start s = of_nat w" and "w \<le> time_ms s" and "time_ms s < w + 1000"
  shows "mmosal_printf r s = (if log_lines s + 1 > MM_HALOW_LOG_LINES_PER_S
      then (0, s\<lparr>log_lines := log_lines s + 1, log_dropped := log_dropped s + 1\<rparr>)
      else (r, emit Ev_log (s\<lparr>log_lines := log_lines s + 1\<rparr>)))"
proof -
  have "unat (mm_halow_ticks_ms s - log_window_start s) = time_ms s - w"
    unfolding mm_halow_ticks_ms_def assms(1) by (rule unat_diff_of_nat_u32) (use assms in linarith)+
  then have "\<not> mm_halow_ticks_ms s - log_window_start s \<ge> 1000"
    using assms(2,3) by (simp add: word_le_nat_alt)
  then show ?thesis by (simp add: mmosal_printf_def Let_def emit_def)
qed

lemma log_run_window:
  assumes "log_window_start s = of_nat w" and "\<forall>t \<in> set ts. w \<le> t \<and> t < w + 1000"
    and "log_lines s = of_nat n" and "log_dropped s = of_nat (n - 20)" and "n + length ts < 4294967296"
  shows "log_window_start (log_run ts s) = of_nat w
    \<and> log_lines (log_run ts s) = of_nat (n + length ts)
    \<and> log_dropped (log_run ts s) = of_nat (n + length ts - 20)
    \<and> trace (log_run ts s) = trace s @ replicate (min 20 (n + length ts) - min 20 n) Ev_log"
  using assms
proof (induction ts arbitrary: s n)
  case Nil
  then show ?case by simp
next
  case (Cons t ts)
  let ?s = "s\<lparr>time_ms := t\<rparr>"
  have p: "mmosal_printf 0 ?s = (if log_lines ?s + 1 > MM_HALOW_LOG_LINES_PER_S
      then (0, ?s\<lparr>log_lines := log_lines ?s + 1, log_dropped := log_dropped ?s + 1\<rparr>)
      else (0, emit Ev_log (?s\<lparr>log_lines := log_lines ?s + 1\<rparr>)))"
    by (rule printf_in_window [of _ w]) (use Cons.prems in simp_all)
  have u: "log_lines ?s + 1 = of_nat (n + 1)" using Cons.prems(3) by simp
  have "unat (of_nat (n + 1) :: u32) = n + 1" by (rule unat_of_nat_u32) (use Cons.prems(5) in simp)
  then have gt: "log_lines ?s + 1 > MM_HALOW_LOG_LINES_PER_S \<longleftrightarrow> 20 \<le> n"
    unfolding u by (auto simp add: word_less_nat_alt)
  let ?s1 = "snd (mmosal_printf 0 ?s)"
  have s1: "log_window_start ?s1 = of_nat w" "log_lines ?s1 = of_nat (n + 1)"
    "log_dropped ?s1 = of_nat (n + 1 - 20)"
    "trace ?s1 = trace s @ (if 20 \<le> n then [] else [Ev_log])"
    unfolding p gt using Cons.prems(1,3,4) by (auto simp: emit_def Suc_diff_le)
  have "\<forall>t \<in> set ts. w \<le> t \<and> t < w + 1000" "n + 1 + length ts < 4294967296"
    using Cons.prems(2,5) by simp_all
  from Cons.IH [OF s1(1) this(1) s1(2,3) this(2)] s1(4) show ?case
    by (cases "20 \<le> n") (auto simp flip: replicate_Suc intro: arg_cong [of _ _ "\<lambda>k. replicate k Ev_log"])
qed

text \<open>
  C36: The rate limit on log output. In a window that starts fresh, n calls let the first
  twenty lines through and count the others. The first call a second or more later, within
  the range of the tick counter, opens a new window: it reports the number dropped, if any,
  before its own line, and the count starts again from one.
\<close>

theorem log_rate_limited:
  assumes "log_window_start s = of_nat w" and "log_lines s = 0" and "log_dropped s = 0"
    and "\<forall>t \<in> set ts. w \<le> t \<and> t < w + 1000" and "length ts < 4294967296"
    and "w + 1000 \<le> u" and "u < w + 4294967296"
  shows "trace (log_run ts s) = trace s @ replicate (min 20 (length ts)) Ev_log
    \<and> trace (log_run (ts @ [u]) s) = trace (log_run ts s)
        @ (if 20 < length ts then [Ev_dropped (of_nat (length ts - 20))] else []) @ [Ev_log]
    \<and> log_lines (log_run (ts @ [u]) s) = 1 \<and> log_dropped (log_run (ts @ [u]) s) = 0
    \<and> log_window_start (log_run (ts @ [u]) s) = of_nat u"
proof -
  let ?s = "log_run ts s"
  have r: "log_window_start ?s = of_nat w" "log_dropped ?s = of_nat (length ts - 20)"
    "trace ?s = trace s @ replicate (min 20 (length ts)) Ev_log"
    using log_run_window [OF assms(1,4), of 0] assms(2,3,5) by simp_all
  have "unat (mm_halow_ticks_ms (?s\<lparr>time_ms := u\<rparr>) - log_window_start ?s) = u - w"
    unfolding mm_halow_ticks_ms_def r(1) by (subst unat_diff_of_nat_u32 [symmetric, of w u]) (use assms in simp_all)
  then have late: "mm_halow_ticks_ms (?s\<lparr>time_ms := u\<rparr>) - log_window_start ?s \<ge> 1000"
    using assms(6) by (simp add: word_le_nat_alt)
  have d: "log_dropped ?s \<noteq> 0 \<longleftrightarrow> 20 < length ts"
    unfolding r(2) using assms(5) by (auto simp: unat_eq_zero [symmetric] unat_of_nat_u32)
  have "log_run (ts @ [u]) s = snd (mmosal_printf 0 (?s\<lparr>time_ms := u\<rparr>))"
    by (induction ts arbitrary: s) simp_all
  with late d r show ?thesis
    by (simp add: mmosal_printf_def Let_def emit_def mm_halow_ticks_ms_def)
qed

theorem log_rate_limited_witness:
  "trace (log_run (replicate 25 7 @ [1500]) osal0) = replicate 20 Ev_log @ [Ev_dropped 5, Ev_log]"
  using log_rate_limited [of osal0 0 "replicate 25 7" 1500] by (simp add: osal0_simps)

end
