(* ===== verification/Halow_Pktmem.thy ===== *)
theory Halow_Pktmem
  imports Halow_Timers
begin

text \<open>
  Packet memory (mm_halow_pktmem.c): data packets counted against a bound in each
  direction, the flow control that pauses and resumes the transmit path, and the two
  reserved pools of command buffers.

  The packets themselves belong to morselib (mmpkt.h, not part of the repository). What
  the driver calls of it is the record \<open>mmpkt_lib\<close>, a parameter: the list functions on a
  value of type \<open>'l\<close> that stands for a struct mmpkt_list with the links of its members,
  the two constructors of packets as effects on the driver's state, and the constants of
  the morselib headers. The operations vector in a packet header, which the driver
  writes, is the memory \<open>pkt_ops\<close>.
\<close>

section \<open>State\<close>

datatype mmpkt_ops = mm_halow_tx_command_ops | mm_halow_rx_command_ops
  | mm_halow_tx_data_ops | mm_halow_rx_data_ops | mmpkt_heap_ops

record 'l pktmem_st = osal_st +
  tx_data_allocated :: u32
  tx_data_paused :: u8
  rx_data_allocated :: u32
  tx_command_free_list :: 'l
  rx_command_free_list :: 'l
  tx_command_pool :: ptr
  rx_command_pool :: ptr
  tx_flow_control_cb :: ptr
  pkt_ops :: "ptr \<Rightarrow> mmpkt_ops"

record ('l, 's) mmpkt_lib =
  mmpkt_list_zero :: 'l
  mmpkt_list_len :: "'l \<Rightarrow> u32"
  mmpkt_list_append :: "'l \<Rightarrow> ptr \<Rightarrow> 'l"
  mmpkt_list_dequeue :: "'l \<Rightarrow> ptr \<times> 'l"
  mmpkt_init_buf :: "ptr \<Rightarrow> u32 \<Rightarrow> u32 \<Rightarrow> u32 \<Rightarrow> u32 \<Rightarrow> mmpkt_ops \<Rightarrow> 's \<Rightarrow> ptr \<times> 's"
  mmpkt_alloc_on_heap :: "u32 \<Rightarrow> u32 \<Rightarrow> u32 \<Rightarrow> 's \<Rightarrow> (ptr \<times> 's) option"
  flow_control_cb :: "ptr \<Rightarrow> 's \<Rightarrow> 's option"
  MMHAL_WLAN_MMPKT_TX_MAX_SIZE :: u32
  MMHAL_WLAN_MMPKT_RX_MAX_SIZE :: u32
  MMHAL_WLAN_PKT_COMMAND :: u8

type_synonym ('l, 'a) pkt_lib = "('l, ('l, 'a) pktmem_st_scheme) mmpkt_lib"

abbreviation MM_HALOW_TX_COMMAND_BLOCK_SIZE :: u32 where "MM_HALOW_TX_COMMAND_BLOCK_SIZE \<equiv> 352"
abbreviation MM_HALOW_COMMAND_N_BLOCKS :: nat where "MM_HALOW_COMMAND_N_BLOCKS \<equiv> 2"
abbreviation MM_HALOW_TX_BLOCKS :: int where "MM_HALOW_TX_BLOCKS \<equiv> 32"
abbreviation MM_HALOW_RX_BLOCKS :: int where "MM_HALOW_RX_BLOCKS \<equiv> 16"
abbreviation MM_HALOW_TX_PAUSE_THRESHOLD :: int where "MM_HALOW_TX_PAUSE_THRESHOLD \<equiv> 31"
abbreviation MM_HALOW_TX_UNPAUSE_THRESHOLD :: int where "MM_HALOW_TX_UNPAUSE_THRESHOLD \<equiv> 30"

text \<open>A pointer to one of the two free lists.\<close>

datatype pkt_pool = Tx_pool | Rx_pool

fun pool_list :: "pkt_pool \<Rightarrow> ('l, 'a) pktmem_st_scheme \<Rightarrow> 'l" where
  "pool_list Tx_pool s = tx_command_free_list s"
| "pool_list Rx_pool s = rx_command_free_list s"

fun set_pool_list :: "pkt_pool \<Rightarrow> 'l \<Rightarrow> ('l, 'a) pktmem_st_scheme \<Rightarrow> ('l, 'a) pktmem_st_scheme" where
  "set_pool_list Tx_pool l s = s\<lparr>tx_command_free_list := l\<rparr>"
| "set_pool_list Rx_pool l s = s\<lparr>rx_command_free_list := l\<rparr>"

section \<open>Init and deinit\<close>

definition mm_halow_pool_init ::
    "('l, 'a) pkt_lib \<Rightarrow> pkt_pool \<Rightarrow> u32 \<Rightarrow> nat \<Rightarrow> ('l, 'a) pktmem_st_scheme \<Rightarrow>
     (ptr \<times> ('l, 'a) pktmem_st_scheme) option" where
  "mm_halow_pool_init lib list block_size n_blocks s = do {
     (pool, s1) \<leftarrow> mm_halow_osal_malloc (block_size * of_nat n_blocks) s;
     if pool = 0 then Some (0, s1)
     else Some (pool, set_pool_list list
            (fold (\<lambda>i l. mmpkt_list_append lib l (pool + block_size * of_nat i)) [0..<n_blocks] (pool_list list s1)) s1)
   }"

definition pktmem_clear :: "('l, 'a) pkt_lib \<Rightarrow> ('l, 'a) pktmem_st_scheme \<Rightarrow> ('l, 'a) pktmem_st_scheme" where
  "pktmem_clear lib s = s\<lparr>tx_data_allocated := 0, tx_data_paused := 0, rx_data_allocated := 0,
     tx_command_free_list := mmpkt_list_zero lib, rx_command_free_list := mmpkt_list_zero lib,
     tx_command_pool := 0, rx_command_pool := 0, tx_flow_control_cb := 0\<rparr>"

definition mmhal_wlan_pktmem_init ::
    "('l, 'a) pkt_lib \<Rightarrow> ptr \<Rightarrow> ('l, 'a) pktmem_st_scheme \<Rightarrow> ('l, 'a) pktmem_st_scheme option" where
  "mmhal_wlan_pktmem_init lib cb s = do {
     (tx, s1) \<leftarrow> mm_halow_pool_init lib Tx_pool MM_HALOW_TX_COMMAND_BLOCK_SIZE MM_HALOW_COMMAND_N_BLOCKS
                   ((pktmem_clear lib s)\<lparr>tx_flow_control_cb := cb\<rparr>);
     (rx, s2) \<leftarrow> mm_halow_pool_init lib Rx_pool (MMHAL_WLAN_MMPKT_RX_MAX_SIZE lib) MM_HALOW_COMMAND_N_BLOCKS
                   (s1\<lparr>tx_command_pool := tx\<rparr>);
     Some (s2\<lparr>rx_command_pool := rx\<rparr>)
   }"

definition pktmem_drained :: "('l, 'a) pkt_lib \<Rightarrow> ('l, 'a) pktmem_st_scheme \<Rightarrow> bool" where
  "pktmem_drained lib s \<longleftrightarrow> tx_data_allocated s = 0 \<and> rx_data_allocated s = 0
     \<and> (tx_command_pool s = 0 \<or> mmpkt_list_len lib (tx_command_free_list s) = of_nat MM_HALOW_COMMAND_N_BLOCKS)
     \<and> (rx_command_pool s = 0 \<or> mmpkt_list_len lib (rx_command_free_list s) = of_nat MM_HALOW_COMMAND_N_BLOCKS)"

fun pktmem_drain ::
    "('l, 'a) pktmem_st_scheme sched_env \<Rightarrow> ('l, 'a) pkt_lib \<Rightarrow> nat \<Rightarrow> ('l, 'a) pktmem_st_scheme \<Rightarrow>
     (bool \<times> ('l, 'a) pktmem_st_scheme) option" where
  "pktmem_drain env lib 0 s = Some (False, s)"
| "pktmem_drain env lib (Suc n) s =
     (if pktmem_drained lib s then Some (True, s)
      else Option.bind (mmosal_task_sleep env 10 s) (pktmem_drain env lib n))"

definition mmhal_wlan_pktmem_deinit ::
    "('l, 'a) pktmem_st_scheme sched_env \<Rightarrow> ('l, 'a) pkt_lib \<Rightarrow> ('l, 'a) pktmem_st_scheme \<Rightarrow>
     ('l, 'a) pktmem_st_scheme option" where
  "mmhal_wlan_pktmem_deinit env lib s = do {
     (drained, s1) \<leftarrow> pktmem_drain env lib 100 s;
     s2 \<leftarrow> (if drained
            then Option.bind (mm_halow_osal_free (tx_command_pool s1) s1)
                   (\<lambda>s'. mm_halow_osal_free (rx_command_pool s') s')
            else Some s1);
     Some (pktmem_clear lib s2)
   }"

section \<open>Giving packets back\<close>

definition mm_halow_tx_command_free ::
    "('l, 'a) pkt_lib \<Rightarrow> ptr \<Rightarrow> ('l, 'a) pktmem_st_scheme \<Rightarrow> ('l, 'a) pktmem_st_scheme" where
  "mm_halow_tx_command_free lib pkt s =
     (let s1 = mmosal_task_enter_critical s
      in mmosal_task_exit_critical
           (s1\<lparr>tx_command_free_list := mmpkt_list_append lib (tx_command_free_list s1) pkt\<rparr>))"

definition mm_halow_rx_command_free ::
    "('l, 'a) pkt_lib \<Rightarrow> ptr \<Rightarrow> ('l, 'a) pktmem_st_scheme \<Rightarrow> ('l, 'a) pktmem_st_scheme" where
  "mm_halow_rx_command_free lib pkt s =
     (let s1 = mmosal_task_enter_critical s
      in mmosal_task_exit_critical
           (s1\<lparr>rx_command_free_list := mmpkt_list_append lib (rx_command_free_list s1) pkt\<rparr>))"

text \<open>The call of morselib's flow control callback.\<close>

definition tx_flow_control ::
    "('l, 'a) pkt_lib \<Rightarrow> ('l, 'a) pktmem_st_scheme \<Rightarrow> ('l, 'a) pktmem_st_scheme option" where
  "tx_flow_control lib s =
     flow_control_cb lib (tx_flow_control_cb s) (emit (Ev_flow_control (tx_flow_control_cb s) (tx_data_paused s)) s)"

text \<open>A failed MMOSAL_ASSERT does not return: None.\<close>

definition mm_halow_tx_data_free ::
    "('l, 'a) pkt_lib \<Rightarrow> ptr \<Rightarrow> ('l, 'a) pktmem_st_scheme \<Rightarrow> ('l, 'a) pktmem_st_scheme option" where
  "mm_halow_tx_data_free lib pkt s =
     (let old_value = tx_data_allocated s; s1 = s\<lparr>tx_data_allocated := old_value - 1\<rparr>
      in if \<not> sint old_value > 0 then None
         else do {
           s2 \<leftarrow> mmosal_free pkt s1;
           if sint (tx_data_allocated s2) < MM_HALOW_TX_UNPAUSE_THRESHOLD
           then let paused = tx_data_paused s2; s3 = s2\<lparr>tx_data_paused := 0\<rparr>
                in if paused \<noteq> 0 then tx_flow_control lib s3 else Some s3
           else Some s2
         })"

definition mm_halow_rx_data_free :: "ptr \<Rightarrow> ('l, 'a) pktmem_st_scheme \<Rightarrow> ('l, 'a) pktmem_st_scheme option" where
  "mm_halow_rx_data_free pkt s =
     (if pkt \<noteq> 0 then mmosal_free pkt (s\<lparr>rx_data_allocated := rx_data_allocated s - 1\<rparr>) else Some s)"

text \<open>The free operation of a packet's operations vector; a plain heap packet is freed.\<close>

fun free_mmpkt ::
    "('l, 'a) pkt_lib \<Rightarrow> mmpkt_ops \<Rightarrow> ptr \<Rightarrow> ('l, 'a) pktmem_st_scheme \<Rightarrow> ('l, 'a) pktmem_st_scheme option" where
  "free_mmpkt lib mm_halow_tx_command_ops pkt s = Some (mm_halow_tx_command_free lib pkt s)"
| "free_mmpkt lib mm_halow_rx_command_ops pkt s = Some (mm_halow_rx_command_free lib pkt s)"
| "free_mmpkt lib mm_halow_tx_data_ops pkt s = mm_halow_tx_data_free lib pkt s"
| "free_mmpkt lib mm_halow_rx_data_ops pkt s = mm_halow_rx_data_free pkt s"
| "free_mmpkt lib mmpkt_heap_ops pkt s = mmosal_free pkt s"

section \<open>Allocating packets\<close>

definition mm_halow_pool_alloc ::
    "('l, 'a) pkt_lib \<Rightarrow> pkt_pool \<Rightarrow> u32 \<Rightarrow> mmpkt_ops \<Rightarrow> u32 \<Rightarrow> u32 \<Rightarrow> u32 \<Rightarrow> ('l, 'a) pktmem_st_scheme \<Rightarrow>
     (ptr \<times> ('l, 'a) pktmem_st_scheme) option" where
  "mm_halow_pool_alloc lib list block_size ops space_at_start space_at_end metadata_length s =
     (let s1 = mmosal_task_enter_critical s;
          (buf, l) = mmpkt_list_dequeue lib (pool_list list s1);
          s2 = mmosal_task_exit_critical (set_pool_list list l s1)
      in if buf = 0 then Some (0, s2)
         else let (pkt, s3) = mmpkt_init_buf lib buf block_size space_at_start space_at_end metadata_length ops s2
              in if pkt = 0 then map_option (Pair 0) (free_mmpkt lib ops buf s3) else Some (pkt, s3))"

definition mm_halow_pkt_size_ok :: "u32 \<Rightarrow> u32 \<Rightarrow> u32 \<Rightarrow> u32 \<Rightarrow> bool" where
  "mm_halow_pkt_size_ok space_at_start space_at_end metadata_length mx \<longleftrightarrow>
     space_at_start \<le> mx \<and> space_at_end \<le> mx \<and> metadata_length \<le> mx"

text \<open>The data path of the transmit allocation: the bound, the heap packet, the pause.\<close>

definition tx_data_alloc ::
    "('l, 'a) pkt_lib \<Rightarrow> u32 \<Rightarrow> u32 \<Rightarrow> u32 \<Rightarrow> ('l, 'a) pktmem_st_scheme \<Rightarrow>
     (ptr \<times> ('l, 'a) pktmem_st_scheme) option" where
  "tx_data_alloc lib space_at_start space_at_end metadata_length s =
     (let old_value = tx_data_allocated s; s1 = s\<lparr>tx_data_allocated := old_value + 1\<rparr>
      in if sint old_value \<ge> MM_HALOW_TX_BLOCKS
         then Some (0, s1\<lparr>tx_data_allocated := tx_data_allocated s1 - 1\<rparr>)
         else do {
           (pkt, s2) \<leftarrow> mmpkt_alloc_on_heap lib space_at_start space_at_end metadata_length s1;
           if pkt = 0 then Some (0, s2\<lparr>tx_data_allocated := tx_data_allocated s2 - 1\<rparr>)
           else let s3 = s2\<lparr>pkt_ops := (pkt_ops s2)(pkt := mm_halow_tx_data_ops)\<rparr>
                in if sint (tx_data_allocated s3) > MM_HALOW_TX_PAUSE_THRESHOLD
                   then let paused = tx_data_paused s3; s4 = s3\<lparr>tx_data_paused := 1\<rparr>
                        in map_option (Pair pkt) (if paused = 0 then tx_flow_control lib s4 else Some s4)
                   else Some (pkt, s3)
         })"

definition mmhal_wlan_alloc_mmpkt_for_tx ::
    "('l, 'a) pkt_lib \<Rightarrow> u8 \<Rightarrow> u32 \<Rightarrow> u32 \<Rightarrow> u32 \<Rightarrow> ('l, 'a) pktmem_st_scheme \<Rightarrow>
     (ptr \<times> ('l, 'a) pktmem_st_scheme) option" where
  "mmhal_wlan_alloc_mmpkt_for_tx lib pkt_class space_at_start space_at_end metadata_length s =
     (if \<not> mm_halow_pkt_size_ok space_at_start space_at_end metadata_length (MMHAL_WLAN_MMPKT_TX_MAX_SIZE lib)
      then Some (0, s)
      else do {
        (pkt, s1) \<leftarrow> (if pkt_class = MMHAL_WLAN_PKT_COMMAND lib
                      then mm_halow_pool_alloc lib Tx_pool MM_HALOW_TX_COMMAND_BLOCK_SIZE
                             mm_halow_tx_command_ops space_at_start space_at_end metadata_length s
                      else Some (0, s));
        if pkt \<noteq> 0 then Some (pkt, s1)
        else tx_data_alloc lib space_at_start space_at_end metadata_length s1
      })"

definition mmhal_wlan_alloc_mmpkt_for_rx ::
    "('l, 'a) pkt_lib \<Rightarrow> u8 \<Rightarrow> u32 \<Rightarrow> u32 \<Rightarrow> ('l, 'a) pktmem_st_scheme \<Rightarrow>
     (ptr \<times> ('l, 'a) pktmem_st_scheme) option" where
  "mmhal_wlan_alloc_mmpkt_for_rx lib pkt_class capacity metadata_length s =
     (if \<not> mm_halow_pkt_size_ok 0 capacity metadata_length (MMHAL_WLAN_MMPKT_RX_MAX_SIZE lib)
      then Some (0, s)
      else if pkt_class = MMHAL_WLAN_PKT_COMMAND lib
      then do {
        (pkt, s1) \<leftarrow> mm_halow_pool_alloc lib Rx_pool (MMHAL_WLAN_MMPKT_RX_MAX_SIZE lib)
                       mm_halow_rx_command_ops 0 capacity metadata_length s;
        if pkt = 0 then mmpkt_alloc_on_heap lib 0 capacity metadata_length s1 else Some (pkt, s1)
      }
      else
        let old_value = rx_data_allocated s; s1 = s\<lparr>rx_data_allocated := old_value + 1\<rparr>
        in if sint old_value \<ge> MM_HALOW_RX_BLOCKS
           then Some (0, s1\<lparr>rx_data_allocated := rx_data_allocated s1 - 1\<rparr>)
           else do {
             (pkt, s2) \<leftarrow> mmpkt_alloc_on_heap lib 0 capacity metadata_length s1;
             if pkt = 0 then Some (0, s2\<lparr>rx_data_allocated := rx_data_allocated s2 - 1\<rparr>)
             else Some (pkt, s2\<lparr>pkt_ops := (pkt_ops s2)(pkt := mm_halow_rx_data_ops)\<rparr>)
           })"

datatype mmwlan_tx_flow_control_state = MMWLAN_TX_READY | MMWLAN_TX_PAUSED

definition mmhal_wlan_pktmem_tx_flow_control_state ::
    "('l, 'a) pktmem_st_scheme \<Rightarrow> mmwlan_tx_flow_control_state" where
  "mmhal_wlan_pktmem_tx_flow_control_state s =
     (if tx_data_paused s \<noteq> 0 then MMWLAN_TX_PAUSED else MMWLAN_TX_READY)"

end
