(* ===== verification/Halow_Pktmem_Props.thy ===== *)
theory Halow_Pktmem_Props
  imports Halow_Pktmem
begin

text \<open>
  Packet memory: what the driver relies on of morselib's packets (the locale
  \<open>mmpkt_library\<close>), the invariant that ties the counters, the pause flag and the free lists
  to the packets that are out, its preservation by every operation, and the properties.
\<close>

section \<open>What the driver relies on of morselib's packets\<close>

definition flow_log :: "event list \<Rightarrow> u8 list" where
  "flow_log tr = concat (map (\<lambda>e. case e of Ev_flow_control cb st \<Rightarrow> [st] | _ \<Rightarrow> []) tr)"

lemma flow_log_simps [simp]:
  "flow_log [] = []" "flow_log (xs @ ys) = flow_log xs @ flow_log ys"
  "flow_log [Ev_flow_control cb st] = [st]"
  by (simp_all add: flow_log_def)

text \<open>The packet memory's own variables are untouched.\<close>

definition pkt_same :: "('l, 'a) pktmem_st_scheme \<Rightarrow> ('l, 'a) pktmem_st_scheme \<Rightarrow> bool" where
  "pkt_same s s' \<longleftrightarrow> tx_data_allocated s' = tx_data_allocated s \<and> tx_data_paused s' = tx_data_paused s
     \<and> rx_data_allocated s' = rx_data_allocated s \<and> tx_command_free_list s' = tx_command_free_list s
     \<and> rx_command_free_list s' = rx_command_free_list s \<and> tx_command_pool s' = tx_command_pool s
     \<and> rx_command_pool s' = rx_command_pool s \<and> tx_flow_control_cb s' = tx_flow_control_cb s
     \<and> flow_log (trace s') = flow_log (trace s)"

locale mmpkt_library =
  fixes lib :: "('l, 'a) pkt_lib" and flist :: "'l \<Rightarrow> ptr list"
  assumes flist_zero: "flist (mmpkt_list_zero lib) = []"
    and list_len: "length (flist l) < 4294967296 \<Longrightarrow> mmpkt_list_len lib l = of_nat (length (flist l))"
    and flist_append: "p \<noteq> 0 \<Longrightarrow> p \<notin> set (flist l) \<Longrightarrow> flist (mmpkt_list_append lib l p) = flist l @ [p]"
    and dequeue_empty: "flist l = [] \<Longrightarrow> \<exists>l'. mmpkt_list_dequeue lib l = (0, l') \<and> flist l' = []"
    and dequeue_some: "flist l = p # ps \<Longrightarrow> \<exists>l'. mmpkt_list_dequeue lib l = (p, l') \<and> flist l' = ps"
    and init_buf: "\<exists>q s'. mmpkt_init_buf lib p n a b c ops s = (q, s') \<and> (q = 0 \<or> q = p \<and> pkt_ops s' p = ops)
      \<and> pkt_same s s' \<and> mm_halow_heap_head s' = mm_halow_heap_head s \<and> mm_halow_heap_mem s' = mm_halow_heap_mem s
      \<and> blk s' = blk s \<and> (\<forall>r. r \<noteq> p \<longrightarrow> pkt_ops s' r = pkt_ops s r)"
    and alloc_on_heap: "heap_live s L \<Longrightarrow> \<exists>p s'. mmpkt_alloc_on_heap lib a b c s = Some (p, s') \<and> pkt_same s s'
      \<and> (\<forall>r. r \<noteq> p \<longrightarrow> pkt_ops s' r = pkt_ops s r)
      \<and> (if p = 0 then heap_live s' L
         else \<exists>k. heap_live s' (insert (unat p, k) L) \<and> (\<forall>y \<in> L. apart (unat p, k) y))"
    and flow_cb: "heap_live s L \<Longrightarrow> \<exists>s'. flow_control_cb lib cb s = Some s' \<and> pkt_same s s'
      \<and> pkt_ops s' = pkt_ops s \<and> heap_live s' L"
    and rx_size: "0 < unat (MMHAL_WLAN_MMPKT_RX_MAX_SIZE lib)" "2 * unat (MMHAL_WLAN_MMPKT_RX_MAX_SIZE lib) < 4294967296"

section \<open>The invariant\<close>

text \<open>The blocks a reserved pool was carved into.\<close>

definition pool_blocks :: "u32 \<Rightarrow> ptr \<Rightarrow> ptr set" where
  "pool_blocks sz pool = (if pool = 0 then {} else {pool, pool + sz})"

definition pool_ok :: "('l \<Rightarrow> ptr list) \<Rightarrow> (nat \<times> nat) set \<Rightarrow> u32 \<Rightarrow> ptr \<Rightarrow> 'l \<Rightarrow> bool" where
  "pool_ok flist L sz pool l \<longleftrightarrow> distinct (flist l) \<and> set (flist l) \<subseteq> pool_blocks sz pool
     \<and> (pool \<noteq> 0 \<longrightarrow> (\<exists>k. (unat pool, k) \<in> L \<and> 2 * unat sz \<le> k))"

text \<open>What the callback was told so far: pause and resume in turn.\<close>

definition toggles :: "nat \<Rightarrow> u8 list" where
  "toggles k = map (\<lambda>i. if even i then 1 else 0) [0..<k]"

definition flow_ok :: "u8 list \<Rightarrow> nat \<Rightarrow> ('l, 'a) pktmem_st_scheme \<Rightarrow> bool" where
  "flow_ok f0 n s \<longleftrightarrow> (\<exists>k. flow_log (trace s) = f0 @ toggles k \<and> tx_data_paused s = (if odd k then 1 else 0))
     \<and> (tx_data_paused s = 1 \<longrightarrow> 30 \<le> n) \<and> (n = 32 \<longrightarrow> tx_data_paused s = 1)"

definition data_ok :: "(nat \<times> nat) set \<Rightarrow> ptr set \<Rightarrow> ('l, 'a) pktmem_st_scheme \<Rightarrow> bool" where
  "data_ok L D s \<longleftrightarrow> finite D
     \<and> (\<forall>p \<in> D. p \<noteq> tx_command_pool s \<and> p \<noteq> rx_command_pool s \<and> (\<exists>k. (unat p, k) \<in> L))"

definition pkt_mem ::
    "('l, 'a) pkt_lib \<Rightarrow> ('l \<Rightarrow> ptr list) \<Rightarrow> (nat \<times> nat) set \<Rightarrow> ptr set \<Rightarrow> ptr set \<Rightarrow>
     ('l, 'a) pktmem_st_scheme \<Rightarrow> bool" where
  "pkt_mem lib flist L T R s \<longleftrightarrow> heap_live s L \<and> data_ok L T s \<and> data_ok L R s \<and> T \<inter> R = {}
     \<and> pool_ok flist L MM_HALOW_TX_COMMAND_BLOCK_SIZE (tx_command_pool s) (tx_command_free_list s)
     \<and> pool_ok flist L (MMHAL_WLAN_MMPKT_RX_MAX_SIZE lib) (rx_command_pool s) (rx_command_free_list s)
     \<and> (tx_command_pool s = rx_command_pool s \<longrightarrow> tx_command_pool s = 0)
     \<and> (\<forall>p \<in> T. pkt_ops s p = mm_halow_tx_data_ops) \<and> (\<forall>p \<in> R. pkt_ops s p = mm_halow_rx_data_ops)"

definition pkt_ok ::
    "('l, 'a) pkt_lib \<Rightarrow> ('l \<Rightarrow> ptr list) \<Rightarrow> u8 list \<Rightarrow> (nat \<times> nat) set \<Rightarrow> ptr set \<Rightarrow> ptr set \<Rightarrow>
     ('l, 'a) pktmem_st_scheme \<Rightarrow> bool" where
  "pkt_ok lib flist f0 L T R s \<longleftrightarrow> pkt_mem lib flist L T R s
     \<and> tx_data_allocated s = of_nat (card T) \<and> card T \<le> 32
     \<and> rx_data_allocated s = of_nat (card R) \<and> card R \<le> 16 \<and> flow_ok f0 (card T) s"

lemma toggles_simps [simp]:
  "toggles 0 = []" "toggles (Suc k) = toggles k @ [if even k then 1 else 0]"
  by (simp_all add: toggles_def)

lemma pool_block_range:
  assumes "q \<in> pool_blocks sz pool" and "unat pool + 2 * unat sz \<le> 4294967296" and "0 < unat sz"
  shows "unat pool \<le> unat q \<and> unat q < unat pool + 2 * unat sz"
  using assms unat_add_u32 [of pool sz] by (auto simp: pool_blocks_def split: if_splits)

text \<open>A heap block other than the pool's holds none of the pool's packets.\<close>

lemma pool_ok_apart:
  assumes live: "heap_live s L" and ok: "pool_ok flist L sz pool l" and sz: "0 < unat sz"
    and p: "(unat p, k) \<in> L" "p \<noteq> pool"
  shows "p \<notin> pool_blocks sz pool"
proof
  assume q: "p \<in> pool_blocks sz pool"
  then obtain j where j: "(unat pool, j) \<in> L" "2 * unat sz \<le> j"
    using ok by (auto simp: pool_ok_def pool_blocks_def split: if_splits)
  have "unat pool + 2 * unat sz \<le> 4294967296" using heap_live_block(3) [OF live j(1)] j(2) by linarith
  from pool_block_range [OF q this sz] j(2)
  have r: "unat pool \<le> unat p" "unat p < unat pool + j" by linarith+
  have "(unat p, k) \<noteq> (unat pool, j)" using p(2) by (auto simp: word_unat_eq_iff)
  from heap_live_apart [OF live p(1) j(1) this] r heap_live_block(2) [OF live p(1)]
  show False by (auto simp: apart_def)
qed

lemma pool_ok_mono: "pool_ok flist L sz pool l \<Longrightarrow> L \<subseteq> L' \<Longrightarrow> pool_ok flist L' sz pool l"
  by (auto simp: pool_ok_def)

section \<open>Frame facts\<close>

named_theorems pkt_frame

lemma critical_frame [pkt_frame]:
  "tx_data_allocated (mmosal_task_enter_critical s) = tx_data_allocated s"
  "tx_data_allocated (mmosal_task_exit_critical s) = tx_data_allocated s"
  "tx_data_paused (mmosal_task_enter_critical s) = tx_data_paused s"
  "tx_data_paused (mmosal_task_exit_critical s) = tx_data_paused s"
  "rx_data_allocated (mmosal_task_enter_critical s) = rx_data_allocated s"
  "rx_data_allocated (mmosal_task_exit_critical s) = rx_data_allocated s"
  "tx_command_free_list (mmosal_task_enter_critical s) = tx_command_free_list s"
  "tx_command_free_list (mmosal_task_exit_critical s) = tx_command_free_list s"
  "rx_command_free_list (mmosal_task_enter_critical s) = rx_command_free_list s"
  "rx_command_free_list (mmosal_task_exit_critical s) = rx_command_free_list s"
  "tx_command_pool (mmosal_task_enter_critical s) = tx_command_pool s"
  "tx_command_pool (mmosal_task_exit_critical s) = tx_command_pool s"
  "rx_command_pool (mmosal_task_enter_critical s) = rx_command_pool s"
  "rx_command_pool (mmosal_task_exit_critical s) = rx_command_pool s"
  "tx_flow_control_cb (mmosal_task_enter_critical s) = tx_flow_control_cb s"
  "tx_flow_control_cb (mmosal_task_exit_critical s) = tx_flow_control_cb s"
  "pkt_ops (mmosal_task_enter_critical s) = pkt_ops s" "pkt_ops (mmosal_task_exit_critical s) = pkt_ops s"
  by (simp_all add: mmosal_task_enter_critical_def mmosal_task_exit_critical_def atomic_defs Let_def)

lemma critical_heap_frame [pkt_frame]:
  "trace (mmosal_task_enter_critical s) = trace s" "trace (mmosal_task_exit_critical s) = trace s"
  "mm_halow_heap_head (mmosal_task_enter_critical s) = mm_halow_heap_head s"
  "mm_halow_heap_head (mmosal_task_exit_critical s) = mm_halow_heap_head s"
  "mm_halow_heap_mem (mmosal_task_enter_critical s) = mm_halow_heap_mem s"
  "mm_halow_heap_mem (mmosal_task_exit_critical s) = mm_halow_heap_mem s"
  "blk (mmosal_task_enter_critical s) = blk s" "blk (mmosal_task_exit_critical s) = blk s"
  by (simp_all add: mmosal_task_enter_critical_def mmosal_task_exit_critical_def atomic_defs Let_def)

lemma malloc_pkt_same:
  assumes "mm_halow_osal_malloc n s = Some (p, s')"
  shows "pkt_same s s' \<and> pkt_ops s' = pkt_ops s"
  by (subst malloc_frame [OF assms], simp add: pkt_same_def) (subst malloc_frame [OF assms], simp)

lemma free_pkt_same:
  assumes "mm_halow_osal_free p s = Some s'"
  shows "pkt_same s s' \<and> pkt_ops s' = pkt_ops s"
  by (subst free_frame [OF assms], simp add: pkt_same_def) (subst free_frame [OF assms], simp)

section \<open>Preservation\<close>

fun pool_base :: "pkt_pool \<Rightarrow> ('l, 'a) pktmem_st_scheme \<Rightarrow> ptr" where
  "pool_base Tx_pool s = tx_command_pool s" | "pool_base Rx_pool s = rx_command_pool s"

fun pool_size :: "('l, 'a) pkt_lib \<Rightarrow> pkt_pool \<Rightarrow> u32" where
  "pool_size lib Tx_pool = MM_HALOW_TX_COMMAND_BLOCK_SIZE"
| "pool_size lib Rx_pool = MMHAL_WLAN_MMPKT_RX_MAX_SIZE lib"

fun pool_ops :: "pkt_pool \<Rightarrow> mmpkt_ops" where
  "pool_ops Tx_pool = mm_halow_tx_command_ops" | "pool_ops Rx_pool = mm_halow_rx_command_ops"

text \<open>Everything the invariant looks at, but for the free lists.\<close>

definition pkt_agree :: "('l, 'a) pktmem_st_scheme \<Rightarrow> ('l, 'a) pktmem_st_scheme \<Rightarrow> bool" where
  "pkt_agree s s' \<longleftrightarrow> tx_data_allocated s' = tx_data_allocated s \<and> tx_data_paused s' = tx_data_paused s
     \<and> rx_data_allocated s' = rx_data_allocated s \<and> tx_command_pool s' = tx_command_pool s
     \<and> rx_command_pool s' = rx_command_pool s \<and> flow_log (trace s') = flow_log (trace s)"

lemma pkt_same_agree: "pkt_same s s' \<Longrightarrow> pkt_agree s s' \<and> pool_list pool s' = pool_list pool s"
  by (cases pool) (simp_all add: pkt_same_def pkt_agree_def)

lemma pkt_agree_refl [simp]: "pkt_agree s s"
  by (simp add: pkt_agree_def)

lemma pkt_agree_trans: "pkt_agree s s1 \<Longrightarrow> pkt_agree s1 s2 \<Longrightarrow> pkt_agree s s2"
  by (simp add: pkt_agree_def)

lemma pool_ok_of:
  "pkt_ok lib flist f0 L T R s \<Longrightarrow> pool_ok flist L (pool_size lib pool) (pool_base pool s) (pool_list pool s)"
  by (cases pool) (simp_all add: pkt_ok_def pkt_mem_def)

lemma data_ok_agree: "data_ok L D s \<Longrightarrow> pkt_agree s s' \<Longrightarrow> L \<subseteq> L' \<Longrightarrow> data_ok L' D s'"
  by (fastforce simp: data_ok_def pkt_agree_def)

lemma pkt_ok_agree:
  assumes ok: "pkt_ok lib flist f0 L T R s" and a: "pkt_agree s s'" and live: "heap_live s' L'" and sub: "L \<subseteq> L'"
    and ops: "\<forall>p \<in> T \<union> R. pkt_ops s' p = pkt_ops s p"
    and pools: "\<And>pool. distinct (flist (pool_list pool s'))
      \<and> set (flist (pool_list pool s')) \<subseteq> pool_blocks (pool_size lib pool) (pool_base pool s)"
  shows "pkt_ok lib flist f0 L' T R s'"
proof -
  have "pool_ok flist L' (pool_size lib pool) (pool_base pool s') (pool_list pool s')" for pool
    using pool_ok_of [OF ok, of pool] pools [of pool] a sub
    by (cases pool) (auto simp: pool_ok_def pkt_agree_def)
  from this [of Tx_pool] this [of Rx_pool]
  have P: "pool_ok flist L' MM_HALOW_TX_COMMAND_BLOCK_SIZE (tx_command_pool s') (tx_command_free_list s')"
    "pool_ok flist L' (MMHAL_WLAN_MMPKT_RX_MAX_SIZE lib) (rx_command_pool s') (rx_command_free_list s')" by simp_all
  have D: "data_ok L' T s'" "data_ok L' R s'"
    using ok a by (auto simp: pkt_ok_def pkt_mem_def intro: data_ok_agree [OF _ _ sub])
  have F: "flow_ok f0 (card T) s'" using ok a by (simp add: pkt_ok_def pkt_mem_def flow_ok_def pkt_agree_def)
  show ?thesis using ok a ops live unfolding pkt_ok_def pkt_mem_def pkt_agree_def
    by (elim conjE, intro conjI P D F) simp_all
qed

lemma pkt_ok_same:
  assumes "pkt_ok lib flist f0 L T R s" and "pkt_same s s'" and "heap_live s' L'" and "L \<subseteq> L'"
    and "\<forall>p \<in> T \<union> R. pkt_ops s' p = pkt_ops s p"
  shows "pkt_ok lib flist f0 L' T R s'"
proof (rule pkt_ok_agree [OF assms(1) _ assms(3-5)])
  show "pkt_agree s s'" using assms(2) pkt_same_agree by blast
  fix pool
  have "pool_list pool s' = pool_list pool s" using assms(2) pkt_same_agree by blast
  with pool_ok_of [OF assms(1), of pool] show "distinct (flist (pool_list pool s'))
      \<and> set (flist (pool_list pool s')) \<subseteq> pool_blocks (pool_size lib pool) (pool_base pool s)"
    by (simp add: pool_ok_def)
qed

lemma pool_bracket:
  "pkt_agree s (mmosal_task_exit_critical (set_pool_list pool l (mmosal_task_enter_critical s)))
   \<and> pool_list pool' (mmosal_task_exit_critical (set_pool_list pool l (mmosal_task_enter_critical s)))
       = (if pool' = pool then l else pool_list pool' s)
   \<and> heap_live (mmosal_task_exit_critical (set_pool_list pool l (mmosal_task_enter_critical s))) L = heap_live s L
   \<and> pkt_ops (mmosal_task_exit_critical (set_pool_list pool l (mmosal_task_enter_critical s))) = pkt_ops s"
proof (intro conjI)
  show "heap_live (mmosal_task_exit_critical (set_pool_list pool l (mmosal_task_enter_critical s))) L = heap_live s L"
    by (rule heap_live_cong; cases pool) (simp_all add: pkt_frame)
qed (cases pool; cases pool'; simp add: pkt_agree_def pkt_frame)+

lemma free_command_eq:
  "free_mmpkt lib (pool_ops pool) p s = Some (mmosal_task_exit_critical
     (set_pool_list pool (mmpkt_list_append lib (pool_list pool s) p) (mmosal_task_enter_critical s)))"
  by (cases pool) (simp_all add: mm_halow_tx_command_free_def mm_halow_rx_command_free_def Let_def pkt_frame)

context mmpkt_library
begin

lemma pool_block_nonnull:
  assumes "pkt_ok lib flist f0 L T R s" and "p \<in> pool_blocks (pool_size lib pool) (pool_base pool s)"
  shows "p \<noteq> 0 \<and> p \<notin> T \<union> R"
proof -
  have live: "heap_live s L" and po: "pool_ok flist L (pool_size lib pool) (pool_base pool s) (pool_list pool s)"
    using assms(1) pool_ok_of [OF assms(1)] by (simp_all add: pkt_ok_def pkt_mem_def)
  have sz: "0 < unat (pool_size lib pool)" using rx_size by (cases pool) simp_all
  obtain j where j: "(unat (pool_base pool s), j) \<in> L" "2 * unat (pool_size lib pool) \<le> j"
    using po assms(2) by (auto simp: pool_ok_def pool_blocks_def split: if_splits)
  from heap_live_block(1,3) [OF live j(1)] pool_block_range [OF assms(2) _ sz] j(2)
  have "0 < unat p" by linarith
  moreover have "p \<notin> D" if D: "data_ok L D s" for D
  proof
    assume p: "p \<in> D"
    with D obtain k where k: "(unat p, k) \<in> L" "p \<noteq> pool_base pool s"
      by (cases pool) (auto simp: data_ok_def)
    from pool_ok_apart [OF live po sz this] assms(2) show False by simp
  qed
  then have "p \<notin> T" "p \<notin> R" using assms(1) by (simp_all add: pkt_ok_def pkt_mem_def)
  ultimately show ?thesis by auto
qed

lemma pool_list_apart:
  assumes ok: "pkt_ok lib flist f0 L T R s" and p: "p \<in> set (flist (pool_list pool s))"
  shows "p \<noteq> 0 \<and> p \<notin> T \<union> R"
  using pool_block_nonnull [OF ok] pool_ok_of [OF ok, of pool] p by (auto simp: pool_ok_def)

text \<open>Giving a command packet back to its pool, and taking one.\<close>

lemma pool_swap_ok:
  assumes ok: "pkt_ok lib flist f0 L T R s"
    and l: "distinct (flist l)" "set (flist l) \<subseteq> pool_blocks (pool_size lib pool) (pool_base pool s)"
  shows "pkt_ok lib flist f0 L T R (mmosal_task_exit_critical (set_pool_list pool l (mmosal_task_enter_critical s)))"
proof (rule pkt_ok_agree [OF ok _ _ subset_refl])
  note br = pool_bracket [of s pool l]
  let ?s = "mmosal_task_exit_critical (set_pool_list pool l (mmosal_task_enter_critical s))"
  show "heap_live ?s L" using br ok by (simp add: pkt_ok_def pkt_mem_def)
  show "pkt_agree s ?s" "\<forall>p \<in> T \<union> R. pkt_ops ?s p = pkt_ops s p" using br by simp_all
  fix q
  show "distinct (flist (pool_list q ?s))
      \<and> set (flist (pool_list q ?s)) \<subseteq> pool_blocks (pool_size lib q) (pool_base q s)"
    using br [of q] l pool_ok_of [OF ok, of q] by (auto simp: pool_ok_def)
qed

lemma command_free_ok:
  assumes ok: "pkt_ok lib flist f0 L T R s"
    and p: "p \<in> pool_blocks (pool_size lib pool) (pool_base pool s)" "p \<notin> set (flist (pool_list pool s))"
  shows "\<exists>s'. free_mmpkt lib (pool_ops pool) p s = Some s' \<and> pkt_ok lib flist f0 L T R s' \<and> pkt_agree s s'
    \<and> flist (pool_list pool s') = flist (pool_list pool s) @ [p]
    \<and> (\<forall>q. q \<noteq> pool \<longrightarrow> pool_list q s' = pool_list q s)"
proof -
  let ?l = "mmpkt_list_append lib (pool_list pool s) p"
  note br = pool_bracket [of s pool ?l]
  have p0: "p \<noteq> 0" using pool_block_nonnull [OF ok p(1)] by simp
  have fl: "flist ?l = flist (pool_list pool s) @ [p]" by (rule flist_append [OF p0 p(2)])
  have "pkt_ok lib flist f0 L T R (mmosal_task_exit_critical (set_pool_list pool ?l (mmosal_task_enter_critical s)))"
    by (rule pool_swap_ok [OF ok]; unfold fl; use pool_ok_of [OF ok, of pool] p in \<open>auto simp: pool_ok_def\<close>)
  with fl br show ?thesis by (simp add: free_command_eq)
qed

lemma block_init_ok:
  assumes ok: "pkt_ok lib flist f0 L T R s" and p: "p \<notin> T \<union> R"
  obtains q s' where "mmpkt_init_buf lib p sz a b' c ops s = (q, s')" and "q = 0 \<or> q = p \<and> pkt_ops s' p = ops"
    and "pkt_ok lib flist f0 L T R s'" and "pkt_agree s s'" and "\<forall>r. pool_list r s' = pool_list r s"
proof -
  obtain q s' where i: "mmpkt_init_buf lib p sz a b' c ops s = (q, s')"
    and q: "q = 0 \<or> q = p \<and> pkt_ops s' p = ops" and same: "pkt_same s s'"
    and h: "mm_halow_heap_head s' = mm_halow_heap_head s" "mm_halow_heap_mem s' = mm_halow_heap_mem s"
      "blk s' = blk s" and fr: "\<forall>r. r \<noteq> p \<longrightarrow> pkt_ops s' r = pkt_ops s r"
    using init_buf [of p sz a b' c ops s] by blast
  have "heap_live s' L" using ok heap_live_cong [OF h] by (simp add: pkt_ok_def pkt_mem_def)
  moreover have "\<forall>r \<in> T \<union> R. pkt_ops s' r = pkt_ops s r" using fr p by metis
  ultimately have "pkt_ok lib flist f0 L T R s'" by (intro pkt_ok_same [OF ok same _ subset_refl])
  moreover have "pkt_agree s s'" "\<forall>r. pool_list r s' = pool_list r s" using same pkt_same_agree by blast+
  ultimately show ?thesis using that i q by blast
qed

lemma pool_alloc_ok:
  assumes ok: "pkt_ok lib flist f0 L T R s"
  shows "\<exists>p s'. mm_halow_pool_alloc lib pool sz (pool_ops pool) a b' c s = Some (p, s')
    \<and> pkt_ok lib flist f0 L T R s' \<and> pkt_agree s s' \<and> (\<forall>q. q \<noteq> pool \<longrightarrow> pool_list q s' = pool_list q s)
    \<and> (if p = 0 then set (flist (pool_list pool s')) = set (flist (pool_list pool s))
       else flist (pool_list pool s) = p # flist (pool_list pool s') \<and> pkt_ops s' p = pool_ops pool)"
proof -
  let ?l = "pool_list pool s" and ?B = "pool_blocks (pool_size lib pool) (pool_base pool s)"
  have en: "pool_list pool (mmosal_task_enter_critical s) = ?l" by (cases pool) (simp_all add: pkt_frame)
  obtain p l where d: "mmpkt_list_dequeue lib ?l = (p, l)" by fastforce
  let ?s2 = "mmosal_task_exit_critical (set_pool_list pool l (mmosal_task_enter_critical s))"
  note br = pool_bracket [of s pool l] and ok2 = pool_swap_ok [OF ok, of l pool]
  have dl: "distinct (flist ?l) \<and> set (flist ?l) \<subseteq> ?B" using pool_ok_of [OF ok] by (simp add: pool_ok_def)
  show ?thesis
  proof (cases "flist ?l")
    case Nil
    with dequeue_empty [of ?l] d have "p = 0" "flist l = []" by auto
    with d en ok2 br Nil show ?thesis
      by (intro exI [of _ 0] exI [of _ ?s2]) (simp add: mm_halow_pool_alloc_def Let_def)
  next
    case (Cons b ps)
    with dequeue_some [OF Cons] d have pb: "p = b" "flist l = ps" by auto
    have pB: "p \<in> ?B" "p \<notin> set ps" "distinct ps" "set ps \<subseteq> ?B" using dl Cons pb by auto
    have p0: "p \<noteq> 0" "p \<notin> T \<union> R" using pool_block_nonnull [OF ok pB(1)] by simp_all
    have o2: "pkt_ok lib flist f0 L T R ?s2" using ok2 pb pB by simp
    obtain q s3 where i: "mmpkt_init_buf lib p sz a b' c (pool_ops pool) ?s2 = (q, s3)"
      and q: "q = 0 \<or> q = p \<and> pkt_ops s3 p = pool_ops pool" and o3: "pkt_ok lib flist f0 L T R s3"
      and a3: "pkt_agree ?s2 s3" and pl: "\<forall>r. pool_list r s3 = pool_list r ?s2"
      by (rule block_init_ok [OF o2 p0(2)], rule that; blast)
    have ag: "pkt_agree s s3" using br a3 pkt_agree_trans by blast
    have l3: "flist (pool_list pool s3) = ps" "r \<noteq> pool \<Longrightarrow> pool_list r s3 = pool_list r s" for r
      using pl br [of pool] br [of r] pb by simp_all
    show ?thesis
    proof (cases "q = 0")
      case True
      have "p \<in> pool_blocks (pool_size lib pool) (pool_base pool s3)" "p \<notin> set (flist (pool_list pool s3))"
        using pB(1,2) ag l3(1) by (cases pool; simp add: pkt_agree_def)+
      from command_free_ok [OF o3 this] obtain s4 where s4: "free_mmpkt lib (pool_ops pool) p s3 = Some s4"
        "pkt_ok lib flist f0 L T R s4" "pkt_agree s3 s4" "flist (pool_list pool s4) = ps @ [p]"
        "\<forall>r. r \<noteq> pool \<longrightarrow> pool_list r s4 = pool_list r s3" using l3(1) by auto
      have "mm_halow_pool_alloc lib pool sz (pool_ops pool) a b' c s = Some (0, s4)"
        using s4(1) i d en p0 True by (simp add: mm_halow_pool_alloc_def Let_def)
      with s4 l3 pkt_agree_trans [OF ag s4(3)] Cons pb show ?thesis by auto
    next
      case False
      with q have qp: "q = p" "pkt_ops s3 p = pool_ops pool" by simp_all
      have "mm_halow_pool_alloc lib pool sz (pool_ops pool) a b' c s = Some (p, s3)"
        using i d en p0 qp by (simp add: mm_halow_pool_alloc_def Let_def)
      with o3 ag l3 qp(2) p0(1) Cons pb show ?thesis by auto
    qed
  qed
qed

end

text \<open>A fresh heap block is none of the packets and pools there are.\<close>

lemma fresh_block:
  assumes "heap_live s' (insert (unat p, k) L)" and "\<forall>y \<in> L. apart (unat p, k) y" and "heap_live s L"
  shows "(unat p, j) \<notin> L"
proof
  assume j: "(unat p, j) \<in> L"
  have "8 \<le> k" using heap_live_block(2) [OF assms(1), of "unat p" k] by simp
  moreover have "8 \<le> j" by (rule heap_live_block(2) [OF assms(3) j])
  ultimately show False using assms(2) j by (fastforce simp: apart_def)
qed

definition pools_same :: "('l, 'a) pktmem_st_scheme \<Rightarrow> ('l, 'a) pktmem_st_scheme \<Rightarrow> bool" where
  "pools_same s s' \<longleftrightarrow> tx_command_pool s' = tx_command_pool s \<and> rx_command_pool s' = rx_command_pool s
     \<and> tx_command_free_list s' = tx_command_free_list s \<and> rx_command_free_list s' = rx_command_free_list s"

lemma data_ok_insert:
  assumes D: "data_ok L D s" and same: "pools_same s s'" and p: "p \<noteq> tx_command_pool s" "p \<noteq> rx_command_pool s"
  shows "data_ok (insert (unat p, k) L) (insert p D) s'"
proof -
  have "finite D" using D by (simp add: data_ok_def)
  moreover have "q \<noteq> tx_command_pool s' \<and> q \<noteq> rx_command_pool s' \<and> (\<exists>j. (unat q, j) \<in> insert (unat p, k) L)"
    if "q \<in> insert p D" for q
    using that D same p by (auto simp: data_ok_def pools_same_def)
  ultimately show ?thesis by (simp add: data_ok_def)
qed

lemma data_ok_pools: "data_ok L D s \<Longrightarrow> pools_same s s' \<Longrightarrow> L \<subseteq> L' \<Longrightarrow> data_ok L' D s'"
  by (fastforce simp: data_ok_def pools_same_def)

lemma data_ok_remove:
  assumes D: "data_ok L D s" and same: "pools_same s s'"
  shows "data_ok (L - {(unat p, k)}) (D - {p}) s'"
proof -
  have "finite (D - {p})" using D by (simp add: data_ok_def)
  moreover have "q \<noteq> tx_command_pool s' \<and> q \<noteq> rx_command_pool s' \<and> (\<exists>j. (unat q, j) \<in> L - {(unat p, k)})"
    if q: "q \<in> D - {p}" for q
  proof -
    from q D obtain j where "(unat q, j) \<in> L" "q \<noteq> tx_command_pool s" "q \<noteq> rx_command_pool s"
      by (auto simp: data_ok_def)
    moreover have "unat q \<noteq> unat p" using q by (simp add: word_unat_eq_iff)
    ultimately show ?thesis using same by (auto simp: pools_same_def)
  qed
  ultimately show ?thesis by (simp add: data_ok_def)
qed

lemma pool_ok_remove:
  assumes "pool_ok flist L sz pool l" and "p \<noteq> pool"
  shows "pool_ok flist (L - {(unat p, k)}) sz pool l"
  using assms by (auto simp: pool_ok_def word_unat_eq_iff)

lemma pkt_mem_insert:
  assumes mem: "pkt_mem lib flist L T R s" and same: "pools_same s s'" and p: "p \<noteq> 0"
    and live: "heap_live s' (insert (unat p, k) L)" and ap: "\<forall>y \<in> L. apart (unat p, k) y"
    and ops: "\<forall>r. r \<noteq> p \<longrightarrow> pkt_ops s' r = pkt_ops s r"
  shows "p \<notin> T \<union> R"
    and "pkt_ops s' p = mm_halow_tx_data_ops \<Longrightarrow> pkt_mem lib flist (insert (unat p, k) L) (insert p T) R s'"
    and "pkt_ops s' p = mm_halow_rx_data_ops \<Longrightarrow> pkt_mem lib flist (insert (unat p, k) L) T (insert p R) s'"
proof -
  note fresh = fresh_block [OF live ap]
  have L: "heap_live s L" and TR: "data_ok L T s" "data_ok L R s" and P:
    "pool_ok flist L MM_HALOW_TX_COMMAND_BLOCK_SIZE (tx_command_pool s) (tx_command_free_list s)"
    "pool_ok flist L (MMHAL_WLAN_MMPKT_RX_MAX_SIZE lib) (rx_command_pool s) (rx_command_free_list s)"
    using mem by (simp_all add: pkt_mem_def)
  have np: "p \<noteq> tx_command_pool s" "p \<noteq> rx_command_pool s"
    using P p fresh [OF L] by (auto simp: pool_ok_def)
  show nT: "p \<notin> T \<union> R" using TR fresh [OF L] by (auto simp: data_ok_def)
  have P': "pool_ok flist (insert (unat p, k) L) MM_HALOW_TX_COMMAND_BLOCK_SIZE (tx_command_pool s') (tx_command_free_list s')"
    "pool_ok flist (insert (unat p, k) L) (MMHAL_WLAN_MMPKT_RX_MAX_SIZE lib) (rx_command_pool s') (rx_command_free_list s')"
    "tx_command_pool s' = rx_command_pool s' \<longrightarrow> tx_command_pool s' = 0"
    using P mem same by (auto simp: pools_same_def pkt_mem_def intro: pool_ok_mono)
  note I = data_ok_insert [OF _ same np, of L _ k] and K = data_ok_pools [OF _ same subset_insertI]
  have O: "\<forall>r \<in> T. pkt_ops s' r = mm_halow_tx_data_ops" "\<forall>r \<in> R. pkt_ops s' r = mm_halow_rx_data_ops"
    using mem ops nT by (auto simp: pkt_mem_def)
  have TR0: "T \<inter> R = {}" using mem by (simp add: pkt_mem_def)
  show "pkt_mem lib flist (insert (unat p, k) L) (insert p T) R s'" if "pkt_ops s' p = mm_halow_tx_data_ops"
    unfolding pkt_mem_def using that nT O TR0 by (intro conjI live I K TR P') auto
  show "pkt_mem lib flist (insert (unat p, k) L) T (insert p R) s'" if "pkt_ops s' p = mm_halow_rx_data_ops"
    unfolding pkt_mem_def using that nT O TR0 by (intro conjI live I K TR P') auto
qed

lemma pkt_mem_remove:
  assumes mem: "pkt_mem lib flist L T R s" and same: "pools_same s s'" and p: "p \<in> T \<union> R"
    and live: "heap_live s' (L - {(unat p, k)})" and ops: "pkt_ops s' = pkt_ops s"
  shows "pkt_mem lib flist (L - {(unat p, k)}) (T - {p}) (R - {p}) s'"
proof -
  have np: "p \<noteq> tx_command_pool s" "p \<noteq> rx_command_pool s"
    using mem p by (auto simp: pkt_mem_def data_ok_def)
  have P: "pool_ok flist (L - {(unat p, k)}) MM_HALOW_TX_COMMAND_BLOCK_SIZE (tx_command_pool s') (tx_command_free_list s')"
    "pool_ok flist (L - {(unat p, k)}) (MMHAL_WLAN_MMPKT_RX_MAX_SIZE lib) (rx_command_pool s') (rx_command_free_list s')"
    using mem same np by (auto simp: pkt_mem_def pools_same_def intro: pool_ok_remove)
  have "data_ok (L - {(unat p, k)}) (T - {p}) s'" "data_ok (L - {(unat p, k)}) (R - {p}) s'"
    using mem same by (auto simp: pkt_mem_def intro: data_ok_remove)
  then show ?thesis unfolding pkt_mem_def using mem same ops
    by (intro conjI live P) (auto simp: pkt_mem_def pools_same_def)
qed

section \<open>Flow control\<close>

lemma sint_of_nat_u32: "n < 2147483648 \<Longrightarrow> sint (of_nat n :: u32) = int n"
  by (simp add: signed_of_nat signed_take_bit_int_eq_self)

lemma flow_keep:
  assumes "flow_ok f0 n s" and "flow_log (trace s') = flow_log (trace s)"
    and "tx_data_paused s' = tx_data_paused s"
    and "tx_data_paused s = 1 \<Longrightarrow> 30 \<le> m" and "m = 32 \<Longrightarrow> tx_data_paused s = 1"
  shows "flow_ok f0 m s'"
  using assms by (simp add: flow_ok_def)

lemma flow_toggle:
  assumes "flow_ok f0 n s" and "tx_data_paused s = (if on then 0 else 1)" and "tx_data_paused s' = (if on then 1 else 0)"
    and "flow_log (trace s') = flow_log (trace s) @ [tx_data_paused s']"
    and "on \<Longrightarrow> 30 \<le> m" and "\<not> on \<Longrightarrow> m \<noteq> 32"
  shows "flow_ok f0 m s'"
proof -
  obtain k where k: "flow_log (trace s) = f0 @ toggles k" "tx_data_paused s = (if odd k then 1 else 0)"
    using assms(1) by (auto simp: flow_ok_def)
  have odd: "odd k \<longleftrightarrow> \<not> on" using k(2) assms(2) by (cases on; cases "odd k") simp_all
  have "flow_log (trace s') = f0 @ toggles (Suc k)" "tx_data_paused s' = (if odd (Suc k) then 1 else 0)"
    using k(1) odd by (simp_all add: assms(3,4))
  moreover have "tx_data_paused s' = 1 \<longrightarrow> 30 \<le> m" "m = 32 \<longrightarrow> tx_data_paused s' = 1"
    using assms(3,5,6) by (cases on; simp)+
  ultimately show ?thesis unfolding flow_ok_def by blast
qed

lemma flow_paused_01: "flow_ok f0 n s \<Longrightarrow> tx_data_paused s = 0 \<or> tx_data_paused s = 1"
  by (auto simp: flow_ok_def split: if_splits)

lemma pkt_upd_live [simp]:
  "heap_live (s\<lparr>tx_data_allocated := x\<rparr>) L = heap_live s L"
  "heap_live (s\<lparr>rx_data_allocated := x\<rparr>) L = heap_live s L"
  "heap_live (s\<lparr>tx_data_paused := y\<rparr>) L = heap_live s L"
  "heap_live (s\<lparr>pkt_ops := f\<rparr>) L = heap_live s L"
  "heap_live (emit e s) L = heap_live s L"
  by (rule heap_live_cong; simp add: emit_def)+

lemma pkt_mem_cong:
  assumes "pkt_mem lib flist L T R s" and "pools_same s s'" and "heap_live s' L'" and "L \<subseteq> L'"
    and "\<forall>p \<in> T \<union> R. pkt_ops s' p = pkt_ops s p"
  shows "pkt_mem lib flist L' T R s'"
proof -
  have "pool_ok flist L' MM_HALOW_TX_COMMAND_BLOCK_SIZE (tx_command_pool s') (tx_command_free_list s')"
    "pool_ok flist L' (MMHAL_WLAN_MMPKT_RX_MAX_SIZE lib) (rx_command_pool s') (rx_command_free_list s')"
    using assms(1,2) by (auto simp: pkt_mem_def pools_same_def intro: pool_ok_mono [OF _ assms(4)])
  moreover have "data_ok L' T s'" "data_ok L' R s'"
    using assms(1) by (auto simp: pkt_mem_def intro: data_ok_pools [OF _ assms(2,4)])
  ultimately show ?thesis unfolding pkt_mem_def using assms
    by (intro conjI) (auto simp: pkt_mem_def pools_same_def)
qed

context mmpkt_library
begin

lemma flow_call:
  assumes "heap_live s L"
  shows "\<exists>s'. tx_flow_control lib s = Some s' \<and> tx_data_allocated s' = tx_data_allocated s
    \<and> rx_data_allocated s' = rx_data_allocated s \<and> tx_data_paused s' = tx_data_paused s \<and> pools_same s s'
    \<and> flow_log (trace s') = flow_log (trace s) @ [tx_data_paused s] \<and> pkt_ops s' = pkt_ops s \<and> heap_live s' L"
proof -
  have "heap_live (emit (Ev_flow_control (tx_flow_control_cb s) (tx_data_paused s)) s) L" using assms by simp
  from flow_cb [OF this, of "tx_flow_control_cb s"] show ?thesis
    by (auto simp: tx_flow_control_def pkt_same_def pools_same_def emit_def)
qed

lemma tx_high_water:
  assumes mem: "pkt_mem lib flist L D R t" and card: "card D = Suc n" "n < 32"
    and cnt: "tx_data_allocated t = of_nat (card D)" "rx_data_allocated t = of_nat (card R)" "card R \<le> 16"
    and fl: "flow_ok f0 n s" and same: "tx_data_paused t = tx_data_paused s" "flow_log (trace t) = flow_log (trace s)"
  shows "\<exists>s'. (if sint (tx_data_allocated t) > MM_HALOW_TX_PAUSE_THRESHOLD
       then let paused = tx_data_paused t; t4 = t\<lparr>tx_data_paused := 1\<rparr>
            in map_option (Pair p) (if paused = 0 then tx_flow_control lib t4 else Some t4)
       else Some (p, t)) = Some (p, s')
    \<and> pkt_ok lib flist f0 L D R s' \<and> pools_same t s'"
proof -
  have live: "heap_live t L" using mem by (simp add: pkt_mem_def)
  have "sint (tx_data_allocated t) = int (card D)" unfolding cnt(1) by (rule sint_of_nat_u32) (use card in simp)
  then have thr: "sint (tx_data_allocated t) > MM_HALOW_TX_PAUSE_THRESHOLD \<longleftrightarrow> n = 31" using card by auto
  show ?thesis
  proof (cases "n = 31 \<and> tx_data_paused s = 0")
    case True
    have "heap_live (t\<lparr>tx_data_paused := 1\<rparr>) L" using live by simp
    from flow_call [OF this] obtain s' where s': "tx_flow_control lib (t\<lparr>tx_data_paused := 1\<rparr>) = Some s'"
      "tx_data_allocated s' = tx_data_allocated t" "rx_data_allocated s' = rx_data_allocated t"
      "tx_data_paused s' = 1" "pools_same t s'" "flow_log (trace s') = flow_log (trace s) @ [1]"
      "pkt_ops s' = pkt_ops t" "heap_live s' L"
      using same by (auto simp: pools_same_def)
    have "pkt_mem lib flist L D R s'" using pkt_mem_cong [OF mem s'(5,8) subset_refl] s'(7) by simp
    moreover have "flow_ok f0 (card D) s'"
      by (rule flow_toggle [OF fl, of True]) (use True s' card in simp_all)
    ultimately have "pkt_ok lib flist f0 L D R s'" using s'(2,3) cnt card by (simp add: pkt_ok_def)
    then show ?thesis using thr True s'(1,5) same by (simp add: Let_def)
  next
    case False
    let ?s' = "if n = 31 then t\<lparr>tx_data_paused := 1\<rparr> else t"
    have fr: "pools_same t ?s'" "pkt_ops ?s' = pkt_ops t" "heap_live ?s' L" "trace ?s' = trace t"
      using live by (simp_all add: pools_same_def)
    have pz: "tx_data_paused ?s' = tx_data_paused s" using False flow_paused_01 [OF fl] same by auto
    have "pkt_mem lib flist L D R ?s'" using pkt_mem_cong [OF mem fr(1,3) subset_refl] fr(2) by simp
    moreover have "flow_ok f0 (card D) ?s'"
    proof (rule flow_keep [OF fl _ pz])
      show "flow_log (trace ?s') = flow_log (trace s)" using fr(4) same by simp
      show "30 \<le> card D" if "tx_data_paused s = 1" using that fl card by (simp add: flow_ok_def)
      show "tx_data_paused s = 1" if "card D = 32" using that False flow_paused_01 [OF fl] card by auto
    qed
    ultimately have "pkt_ok lib flist f0 L D R ?s'" using cnt card by (simp add: pkt_ok_def)
    then show ?thesis using thr False same fr(1) by (intro exI [of _ ?s']) (auto simp: Let_def)
  qed
qed

lemma pkt_mem_refused:
  assumes mem: "pkt_mem lib flist L T R s" and same: "pools_same s s'" and live: "heap_live s' L"
    and ops: "\<forall>q. q \<noteq> 0 \<longrightarrow> pkt_ops s' q = pkt_ops s q"
  shows "pkt_mem lib flist L T R s'"
proof -
  have "heap_live s L" using mem by (simp add: pkt_mem_def)
  then have "0 \<notin> T \<union> R" using mem heap_live_block(1) by (fastforce simp: pkt_mem_def data_ok_def)
  then have "\<forall>q \<in> T \<union> R. pkt_ops s' q = pkt_ops s q" using ops by metis
  from pkt_mem_cong [OF mem same live subset_refl this] show ?thesis .
qed

lemma data_alloc_mem:
  assumes mem: "pkt_mem lib flist L T R s" and s1: "pools_same s s1" "pkt_ops s1 = pkt_ops s" "heap_live s1 L"
  obtains p s2 where "mmpkt_alloc_on_heap lib a b c s1 = Some (p, s2)" and "pkt_same s1 s2" and "pools_same s s2"
    and "p = 0 \<Longrightarrow> pkt_mem lib flist L T R s2"
    and "p \<noteq> 0 \<Longrightarrow> p \<notin> T \<union> R"
    and "p \<noteq> 0 \<Longrightarrow> \<exists>L'. L \<subseteq> L' \<and> pkt_mem lib flist L' (insert p T) R
           (s2\<lparr>pkt_ops := (pkt_ops s2)(p := mm_halow_tx_data_ops)\<rparr>)
         \<and> pkt_mem lib flist L' T (insert p R) (s2\<lparr>pkt_ops := (pkt_ops s2)(p := mm_halow_rx_data_ops)\<rparr>)"
proof -
  obtain p s2 where al: "mmpkt_alloc_on_heap lib a b c s1 = Some (p, s2)" and same: "pkt_same s1 s2"
    and ops: "\<forall>r. r \<noteq> p \<longrightarrow> pkt_ops s2 r = pkt_ops s1 r"
    and cases: "if p = 0 then heap_live s2 L
       else \<exists>k. heap_live s2 (insert (unat p, k) L) \<and> (\<forall>y \<in> L. apart (unat p, k) y)"
    using alloc_on_heap [OF s1(3), of a b c] by blast
  have ps: "pools_same s s2" using s1(1) same by (simp add: pkt_same_def pools_same_def)
  show ?thesis
  proof (rule that [OF al same ps])
    show "pkt_mem lib flist L T R s2" if "p = 0"
      by (rule pkt_mem_refused [OF mem ps]) (use cases ops that s1(2) in simp_all)
    fix P assume p0: "p \<noteq> 0"
    then obtain k where k: "heap_live s2 (insert (unat p, k) L)" "\<forall>y \<in> L. apart (unat p, k) y"
      using cases by auto
    have w: "pools_same s (s2\<lparr>pkt_ops := (pkt_ops s2)(p := f)\<rparr>)"
      "heap_live (s2\<lparr>pkt_ops := (pkt_ops s2)(p := f)\<rparr>) (insert (unat p, k) L)"
      "\<forall>r. r \<noteq> p \<longrightarrow> pkt_ops (s2\<lparr>pkt_ops := (pkt_ops s2)(p := f)\<rparr>) r = pkt_ops s r" for f
      using ps k(1) ops s1(2) by (simp_all add: pools_same_def)
    note ins = pkt_mem_insert [OF mem w(1) p0 w(2) k(2) w(3)]
    show "p \<notin> T \<union> R" by (rule ins(1))
    show "\<exists>L'. L \<subseteq> L' \<and> pkt_mem lib flist L' (insert p T) R
        (s2\<lparr>pkt_ops := (pkt_ops s2)(p := mm_halow_tx_data_ops)\<rparr>)
      \<and> pkt_mem lib flist L' T (insert p R) (s2\<lparr>pkt_ops := (pkt_ops s2)(p := mm_halow_rx_data_ops)\<rparr>)"
      by (intro exI [of _ "insert (unat p, k) L"] conjI ins(2,3)) auto
  qed
qed

lemma data_free_mem:
  assumes mem: "pkt_mem lib flist L T R s" and p: "p \<in> T \<union> R"
    and s1: "pools_same s s1" "pkt_ops s1 = pkt_ops s" "heap_live s1 L"
  obtains s2 k where "mm_halow_osal_free p s1 = Some s2" and "(unat p, k) \<in> L" and "pkt_same s1 s2"
    and "heap_live s2 (L - {(unat p, k)})" and "pkt_mem lib flist (L - {(unat p, k)}) (T - {p}) (R - {p}) s2"
proof -
  obtain k where k: "(unat p, k) \<in> L" using mem p by (auto simp: pkt_mem_def data_ok_def)
  from heap.free_live [OF s1(3) this] obtain s2 where s2: "mm_halow_osal_free p s1 = Some s2"
    "heap_live s2 (L - {(unat p, k)})" by blast
  have same: "pkt_same s1 s2" "pkt_ops s2 = pkt_ops s" using free_pkt_same [OF s2(1)] s1(2) by simp_all
  have "pools_same s s2" using s1(1) same(1) by (simp add: pkt_same_def pools_same_def)
  from pkt_mem_remove [OF mem this p s2(2) same(2)] show ?thesis by (rule that [OF s2(1) k same(1) s2(2)])
qed

lemma tx_data_alloc_ok:
  assumes ok: "pkt_ok lib flist f0 L T R s"
  shows "\<exists>p s' L'. tx_data_alloc lib a b c s = Some (p, s') \<and> L \<subseteq> L'
    \<and> (if p = 0 then pkt_ok lib flist f0 L' T R s' \<and> tx_data_paused s' = tx_data_paused s
       else p \<notin> T \<union> R \<and> pkt_ok lib flist f0 L' (insert p T) R s')
    \<and> (card T = 32 \<longrightarrow> p = 0 \<and> s' = s) \<and> pools_same s s'"
proof -
  have mem: "pkt_mem lib flist L T R s" and cnt: "tx_data_allocated s = of_nat (card T)" "card T \<le> 32"
    "rx_data_allocated s = of_nat (card R)" "card R \<le> 16" and fl: "flow_ok f0 (card T) s"
    using ok by (simp_all add: pkt_ok_def)
  have fin: "finite T" using mem by (simp add: pkt_mem_def data_ok_def)
  have old: "sint (tx_data_allocated s) = int (card T)" unfolding cnt(1) by (rule sint_of_nat_u32) (use cnt(2) in simp)
  let ?s1 = "s\<lparr>tx_data_allocated := tx_data_allocated s + 1\<rparr>"
  have s1: "pools_same s ?s1" "pkt_ops ?s1 = pkt_ops s" "heap_live ?s1 L" using mem by (simp_all add: pools_same_def pkt_mem_def)
  obtain p s2 where al: "mmpkt_alloc_on_heap lib a b c ?s1 = Some (p, s2)" and same: "pkt_same ?s1 s2"
    and ps: "pools_same s s2" and none: "p = 0 \<Longrightarrow> pkt_mem lib flist L T R s2" and new: "p \<noteq> 0 \<Longrightarrow> p \<notin> T \<union> R"
    and some: "p \<noteq> 0 \<Longrightarrow> \<exists>L'. L \<subseteq> L' \<and> pkt_mem lib flist L' (insert p T) R
        (s2\<lparr>pkt_ops := (pkt_ops s2)(p := mm_halow_tx_data_ops)\<rparr>)
      \<and> pkt_mem lib flist L' T (insert p R) (s2\<lparr>pkt_ops := (pkt_ops s2)(p := mm_halow_rx_data_ops)\<rparr>)"
    by (rule data_alloc_mem [OF mem s1], rule that; blast)
  have same2: "tx_data_paused s2 = tx_data_paused s" "flow_log (trace s2) = flow_log (trace s)"
    "tx_data_allocated s2 = tx_data_allocated s + 1" "rx_data_allocated s2 = rx_data_allocated s"
    using same by (simp_all add: pkt_same_def)
  consider "card T = 32" | "card T < 32" "p = 0" | "card T < 32" "p \<noteq> 0" using cnt(2) by linarith
  then show ?thesis
  proof cases
    case 1
    then have "tx_data_alloc lib a b c s = Some (0, s)" using old by (simp add: tx_data_alloc_def Let_def)
    then show ?thesis using ok by (auto simp: pools_same_def)
  next
    case 2
    let ?s' = "s2\<lparr>tx_data_allocated := tx_data_allocated s2 - 1\<rparr>"
    have run: "tx_data_alloc lib a b c s = Some (0, ?s')" using old al 2 by (simp add: tx_data_alloc_def Let_def)
    have "pkt_mem lib flist L T R ?s'"
      by (rule pkt_mem_cong [OF none [OF 2(2)] _ _ subset_refl]) (use none [OF 2(2)] in \<open>simp_all add: pools_same_def pkt_mem_def\<close>)
    then have "pkt_ok lib flist f0 L T R ?s'" "pools_same s ?s'"
      using cnt same2 fl ps by (simp_all add: pkt_ok_def flow_ok_def pools_same_def)
    with run same2 2 show ?thesis by auto
  next
    case 3
    let ?t = "s2\<lparr>pkt_ops := (pkt_ops s2)(p := mm_halow_tx_data_ops)\<rparr>"
    obtain L' where L': "L \<subseteq> L'" and m: "pkt_mem lib flist L' (insert p T) R ?t" using some [OF 3(2)] by blast
    have card: "card (insert p T) = Suc (card T)" using new [OF 3(2)] fin by simp
    have "tx_data_allocated ?t = of_nat (card (insert p T))" "rx_data_allocated ?t = of_nat (card R)"
      "tx_data_paused ?t = tx_data_paused s" "flow_log (trace ?t) = flow_log (trace s)"
      unfolding card using same2 cnt by simp_all
    from tx_high_water [OF m card 3(1) this(1,2) cnt(4) fl this(3,4)] obtain s' where
      run: "(if sint (tx_data_allocated ?t) > MM_HALOW_TX_PAUSE_THRESHOLD
         then let paused = tx_data_paused ?t; t4 = ?t\<lparr>tx_data_paused := 1\<rparr>
              in map_option (Pair p) (if paused = 0 then tx_flow_control lib t4 else Some t4)
         else Some (p, ?t)) = Some (p, s')"
      and s': "pkt_ok lib flist f0 L' (insert p T) R s'" "pools_same ?t s'" by metis
    have "tx_data_alloc lib a b c s = Some (p, s')"
      unfolding tx_data_alloc_def using old al 3 run by (auto simp: Let_def split: if_splits)
    moreover have "pools_same s s'" using s'(2) ps by (simp add: pools_same_def)
    ultimately show ?thesis using s'(1) new 3 L' by (intro exI [of _ p] exI [of _ s'] exI [of _ L']) auto
  qed
qed

lemma tx_low_water:
  assumes mem: "pkt_mem lib flist L D R t" and card: "card D = n" "n < 32"
    and cnt: "tx_data_allocated t = of_nat n" "rx_data_allocated t = of_nat (card R)" "card R \<le> 16"
    and fl: "flow_ok f0 (Suc n) s" and same: "tx_data_paused t = tx_data_paused s" "flow_log (trace t) = flow_log (trace s)"
  shows "\<exists>s'. (if n < 30 then if tx_data_paused t \<noteq> 0 then tx_flow_control lib (t\<lparr>tx_data_paused := 0\<rparr>)
         else Some (t\<lparr>tx_data_paused := 0\<rparr>) else Some t) = Some s' \<and> pkt_ok lib flist f0 L D R s'"
proof (cases "n < 30 \<and> tx_data_paused s = 1")
  case True
  have "heap_live (t\<lparr>tx_data_paused := 0\<rparr>) L" using mem by (simp add: pkt_mem_def)
  from flow_call [OF this] obtain s' where s': "tx_flow_control lib (t\<lparr>tx_data_paused := 0\<rparr>) = Some s'"
    "tx_data_allocated s' = tx_data_allocated t" "rx_data_allocated s' = rx_data_allocated t"
    "tx_data_paused s' = 0" "pools_same t s'" "flow_log (trace s') = flow_log (trace s) @ [0]"
    "pkt_ops s' = pkt_ops t" "heap_live s' L"
    using same by (auto simp: pools_same_def)
  have "pkt_mem lib flist L D R s'" using pkt_mem_cong [OF mem s'(5,8) subset_refl] s'(7) by simp
  moreover have "flow_ok f0 n s'" by (rule flow_toggle [OF fl, of False]) (use True s' in simp_all)
  ultimately have "pkt_ok lib flist f0 L D R s'" using s'(2,3) cnt card by (simp add: pkt_ok_def)
  then show ?thesis using True s'(1) same by simp
next
  case False
  let ?s' = "if n < 30 then t\<lparr>tx_data_paused := 0\<rparr> else t"
  have run: "(if n < 30 then if tx_data_paused t \<noteq> 0 then tx_flow_control lib (t\<lparr>tx_data_paused := 0\<rparr>)
         else Some (t\<lparr>tx_data_paused := 0\<rparr>) else Some t) = Some ?s'" and pz: "tx_data_paused ?s' = tx_data_paused s"
    using False flow_paused_01 [OF fl] same by auto
  have fr: "pools_same t ?s'" "heap_live ?s' L" "trace ?s' = trace t"
    using mem by (simp_all add: pools_same_def pkt_mem_def)
  have "pkt_mem lib flist L D R ?s'" by (rule pkt_mem_cong [OF mem fr(1,2) subset_refl]) simp
  moreover have "flow_ok f0 n ?s'"
  proof (rule flow_keep [OF fl _ pz])
    show "flow_log (trace ?s') = flow_log (trace s)" using fr(3) same by simp
    show "30 \<le> n" if "tx_data_paused s = 1" using that False by simp
    show "tx_data_paused s = 1" if "n = 32" using that card by simp
  qed
  ultimately have "pkt_ok lib flist f0 L D R ?s'" using cnt card by (simp add: pkt_ok_def)
  then show ?thesis using run by blast
qed

lemma tx_data_free_ok:
  assumes ok: "pkt_ok lib flist f0 L T R s" and p: "p \<in> T"
  shows "\<exists>s' k. free_mmpkt lib (pkt_ops s p) p s = Some s' \<and> (unat p, k) \<in> L
    \<and> pkt_ok lib flist f0 (L - {(unat p, k)}) (T - {p}) R s'"
proof -
  have mem: "pkt_mem lib flist L T R s" and cnt: "tx_data_allocated s = of_nat (card T)" "card T \<le> 32"
    "rx_data_allocated s = of_nat (card R)" "card R \<le> 16" and fl: "flow_ok f0 (card T) s"
    using ok by (simp_all add: pkt_ok_def)
  have R: "R - {p} = R" and op: "pkt_ops s p = mm_halow_tx_data_ops"
    using mem p by (auto simp: pkt_mem_def data_ok_def)
  let ?s1 = "s\<lparr>tx_data_allocated := tx_data_allocated s - 1\<rparr>"
  have "p \<in> T \<union> R" "pools_same s ?s1" "pkt_ops ?s1 = pkt_ops s" "heap_live ?s1 L"
    using mem p by (simp_all add: pools_same_def pkt_mem_def)
  then obtain s2 k where s2: "mm_halow_osal_free p ?s1 = Some s2" and k: "(unat p, k) \<in> L" and same: "pkt_same ?s1 s2"
    and mem2: "pkt_mem lib flist (L - {(unat p, k)}) (T - {p}) R s2"
    by (metis R data_free_mem [OF mem])
  obtain n where n: "card T = Suc n" "card (T - {p}) = n" "n < 32"
    using mem p cnt(2) by (metis card_Suc_Diff1 data_ok_def le_simps(3) pkt_mem_def)
  have same2: "tx_data_paused s2 = tx_data_paused s" "flow_log (trace s2) = flow_log (trace s)"
    "tx_data_allocated s2 = of_nat n" "rx_data_allocated s2 = of_nat (card R)"
    using same cnt n by (simp_all add: pkt_same_def)
  have "sint (tx_data_allocated s2) < 30 \<longleftrightarrow> n < 30" "sint (tx_data_allocated s) = int (Suc n)"
    unfolding same2(3) cnt(1) n(1) using n(3) by (simp_all add: sint_of_nat_u32 del: of_nat_Suc)
  then have "free_mmpkt lib (pkt_ops s p) p s =
      (if n < 30 then if tx_data_paused s2 \<noteq> 0 then tx_flow_control lib (s2\<lparr>tx_data_paused := 0\<rparr>)
         else Some (s2\<lparr>tx_data_paused := 0\<rparr>) else Some s2)"
    using op s2 by (simp add: mm_halow_tx_data_free_def Let_def mmosal_free_def)
  with tx_low_water [OF mem2 n(2,3) same2(3,4) cnt(4) fl [unfolded n(1)] same2(1,2)] k show ?thesis by auto
qed

lemma rx_data_free_ok:
  assumes ok: "pkt_ok lib flist f0 L T R s" and p: "p \<in> R"
  shows "\<exists>s' k. free_mmpkt lib (pkt_ops s p) p s = Some s' \<and> (unat p, k) \<in> L
    \<and> pkt_ok lib flist f0 (L - {(unat p, k)}) T (R - {p}) s'"
proof -
  have mem: "pkt_mem lib flist L T R s" and cnt: "tx_data_allocated s = of_nat (card T)" "card T \<le> 32"
    "rx_data_allocated s = of_nat (card R)" "card R \<le> 16" and fl: "flow_ok f0 (card T) s"
    using ok by (simp_all add: pkt_ok_def)
  have T: "T - {p} = T" and op: "pkt_ops s p = mm_halow_rx_data_ops"
    using mem p by (auto simp: pkt_mem_def data_ok_def)
  let ?s1 = "s\<lparr>rx_data_allocated := rx_data_allocated s - 1\<rparr>"
  have "p \<in> T \<union> R" "pools_same s ?s1" "pkt_ops ?s1 = pkt_ops s" "heap_live ?s1 L"
    using mem p by (simp_all add: pools_same_def pkt_mem_def)
  then obtain s2 k where s2: "mm_halow_osal_free p ?s1 = Some s2" and k: "(unat p, k) \<in> L" and same: "pkt_same ?s1 s2"
    and mem2: "pkt_mem lib flist (L - {(unat p, k)}) T (R - {p}) s2"
    by (metis T data_free_mem [OF mem])
  have p0: "p \<noteq> 0" using heap_live_block(1) [OF _ k] mem by (auto simp: pkt_mem_def)
  obtain n where n: "card R = Suc n" "card (R - {p}) = n"
    using mem p by (metis card_Suc_Diff1 data_ok_def pkt_mem_def)
  have "flow_ok f0 (card T) s2" using fl same by (simp add: flow_ok_def pkt_same_def)
  with mem2 have "pkt_ok lib flist f0 (L - {(unat p, k)}) T (R - {p}) s2"
    using same cnt n by (simp add: pkt_ok_def pkt_same_def)
  moreover have "free_mmpkt lib (pkt_ops s p) p s = Some s2"
    using op p0 s2 by (simp add: mm_halow_rx_data_free_def mmosal_free_def)
  ultimately show ?thesis using k by blast
qed

lemma rx_data_alloc_ok:
  assumes ok: "pkt_ok lib flist f0 L T R s" and sz: "mm_halow_pkt_size_ok 0 a b (MMHAL_WLAN_MMPKT_RX_MAX_SIZE lib)"
    and cls: "cls \<noteq> MMHAL_WLAN_PKT_COMMAND lib"
  shows "\<exists>p s' L'. mmhal_wlan_alloc_mmpkt_for_rx lib cls a b s = Some (p, s') \<and> L \<subseteq> L'
    \<and> (if p = 0 then pkt_ok lib flist f0 L' T R s' else p \<notin> T \<union> R \<and> pkt_ok lib flist f0 L' T (insert p R) s')
    \<and> (card R = 16 \<longrightarrow> p = 0 \<and> s' = s)"
proof -
  have mem: "pkt_mem lib flist L T R s" and cnt: "tx_data_allocated s = of_nat (card T)" "card T \<le> 32"
    "rx_data_allocated s = of_nat (card R)" "card R \<le> 16" and fl: "flow_ok f0 (card T) s"
    using ok by (simp_all add: pkt_ok_def)
  have fin: "finite R" using mem by (simp add: pkt_mem_def data_ok_def)
  have old: "sint (rx_data_allocated s) = int (card R)" unfolding cnt(3) by (rule sint_of_nat_u32) (use cnt(4) in simp)
  let ?s1 = "s\<lparr>rx_data_allocated := rx_data_allocated s + 1\<rparr>"
  have s1: "pools_same s ?s1" "pkt_ops ?s1 = pkt_ops s" "heap_live ?s1 L" using mem by (simp_all add: pools_same_def pkt_mem_def)
  obtain p s2 where al: "mmpkt_alloc_on_heap lib 0 a b ?s1 = Some (p, s2)" and same: "pkt_same ?s1 s2"
    and ps: "pools_same s s2" and none: "p = 0 \<Longrightarrow> pkt_mem lib flist L T R s2" and new: "p \<noteq> 0 \<Longrightarrow> p \<notin> T \<union> R"
    and some: "p \<noteq> 0 \<Longrightarrow> \<exists>L'. L \<subseteq> L' \<and> pkt_mem lib flist L' (insert p T) R
        (s2\<lparr>pkt_ops := (pkt_ops s2)(p := mm_halow_tx_data_ops)\<rparr>)
      \<and> pkt_mem lib flist L' T (insert p R) (s2\<lparr>pkt_ops := (pkt_ops s2)(p := mm_halow_rx_data_ops)\<rparr>)"
    by (rule data_alloc_mem [OF mem s1], rule that; blast)
  have same2: "tx_data_paused s2 = tx_data_paused s" "flow_log (trace s2) = flow_log (trace s)"
    "tx_data_allocated s2 = tx_data_allocated s" "rx_data_allocated s2 = rx_data_allocated s + 1"
    using same by (simp_all add: pkt_same_def)
  note run = mmhal_wlan_alloc_mmpkt_for_rx_def [of lib cls a b s] and flow = fl [unfolded flow_ok_def]
  consider "card R = 16" | "card R < 16" "p = 0" | "card R < 16" "p \<noteq> 0" using cnt(4) by linarith
  then show ?thesis
  proof cases
    case 1
    then have "mmhal_wlan_alloc_mmpkt_for_rx lib cls a b s = Some (0, s)"
      using old sz cls by (simp add: run Let_def)
    then show ?thesis using ok by auto
  next
    case 2
    let ?s' = "s2\<lparr>rx_data_allocated := rx_data_allocated s2 - 1\<rparr>"
    have eq: "mmhal_wlan_alloc_mmpkt_for_rx lib cls a b s = Some (0, ?s')" using old al sz cls 2 by (simp add: run Let_def)
    have "pkt_mem lib flist L T R ?s'"
      by (rule pkt_mem_cong [OF none [OF 2(2)] _ _ subset_refl]) (use none [OF 2(2)] in \<open>simp_all add: pools_same_def pkt_mem_def\<close>)
    then have "pkt_ok lib flist f0 L T R ?s'" using cnt same2 flow by (simp add: pkt_ok_def flow_ok_def)
    with eq 2 show ?thesis by auto
  next
    case 3
    let ?s' = "s2\<lparr>pkt_ops := (pkt_ops s2)(p := mm_halow_rx_data_ops)\<rparr>"
    have eq: "mmhal_wlan_alloc_mmpkt_for_rx lib cls a b s = Some (p, ?s')" using old al sz cls 3 by (simp add: run Let_def)
    obtain L' where L': "L \<subseteq> L'" and m: "pkt_mem lib flist L' T (insert p R) ?s'" using some [OF 3(2)] by blast
    have "card (insert p R) = Suc (card R)" using new [OF 3(2)] fin by simp
    with m have "pkt_ok lib flist f0 L' T (insert p R) ?s'"
      using same2 cnt 3 flow by (simp add: pkt_ok_def flow_ok_def)
    with eq 3 L' new show ?thesis by (intro exI [of _ p] exI [of _ ?s'] exI [of _ L']) auto
  qed
qed

lemma tx_alloc_ok:
  assumes ok: "pkt_ok lib flist f0 L T R s"
  shows "\<exists>p s' L'. mmhal_wlan_alloc_mmpkt_for_tx lib cls a b c s = Some (p, s') \<and> L \<subseteq> L'
    \<and> (if p \<in> set (flist (tx_command_free_list s)) \<or> p = 0 then pkt_ok lib flist f0 L' T R s'
       else p \<notin> T \<union> R \<and> pkt_ok lib flist f0 L' (insert p T) R s')
    \<and> (\<not> mm_halow_pkt_size_ok a b c (MMHAL_WLAN_MMPKT_TX_MAX_SIZE lib) \<longrightarrow> p = 0 \<and> s' = s)
    \<and> (cls \<noteq> MMHAL_WLAN_PKT_COMMAND lib \<and> card T = 32 \<longrightarrow> p = 0 \<and> s' = s)"
proof (cases "mm_halow_pkt_size_ok a b c (MMHAL_WLAN_MMPKT_TX_MAX_SIZE lib)")
  case False
  with ok show ?thesis by (auto simp: mmhal_wlan_alloc_mmpkt_for_tx_def)
next
  case sz: True
  have out: "p \<notin> set (flist (tx_command_free_list s))" if "p \<notin> T \<union> R" "pkt_ok lib flist f0 L' (insert p T) R s'"
    "tx_command_pool s' = tx_command_pool s" for p L' s'
    using pool_block_nonnull [OF that(2), of p Tx_pool] pool_ok_of [OF ok, of Tx_pool] that(3)
    by (auto simp: pool_ok_def)
  show ?thesis
  proof (cases "cls = MMHAL_WLAN_PKT_COMMAND lib")
    case False
    have run: "mmhal_wlan_alloc_mmpkt_for_tx lib cls a b c s = tx_data_alloc lib a b c s"
      using sz False by (simp add: mmhal_wlan_alloc_mmpkt_for_tx_def)
    obtain p s' L' where r: "tx_data_alloc lib a b c s = Some (p, s')" "L \<subseteq> L'"
      "if p = 0 then pkt_ok lib flist f0 L' T R s' \<and> tx_data_paused s' = tx_data_paused s
       else p \<notin> T \<union> R \<and> pkt_ok lib flist f0 L' (insert p T) R s'" "card T = 32 \<longrightarrow> p = 0 \<and> s' = s" "pools_same s s'"
      using tx_data_alloc_ok [OF ok, of a b c] by blast
    have "p \<notin> set (flist (tx_command_free_list s))" if "p \<noteq> 0"
      using r(3,5) that out by (auto simp: pools_same_def)
    with run r sz show ?thesis by (intro exI [of _ p] exI [of _ s'] exI [of _ L'], cases "p = 0") auto
  next
    case True
    obtain q s1 where q: "mm_halow_pool_alloc lib Tx_pool MM_HALOW_TX_COMMAND_BLOCK_SIZE
        mm_halow_tx_command_ops a b c s = Some (q, s1)"
      "pkt_ok lib flist f0 L T R s1" "pkt_agree s s1"
      "if q = 0 then set (flist (tx_command_free_list s1)) = set (flist (tx_command_free_list s))
       else flist (tx_command_free_list s) = q # flist (tx_command_free_list s1)"
      using pool_alloc_ok [OF ok, of Tx_pool MM_HALOW_TX_COMMAND_BLOCK_SIZE a b c]
      by (auto split: if_splits)
    show ?thesis
    proof (cases "q = 0")
      case False
      have "mmhal_wlan_alloc_mmpkt_for_tx lib cls a b c s = Some (q, s1)"
        using sz True q(1) False by (simp add: mmhal_wlan_alloc_mmpkt_for_tx_def)
      moreover have "q \<in> set (flist (tx_command_free_list s))" using q(4) False by simp
      ultimately show ?thesis using q(2) sz True by auto
    next
      case q0: True
      have run: "mmhal_wlan_alloc_mmpkt_for_tx lib cls a b c s = tx_data_alloc lib a b c s1"
        using sz True q(1) q0 by (simp add: mmhal_wlan_alloc_mmpkt_for_tx_def)
      obtain p s' L' where r: "tx_data_alloc lib a b c s1 = Some (p, s')" "L \<subseteq> L'"
        "if p = 0 then pkt_ok lib flist f0 L' T R s' \<and> tx_data_paused s' = tx_data_paused s1
         else p \<notin> T \<union> R \<and> pkt_ok lib flist f0 L' (insert p T) R s'" "pools_same s1 s'"
        using tx_data_alloc_ok [OF q(2), of a b c] by blast
      have "tx_command_pool s' = tx_command_pool s"
        using r(4) q(3) by (simp add: pkt_agree_def pools_same_def)
      then have "p \<notin> set (flist (tx_command_free_list s))" if "p \<noteq> 0"
        using r(3) that out by auto
      with run r sz True show ?thesis by (intro exI [of _ p] exI [of _ s'] exI [of _ L'], cases "p = 0") auto
    qed
  qed
qed

lemma rx_alloc_ok:
  assumes ok: "pkt_ok lib flist f0 L T R s"
  shows "\<exists>p s' L'. mmhal_wlan_alloc_mmpkt_for_rx lib cls a b s = Some (p, s') \<and> L \<subseteq> L'
    \<and> (if p = 0 \<or> cls = MMHAL_WLAN_PKT_COMMAND lib then pkt_ok lib flist f0 L' T R s'
       else p \<notin> T \<union> R \<and> pkt_ok lib flist f0 L' T (insert p R) s')
    \<and> (\<not> mm_halow_pkt_size_ok 0 a b (MMHAL_WLAN_MMPKT_RX_MAX_SIZE lib) \<longrightarrow> p = 0 \<and> s' = s)
    \<and> (cls \<noteq> MMHAL_WLAN_PKT_COMMAND lib \<and> card R = 16 \<longrightarrow> p = 0 \<and> s' = s)"
proof -
  consider "\<not> mm_halow_pkt_size_ok 0 a b (MMHAL_WLAN_MMPKT_RX_MAX_SIZE lib)"
    | "mm_halow_pkt_size_ok 0 a b (MMHAL_WLAN_MMPKT_RX_MAX_SIZE lib)" "cls \<noteq> MMHAL_WLAN_PKT_COMMAND lib"
    | "mm_halow_pkt_size_ok 0 a b (MMHAL_WLAN_MMPKT_RX_MAX_SIZE lib)" "cls = MMHAL_WLAN_PKT_COMMAND lib" by blast
  then show ?thesis
  proof cases
    case 1
    with ok show ?thesis by (auto simp: mmhal_wlan_alloc_mmpkt_for_rx_def)
  next
    case 2
    with rx_data_alloc_ok [OF ok 2] show ?thesis by auto
  next
    case 3
    obtain q s1 where q: "mm_halow_pool_alloc lib Rx_pool (MMHAL_WLAN_MMPKT_RX_MAX_SIZE lib)
        mm_halow_rx_command_ops 0 a b s = Some (q, s1)" "pkt_ok lib flist f0 L T R s1"
      using pool_alloc_ok [OF ok, of Rx_pool "MMHAL_WLAN_MMPKT_RX_MAX_SIZE lib" 0 a b]
      by (auto split: if_splits)
    show ?thesis
    proof (cases "q = 0")
      case False
      have "mmhal_wlan_alloc_mmpkt_for_rx lib cls a b s = Some (q, s1)"
        using 3 q(1) False by (simp add: mmhal_wlan_alloc_mmpkt_for_rx_def)
      with q(2) 3 show ?thesis by auto
    next
      case True
      have live: "heap_live s1 L" using q(2) by (simp add: pkt_ok_def pkt_mem_def)
      from alloc_on_heap [OF live, of 0 a b] obtain p s2 where
        al: "mmpkt_alloc_on_heap lib 0 a b s1 = Some (p, s2)" and same: "pkt_same s1 s2"
        and ops: "\<forall>r. r \<noteq> p \<longrightarrow> pkt_ops s2 r = pkt_ops s1 r"
        and cases: "if p = 0 then heap_live s2 L
           else \<exists>k. heap_live s2 (insert (unat p, k) L) \<and> (\<forall>y \<in> L. apart (unat p, k) y)" by blast
      have run: "mmhal_wlan_alloc_mmpkt_for_rx lib cls a b s = Some (p, s2)"
        using 3 q(1) True al by (simp add: mmhal_wlan_alloc_mmpkt_for_rx_def)
      obtain L' where L': "heap_live s2 L'" "L \<subseteq> L'" using cases by (cases "p = 0") auto
      have "p \<notin> T \<union> R"
      proof
        assume p: "p \<in> T \<union> R"
        then obtain j where j: "(unat p, j) \<in> L" using q(2) by (auto simp: pkt_ok_def pkt_mem_def data_ok_def)
        then have "p \<noteq> 0" using heap_live_block(1) [OF live j] by auto
        then obtain k where "heap_live s2 (insert (unat p, k) L)" "\<forall>y \<in> L. apart (unat p, k) y" using cases by auto
        from fresh_block [OF this live] j show False by blast
      qed
      then have "\<forall>r \<in> T \<union> R. pkt_ops s2 r = pkt_ops s1 r" using ops by metis
      from pkt_ok_same [OF q(2) same L' this] run L'(2) 3 show ?thesis by auto
    qed
  qed
qed

text \<open>Init: both pools are carved up, or left out when the heap has no room for them.\<close>

lemma pool_init_ok:
  assumes live: "heap_live s L" and fl: "flist (pool_list pool s) = []" and sz: "0 < unat sz" "2 * unat sz < 4294967296"
  shows "\<exists>p s' L'. mm_halow_pool_init lib pool sz 2 s = Some (p, s') \<and> heap_live s' L' \<and> L \<subseteq> L'
    \<and> pool_ok flist L' sz p (pool_list pool s')
    \<and> (\<forall>q. q \<noteq> pool \<longrightarrow> pool_list q s' = pool_list q s) \<and> pkt_agree s s' \<and> tx_flow_control_cb s' = tx_flow_control_cb s
    \<and> (p \<noteq> 0 \<longrightarrow> flist (pool_list pool s') = [p, p + sz] \<and> (\<exists>k. L' = insert (unat p, k) L \<and> (unat p, k) \<notin> L
          \<and> (\<forall>j. (unat p, j) \<notin> L)))
    \<and> (p = 0 \<longrightarrow> L' = L)"
proof -
  obtain p s1 where m: "mm_halow_osal_malloc (sz * of_nat 2) s = Some (p, s1)"
    using heap.malloc_returns [OF live] by blast
  have same: "pkt_same s s1" using malloc_pkt_same [OF m] by simp
  show ?thesis
  proof (cases "p = 0")
    case True
    then have "s1 = s" using m heap.malloc_null [OF live] by blast
    with m True live fl show ?thesis
      by (intro exI [of _ p] exI [of _ s] exI [of _ L])
         (simp add: mm_halow_pool_init_def pool_ok_def pkt_agree_def)
  next
    case False
    obtain k where k: "unat (sz * of_nat 2) \<le> k" "heap_live s1 (insert (unat p, k) L)"
      using heap.malloc_block [OF live m False] by blast
    have k2: "2 * unat sz \<le> k" using k(1) sz unat_mult_u32 [of sz 2] by (simp add: mult.commute)
    let ?l = "mmpkt_list_append lib (mmpkt_list_append lib (pool_list pool s1) p) (p + sz)"
    let ?s' = "set_pool_list pool ?l s1"
    have run: "mm_halow_pool_init lib pool sz 2 s = Some (p, ?s')"
      using m False by (simp add: mm_halow_pool_init_def numeral_2_eq_2)
    have pl: "pool_list pool s1 = pool_list pool s" using same pkt_same_agree by blast
    have "unat p + 2 * unat sz \<le> 4294967296"
      using heap_live_block(3) [OF k(2), of "unat p" k] k2 by simp
    then have "p + sz \<noteq> 0" using sz(1) unat_add_u32 [of p sz] by (auto simp: word_unat_eq_iff)
    moreover have "p + sz \<noteq> p" using sz(1) by auto
    ultimately have fl': "flist ?l = [p, p + sz]"
      using fl pl False flist_append [of p "pool_list pool s1"]
        flist_append [of "p + sz" "mmpkt_list_append lib (pool_list pool s1) p"] by simp
    have "heap_live ?s' (insert (unat p, k) L)"
      using k(2) by (cases pool) (simp_all add: heap_live_cong [of "s1\<lparr>tx_command_free_list := x\<rparr>" s1 for x]
        heap_live_cong [of "s1\<lparr>rx_command_free_list := x\<rparr>" s1 for x])
    moreover have "pool_list q ?s' = (if q = pool then ?l else pool_list q s)" for q
      using same by (cases q; cases pool) (simp_all add: pkt_same_def)
    moreover have "pkt_agree s ?s'" "tx_flow_control_cb ?s' = tx_flow_control_cb s"
      using same by (cases pool; simp add: pkt_same_def pkt_agree_def)+
    moreover have "\<forall>j. (unat p, j) \<notin> L" using heap.malloc_fresh [OF live m False] by blast
    moreover have "pool_ok flist (insert (unat p, k) L) sz p ?l"
      using fl' False k2 \<open>p + sz \<noteq> p\<close> by (auto simp: pool_ok_def pool_blocks_def)
    ultimately show ?thesis using run fl' False
      by (intro exI [of _ p] exI [of _ ?s'] exI [of _ "insert (unat p, k) L"]) auto
  qed
qed

lemma init_ok:
  assumes live: "heap_live s L"
  shows "\<exists>s' L'. mmhal_wlan_pktmem_init lib cb s = Some s' \<and> pkt_ok lib flist (flow_log (trace s)) L' {} {} s'
    \<and> L \<subseteq> L' \<and> tx_flow_control_cb s' = cb
    \<and> {x \<in> L'. fst x \<noteq> unat (tx_command_pool s') \<and> fst x \<noteq> unat (rx_command_pool s')} = L
    \<and> (\<forall>pool. pool_base pool s' \<noteq> 0 \<longrightarrow> length (flist (pool_list pool s')) = 2)"
proof -
  let ?s0 = "(pktmem_clear lib s)\<lparr>tx_flow_control_cb := cb\<rparr>" and ?N = "MMHAL_WLAN_MMPKT_RX_MAX_SIZE lib"
  have l0: "heap_live ?s0 L" using live by (simp add: pktmem_clear_def heap_live_cong [of "s\<lparr>tx_data_allocated := a, tx_data_paused := b, rx_data_allocated := c,
     tx_command_free_list := d, rx_command_free_list := e, tx_command_pool := f, rx_command_pool := g, tx_flow_control_cb := h\<rparr>" s for a b c d e f g h])
  have f0: "flist (pool_list pool ?s0) = []" for pool by (cases pool) (simp_all add: pktmem_clear_def flist_zero)
  have tx352: "0 < unat (352 :: u32)" "2 * unat (352 :: u32) < 4294967296" by simp_all
  from pool_init_ok [OF l0 f0 tx352, of Tx_pool] obtain p s1 L1 where pre1: "mm_halow_pool_init lib Tx_pool 352 2 ?s0 = Some (p, s1)" "heap_live s1 L1" "L \<subseteq> L1"
    "pool_ok flist L1 352 p (pool_list Tx_pool s1)" "\<forall>q. q \<noteq> Tx_pool \<longrightarrow> pool_list q s1 = pool_list q ?s0"
    "pkt_agree ?s0 s1" "tx_flow_control_cb s1 = tx_flow_control_cb ?s0"
    "p \<noteq> 0 \<longrightarrow> flist (pool_list Tx_pool s1) = [p, p + 352] \<and> (\<exists>k. L1 = insert (unat p, k) L \<and> (unat p, k) \<notin> L
          \<and> (\<forall>j. (unat p, j) \<notin> L))" "p = 0 \<longrightarrow> L1 = L"
    by (elim exE conjE) (rule that; assumption)
  have 1: "mm_halow_pool_init lib Tx_pool 352 2 ?s0 = Some (p, s1)" "heap_live s1 L1" "L \<subseteq> L1"
    "pool_ok flist L1 352 p (tx_command_free_list s1)" "rx_command_free_list s1 = rx_command_free_list ?s0"
    "pkt_agree ?s0 s1" "tx_flow_control_cb s1 = cb"
    "p \<noteq> 0 \<longrightarrow> flist (tx_command_free_list s1) = [p, p + 352] \<and> (\<exists>k. L1 = insert (unat p, k) L \<and> (unat p, k) \<notin> L
          \<and> (\<forall>j. (unat p, j) \<notin> L))" "p = 0 \<longrightarrow> L1 = L"
    using pre1 pre1(5) [rule_format, of Rx_pool] by simp_all
  let ?s1 = "s1\<lparr>tx_command_pool := p\<rparr>"
  have l1: "heap_live ?s1 L1" using 1(2) by (simp add: heap_live_cong [of ?s1 s1])
  have "flist (pool_list Rx_pool ?s1) = []" using 1(5) f0 [of Rx_pool] by simp
  from pool_init_ok [OF l1 this rx_size] obtain q s2 L2 where
    pre2: "mm_halow_pool_init lib Rx_pool ?N 2 ?s1 = Some (q, s2)" "heap_live s2 L2" "L1 \<subseteq> L2"
    "pool_ok flist L2 ?N q (pool_list Rx_pool s2)" "\<forall>q. q \<noteq> Rx_pool \<longrightarrow> pool_list q s2 = pool_list q ?s1"
    "pkt_agree ?s1 s2" "tx_flow_control_cb s2 = tx_flow_control_cb ?s1"
    "q \<noteq> 0 \<longrightarrow> flist (pool_list Rx_pool s2) = [q, q + ?N] \<and> (\<exists>k. L2 = insert (unat q, k) L1 \<and> (unat q, k) \<notin> L1
          \<and> (\<forall>j. (unat q, j) \<notin> L1))" "q = 0 \<longrightarrow> L2 = L1"
    by (elim exE conjE) (rule that; assumption)
  have 2: "mm_halow_pool_init lib Rx_pool ?N 2 ?s1 = Some (q, s2)" "heap_live s2 L2" "L1 \<subseteq> L2"
    "pool_ok flist L2 ?N q (rx_command_free_list s2)" "tx_command_free_list s2 = tx_command_free_list s1"
    "pkt_agree ?s1 s2" "tx_flow_control_cb s2 = cb"
    "q \<noteq> 0 \<longrightarrow> flist (rx_command_free_list s2) = [q, q + ?N] \<and> (\<exists>k. L2 = insert (unat q, k) L1 \<and> (unat q, k) \<notin> L1
          \<and> (\<forall>j. (unat q, j) \<notin> L1))" "q = 0 \<longrightarrow> L2 = L1"
    using pre2 pre2(5) [rule_format, of Tx_pool] 1(7) by simp_all
  let ?s' = "s2\<lparr>rx_command_pool := q\<rparr>"
  have run: "mmhal_wlan_pktmem_init lib cb s = Some ?s'"
    using 1(1) 2(1) by (simp add: mmhal_wlan_pktmem_init_def)
  have ag: "tx_data_allocated s2 = 0" "rx_data_allocated s2 = 0" "tx_data_paused s2 = 0" "tx_command_pool s2 = p"
    "flow_log (trace s2) = flow_log (trace s)"
    using 1(6) 2(6) by (simp_all add: pkt_agree_def pktmem_clear_def)
  have live': "heap_live ?s' L2" using 2(2) by (simp add: heap_live_cong [of ?s' s2])
  have pq: "p = q \<longrightarrow> p = 0" using 1(8) 2(8) by auto
  have P1: "pool_ok flist L2 352 p (tx_command_free_list s2)" using pool_ok_mono [OF 1(4) 2(3)] 2(5) by simp
  have "pkt_mem lib flist L2 {} {} ?s'"
    unfolding pkt_mem_def using live' P1 2(4) ag(4) pq by (simp add: data_ok_def)
  moreover have "flow_ok (flow_log (trace s)) 0 ?s'" using ag by (simp add: flow_ok_def exI [of _ 0])
  ultimately have ok: "pkt_ok lib flist (flow_log (trace s)) L2 {} {} ?s'" using ag by (simp add: pkt_ok_def)
  have nz: "fst x \<noteq> 0" if "x \<in> L" for x using heap_live_block(1) [OF live, of "fst x" "snd x"] that by auto
  have "{x \<in> L2. fst x \<noteq> unat p \<and> fst x \<noteq> unat q} = L"
    using 1(8,9) 2(8,9) nz by (cases "p = 0"; cases "q = 0") auto
  moreover have "length (flist (pool_list pool ?s')) = 2" if "pool_base pool ?s' \<noteq> 0" for pool
    using that 1(8) 2(5,8) ag(4) by (cases pool) auto
  ultimately show ?thesis using run ok 1(3) 2(3,7) ag(4)
    by (intro exI [of _ ?s'] exI [of _ L2]) auto
qed

end

section \<open>Reachable states\<close>

text \<open>
  From init on: allocations, packets given back through their operations vectors, command
  packets given back, and steps of the rest of the driver, which may use the heap for
  itself. T and R are the data packets that are out.
\<close>

definition elsewhere :: "ptr set \<Rightarrow> ('l, 'a) pktmem_st_scheme \<Rightarrow> ('l, 'a) pktmem_st_scheme \<Rightarrow> bool" where
  "elsewhere D s s' \<longleftrightarrow> pkt_same s s' \<and> (\<forall>p \<in> D. pkt_ops s' p = pkt_ops s p)
     \<and> (\<forall>L. heap_live s L \<longrightarrow> (\<exists>L'. heap_live s' L' \<and> (\<forall>x \<in> L. (\<exists>p \<in> D \<union> {tx_command_pool s, rx_command_pool s}.
          fst x = unat p) \<longrightarrow> x \<in> L')))"

inductive pkt_reach ::
    "('l, 'a) pkt_lib \<Rightarrow> ('l \<Rightarrow> ptr list) \<Rightarrow> u8 list \<Rightarrow> ('l, 'a) pktmem_st_scheme \<Rightarrow> ptr set \<Rightarrow> ptr set \<Rightarrow> bool"
  for lib :: "('l, 'a) pkt_lib" and flist f0 where
  init: "heap_live s L \<Longrightarrow> mmhal_wlan_pktmem_init lib cb s = Some s' \<Longrightarrow> f0 = flow_log (trace s) \<Longrightarrow>
     pkt_reach lib flist f0 s' {} {}"
| alloc_tx: "pkt_reach lib flist f0 s T R \<Longrightarrow> mmhal_wlan_alloc_mmpkt_for_tx lib cls a b c s = Some (p, s') \<Longrightarrow>
     pkt_reach lib flist f0 s' (if p = 0 \<or> p \<in> set (flist (tx_command_free_list s)) then T else insert p T) R"
| alloc_rx: "pkt_reach lib flist f0 s T R \<Longrightarrow> mmhal_wlan_alloc_mmpkt_for_rx lib cls a b s = Some (p, s') \<Longrightarrow>
     pkt_reach lib flist f0 s' T (if p = 0 \<or> cls = MMHAL_WLAN_PKT_COMMAND lib then R else insert p R)"
| free_data: "pkt_reach lib flist f0 s T R \<Longrightarrow> p \<in> T \<union> R \<Longrightarrow> free_mmpkt lib (pkt_ops s p) p s = Some s' \<Longrightarrow>
     pkt_reach lib flist f0 s' (T - {p}) (R - {p})"
| free_command: "pkt_reach lib flist f0 s T R \<Longrightarrow> p \<in> pool_blocks (pool_size lib pool) (pool_base pool s) \<Longrightarrow>
     p \<notin> set (flist (pool_list pool s)) \<Longrightarrow> free_mmpkt lib (pool_ops pool) p s = Some s' \<Longrightarrow>
     pkt_reach lib flist f0 s' T R"
| other: "pkt_reach lib flist f0 s T R \<Longrightarrow> elsewhere (T \<union> R) s s' \<Longrightarrow> pkt_reach lib flist f0 s' T R"

lemma pkt_ok_elsewhere:
  assumes ok: "pkt_ok lib flist f0 L T R s" and e: "elsewhere (T \<union> R) s s'"
  shows "\<exists>L'. pkt_ok lib flist f0 L' T R s'"
proof -
  have mem: "pkt_mem lib flist L T R s" and live: "heap_live s L" using ok by (simp_all add: pkt_ok_def pkt_mem_def)
  have same: "pkt_same s s'" and ops: "\<forall>p \<in> T \<union> R. pkt_ops s' p = pkt_ops s p"
    using e unfolding elsewhere_def by blast+
  obtain L' where L': "heap_live s' L'"
    "\<forall>x \<in> L. (\<exists>p \<in> T \<union> R \<union> {tx_command_pool s, rx_command_pool s}. fst x = unat p) \<longrightarrow> x \<in> L'"
    using e live unfolding elsewhere_def by blast
  have kept: "(unat p, k) \<in> L'" if "(unat p, k) \<in> L" "p \<in> T \<union> R \<union> {tx_command_pool s, rx_command_pool s}" for p k
    using bspec [OF L'(2) that(1)] that(2) by auto
  have ps: "pools_same s s'" using same by (simp add: pkt_same_def pools_same_def)
  have D: "data_ok L' D s'" if "data_ok L D s" "D \<subseteq> T \<union> R" for D
  proof -
    have "finite D" using that(1) by (simp add: data_ok_def)
    moreover have "p \<noteq> tx_command_pool s' \<and> p \<noteq> rx_command_pool s' \<and> (\<exists>k. (unat p, k) \<in> L')" if p: "p \<in> D" for p
    proof -
      obtain k where "(unat p, k) \<in> L" "p \<noteq> tx_command_pool s" "p \<noteq> rx_command_pool s"
        using \<open>data_ok L D s\<close> p by (auto simp: data_ok_def)
      with kept [of p k] p \<open>D \<subseteq> T \<union> R\<close> ps show ?thesis by (auto simp: pools_same_def)
    qed
    ultimately show ?thesis by (simp add: data_ok_def)
  qed
  have P: "pool_ok flist L' sz pool l" if "pool_ok flist L sz pool l" "pool \<in> {tx_command_pool s, rx_command_pool s}" for sz pool l
    using that kept unfolding pool_ok_def by blast
  have "pkt_mem lib flist L' T R s'" unfolding pkt_mem_def
    using mem ps ops by (intro conjI L'(1) D P) (auto simp: pkt_mem_def pools_same_def)
  then have "pkt_ok lib flist f0 L' T R s'"
    using ok same by (simp add: pkt_ok_def pkt_same_def flow_ok_def)
  then show ?thesis ..
qed

context mmpkt_library
begin

lemma pkt_reach_ok: "pkt_reach lib flist f0 s T R \<Longrightarrow> \<exists>L. pkt_ok lib flist f0 L T R s"
proof (induction rule: pkt_reach.induct)
  case (init s L cb s')
  with init_ok [OF init.hyps(1), of cb] show ?case by auto
next
  case (alloc_tx s T R cls a b c p s')
  then obtain L where ok: "pkt_ok lib flist f0 L T R s" by blast
  from tx_alloc_ok [OF ok, of cls a b c] alloc_tx.hyps(2) show ?case by (auto split: if_splits)
next
  case (alloc_rx s T R cls a b p s')
  then obtain L where ok: "pkt_ok lib flist f0 L T R s" by blast
  from rx_alloc_ok [OF ok, of cls a b] alloc_rx.hyps(2) show ?case by (auto split: if_splits)
next
  case (free_data s T R p s')
  then obtain L where ok: "pkt_ok lib flist f0 L T R s" by blast
  have d: "T \<inter> R = {}" using ok by (simp add: pkt_ok_def pkt_mem_def)
  show ?case
  proof (cases "p \<in> T")
    case True
    with d have "R - {p} = R" by auto
    with tx_data_free_ok [OF ok True] free_data.hyps(3) show ?thesis by auto
  next
    case False
    then have "p \<in> R" "T - {p} = T" using free_data.hyps(2) by auto
    with rx_data_free_ok [OF ok \<open>p \<in> R\<close>] free_data.hyps(3) show ?thesis by auto
  qed
next
  case (free_command s T R p pool s')
  then obtain L where ok: "pkt_ok lib flist f0 L T R s" by blast
  from command_free_ok [OF ok free_command.hyps(2,3)] free_command.hyps(4) show ?case by auto
next
  case (other s T R s')
  then obtain L where ok: "pkt_ok lib flist f0 L T R s" by blast
  from pkt_ok_elsewhere [OF ok other.hyps(2)] show ?case .
qed

lemma free_proj:
  "mm_halow_osal_free p s = Some s' \<Longrightarrow> time_ms s' = time_ms s \<and> trace s' = trace s \<and> rx_command_pool s' = rx_command_pool s"
  for s s' :: "('l, 'a) pktmem_st_scheme"
  by (auto simp: free_eq split: if_splits)

text \<open>Everything back: deinit gives exactly the pools back, without waiting.\<close>

lemma deinit_drained:
  assumes ok: "pkt_ok lib flist f0 L T R s" and dr: "pktmem_drained lib s"
  shows "T = {} \<and> R = {} \<and> (\<exists>s'. mmhal_wlan_pktmem_deinit env lib s = Some s'
    \<and> heap_live s' {x \<in> L. fst x \<noteq> unat (tx_command_pool s) \<and> fst x \<noteq> unat (rx_command_pool s)}
    \<and> time_ms s' = time_ms s \<and> trace s' = trace s)"
proof -
  have live: "heap_live s L" and cnt: "tx_data_allocated s = of_nat (card T)" "card T \<le> 32"
    "rx_data_allocated s = of_nat (card R)" "card R \<le> 16" and fin: "finite T" "finite R"
    and pq: "tx_command_pool s = rx_command_pool s \<longrightarrow> tx_command_pool s = 0"
    using ok by (auto simp: pkt_ok_def pkt_mem_def data_ok_def)
  have "card T = 0" "card R = 0"
    using dr cnt of_nat_u32_eq_0_iff [of "card T"] of_nat_u32_eq_0_iff [of "card R"]
    by (simp_all add: pktmem_drained_def)
  then have e: "T = {}" "R = {}" using fin by simp_all
  have free: "\<exists>s1. mm_halow_osal_free p s0 = Some s1 \<and> heap_live s1 {x \<in> L0. fst x \<noteq> unat p}
      \<and> time_ms s1 = time_ms s0 \<and> trace s1 = trace s0 \<and> rx_command_pool s1 = rx_command_pool s0"
    if l: "heap_live s0 L0" and p: "p \<noteq> 0 \<longrightarrow> (\<exists>k. (unat p, k) \<in> L0)" for p L0 and s0 :: "('l, 'a) pktmem_st_scheme"
  proof (cases "p = 0")
    case True
    have "fst x \<noteq> 0" if "x \<in> L0" for x using heap_live_block(1) [OF l, of "fst x" "snd x"] that by auto
    then have "{x \<in> L0. fst x \<noteq> unat p} = L0" using True by auto
    with l True heap.free_null [of s0] show ?thesis by auto
  next
    case False
    then obtain k where k: "(unat p, k) \<in> L0" using p by blast
    from heap.free_live [OF l k] obtain s1 where s1: "mm_halow_osal_free p s0 = Some s1"
      "heap_live s1 (L0 - {(unat p, k)})" by blast
    have "x \<in> L0 - {(unat p, k)} \<longleftrightarrow> x \<in> L0 \<and> fst x \<noteq> unat p" for x
    proof (cases "x \<in> L0 \<and> fst x = unat p")
      case True
      then have "(unat p, snd x) \<in> L0" by (cases x) simp
      from heap.rep_unique_size [OF l this k] True show ?thesis by (cases x) simp
    qed auto
    then have "L0 - {(unat p, k)} = {x \<in> L0. fst x \<noteq> unat p}" by blast
    moreover have "time_ms s1 = time_ms s0 \<and> trace s1 = trace s0 \<and> rx_command_pool s1 = rx_command_pool s0"
      by (rule free_proj [OF s1(1)])
    ultimately show ?thesis using s1 by auto
  qed
  have pools: "tx_command_pool s \<noteq> 0 \<longrightarrow> (\<exists>k. (unat (tx_command_pool s), k) \<in> L)"
    "rx_command_pool s \<noteq> 0 \<longrightarrow> (\<exists>k. (unat (rx_command_pool s), k) \<in> L)"
    using pool_ok_of [OF ok, of Tx_pool] pool_ok_of [OF ok, of Rx_pool] by (auto simp: pool_ok_def)
  from free [OF live pools(1)] obtain s1 where s1: "mm_halow_osal_free (tx_command_pool s) s = Some s1"
    "heap_live s1 {x \<in> L. fst x \<noteq> unat (tx_command_pool s)}" "time_ms s1 = time_ms s" "trace s1 = trace s"
    "rx_command_pool s1 = rx_command_pool s" by blast
  have "rx_command_pool s1 \<noteq> 0 \<longrightarrow> (\<exists>k. (unat (rx_command_pool s1), k) \<in> {x \<in> L. fst x \<noteq> unat (tx_command_pool s)})"
    using pools(2) pq s1(5) by (auto simp: word_unat_eq_iff)
  from free [OF s1(2) this] obtain s2 where s2: "mm_halow_osal_free (rx_command_pool s1) s1 = Some s2"
    "heap_live s2 {x \<in> {x \<in> L. fst x \<noteq> unat (tx_command_pool s)}. fst x \<noteq> unat (rx_command_pool s1)}"
    "time_ms s2 = time_ms s1" "trace s2 = trace s1" by blast
  have "pktmem_drain env lib (Suc 99) s = Some (True, s)" using dr by (simp only: pktmem_drain.simps if_True)
  then have "pktmem_drain env lib 100 s = Some (True, s)" by simp
  then have "mmhal_wlan_pktmem_deinit env lib s = Some (pktmem_clear lib s2)"
    using s1(1) s2(1) by (simp add: mmhal_wlan_pktmem_deinit_def)
  moreover have "heap_live (pktmem_clear lib s2) {x \<in> L. fst x \<noteq> unat (tx_command_pool s) \<and> fst x \<noteq> unat (rx_command_pool s)}"
    using s2(2) s1(5) heap_live_cong [of "pktmem_clear lib s2" s2]
    by (simp add: pktmem_clear_def conj_assoc)
  moreover have "time_ms (pktmem_clear lib s2) = time_ms s \<and> trace (pktmem_clear lib s2) = trace s"
    using s1(3,4) s2(3,4) by (simp add: pktmem_clear_def)
  ultimately show ?thesis using e by (intro conjI exI [of _ "pktmem_clear lib s2"]) simp_all
qed

lemma init_drained:
  assumes ok: "pkt_ok lib flist f0 L {} {} s"
    and full: "\<forall>pool. pool_base pool s \<noteq> 0 \<longrightarrow> length (flist (pool_list pool s)) = 2"
  shows "pktmem_drained lib s"
proof -
  have "tx_data_allocated s = 0 \<and> rx_data_allocated s = 0" using ok by (simp add: pkt_ok_def)
  moreover have "pool_base pool s = 0 \<or> mmpkt_list_len lib (pool_list pool s) = of_nat 2" for pool
    using full list_len [of "pool_list pool s"] by (cases "pool_base pool s = 0") simp_all
  from this [of Tx_pool] this [of Rx_pool]
  have "tx_command_pool s = 0 \<or> mmpkt_list_len lib (tx_command_free_list s) = of_nat 2"
    "rx_command_pool s = 0 \<or> mmpkt_list_len lib (rx_command_free_list s) = of_nat 2"
    by (simp_all only: pool_base.simps pool_list.simps)
  ultimately show ?thesis by (simp add: pktmem_drained_def)
qed

text \<open>A command gets its reserved buffer whatever else is out.\<close>

lemma command_served:
  assumes ok: "pkt_ok lib flist f0 L T R s" and q: "flist (tx_command_free_list s) = q # qs"
    and sz: "mm_halow_pkt_size_ok a b c (MMHAL_WLAN_MMPKT_TX_MAX_SIZE lib)"
    and acc: "\<forall>s. fst (mmpkt_init_buf lib q MM_HALOW_TX_COMMAND_BLOCK_SIZE a b c mm_halow_tx_command_ops s) = q"
  shows "\<exists>s'. mmhal_wlan_alloc_mmpkt_for_tx lib (MMHAL_WLAN_PKT_COMMAND lib) a b c s = Some (q, s')"
proof -
  have "q \<in> pool_blocks (pool_size lib Tx_pool) (pool_base Tx_pool s)"
    using pool_ok_of [OF ok, of Tx_pool] q by (simp add: pool_ok_def)
  then have q0: "q \<noteq> 0" using pool_block_nonnull [OF ok] by blast
  obtain l where "mmpkt_list_dequeue lib (tx_command_free_list s) = (q, l)" using dequeue_some [OF q] by blast
  then have d: "mmpkt_list_dequeue lib (tx_command_free_list (mmosal_task_enter_critical s)) = (q, l)"
    by (simp add: pkt_frame)
  let ?s2 = "mmosal_task_exit_critical (mmosal_task_enter_critical s\<lparr>tx_command_free_list := l\<rparr>)"
  obtain s3 where i: "mmpkt_init_buf lib q MM_HALOW_TX_COMMAND_BLOCK_SIZE a b c mm_halow_tx_command_ops ?s2 = (q, s3)"
    using acc by (metis prod.collapse)
  have "mmhal_wlan_alloc_mmpkt_for_tx lib (MMHAL_WLAN_PKT_COMMAND lib) a b c s = Some (q, s3)"
    using sz d i q0 by (simp add: mmhal_wlan_alloc_mmpkt_for_tx_def mm_halow_pool_alloc_def Let_def)
  then show ?thesis ..
qed

end

section \<open>A library for the witnesses\<close>

text \<open>Packets taken from the driver's own heap, free lists as lists of pointers.\<close>

definition heap_pkts :: "(ptr list, 'a) pkt_lib" where
  "heap_pkts = \<lparr>mmpkt_list_zero = [], mmpkt_list_len = (\<lambda>l. of_nat (length l)), mmpkt_list_append = (\<lambda>l p. l @ [p]),
     mmpkt_list_dequeue = (\<lambda>l. case l of [] \<Rightarrow> (0, []) | p # ps \<Rightarrow> (p, ps)),
     mmpkt_init_buf = (\<lambda>p n a b c ops s. if 40 + a + b + c \<le> n then (p, s\<lparr>pkt_ops := (pkt_ops s)(p := ops)\<rparr>) else (0, s)),
     mmpkt_alloc_on_heap = (\<lambda>a b c s. map_option (\<lambda>(p, s'). (p, s'\<lparr>pkt_ops := (pkt_ops s')(p := mmpkt_heap_ops)\<rparr>))
        (mm_halow_osal_malloc (40 + a + b + c) s)),
     flow_control_cb = (\<lambda>cb s. Some s),
     MMHAL_WLAN_MMPKT_TX_MAX_SIZE = 1632, MMHAL_WLAN_MMPKT_RX_MAX_SIZE = 1632, MMHAL_WLAN_PKT_COMMAND = 1\<rparr>"

interpretation heap_pkts: mmpkt_library heap_pkts "\<lambda>l. l"
proof
  fix s :: "(ptr list, 'a) pktmem_st_scheme" and L a b c
  assume live: "heap_live s L"
  obtain p s1 where m: "mm_halow_osal_malloc (40 + a + b + c) s = Some (p, s1)"
    using heap.malloc_returns [OF live] by blast
  note same = malloc_pkt_same [OF m]
  let ?s' = "s1\<lparr>pkt_ops := (pkt_ops s1)(p := mmpkt_heap_ops)\<rparr>"
  have "mmpkt_alloc_on_heap heap_pkts a b c s = Some (p, ?s')" using m by (simp add: heap_pkts_def)
  moreover have "pkt_same s ?s'" "\<forall>r. r \<noteq> p \<longrightarrow> pkt_ops ?s' r = pkt_ops s r"
    using same by (simp_all add: pkt_same_def)
  moreover have "if p = 0 then heap_live ?s' L
      else \<exists>k. heap_live ?s' (insert (unat p, k) L) \<and> (\<forall>y \<in> L. apart (unat p, k) y)"
    using heap.malloc_null [OF live] heap.malloc_block [OF live m] m live by auto
  ultimately show "\<exists>p s'. mmpkt_alloc_on_heap heap_pkts a b c s = Some (p, s') \<and> pkt_same s s'
      \<and> (\<forall>r. r \<noteq> p \<longrightarrow> pkt_ops s' r = pkt_ops s r)
      \<and> (if p = 0 then heap_live s' L
         else \<exists>k. heap_live s' (insert (unat p, k) L) \<and> (\<forall>y \<in> L. apart (unat p, k) y))" by blast
qed (auto simp: heap_pkts_def pkt_same_def)

definition pktmem0 :: "(ptr list) pktmem_st" where
  "pktmem0 = osal_st.extend osal0 (pktmem_st.fields 0 0 0 [] [] 0 0 0 (\<lambda>_. mmpkt_heap_ops))"

lemma extend_heap:
  "mm_halow_heap_head (osal_st.extend s m) = mm_halow_heap_head s" "blk (osal_st.extend s m) = blk s"
  "mm_halow_heap_mem (osal_st.extend s m) = mm_halow_heap_mem s"
  by (simp_all add: osal_st.extend_def)

lemma pktmem0_heap:
  "mm_halow_heap_head pktmem0 = 536870912" "mm_halow_heap_mem pktmem0 = 536870912"
  "blk pktmem0 = (\<lambda>_. \<lparr>b_next = 0, b_size = 98288, b_used = False\<rparr>)"
  unfolding pktmem0_def extend_heap by (simp_all add: osal0_def)

lemma pktmem0_live: "heap_live pktmem0 {}"
proof -
  have "heap_rep pktmem0 [(98288, False)]" by (simp add: heap_rep_def pktmem0_heap)
  then show ?thesis by (auto simp: heap_live_def live_def)
qed

lemma pktmem0_reach: "\<exists>s :: (ptr list) pktmem_st. pkt_reach heap_pkts (\<lambda>l. l) (flow_log (trace pktmem0)) s {} {}"
  using heap_pkts.init_ok [OF pktmem0_live, of 0] pkt_reach.init [OF pktmem0_live] by blast

section \<open>Properties\<close>







end
