(* ===== verification/Halow_Hal.thy ===== *)
theory Halow_Hal
  imports Halow_Pktmem_Props
begin

text \<open>
  The hardware layer (mm_halow_hal.c): the SPI transfers and the control lines of the
  transceiver, its two interrupt sources, the firmware blobs, and the random numbers and
  the MAC address.

  The port's functions are the record \<open>hal_port\<close>: a full-duplex transfer (the bytes clocked
  out to the bytes clocked in), the levels of the input pins, and the two build options.
  The interrupt handlers are morselib's, called through pointers. Calls that only drive
  hardware are events of the trace.
\<close>

section \<open>State\<close>

record 'l hal_st = "'l pktmem_st" +
  mm_halow_spi_irq_handler :: ptr
  mm_halow_busy_irq_handler :: ptr
  mm_halow_spi_irq_enabled :: bool
  mm_halow_busy_irq_enabled :: bool
  mm_halow_spi_ones :: "u8 list"
  busy_seen :: bool
  mm_halow_poll_requested :: bool

record 's hal_port =
  port_spi_transfer :: "u8 list \<Rightarrow> 's \<Rightarrow> u8 list \<times> 's"
  hal_pin_read :: "mm_halow_pin \<Rightarrow> 's \<Rightarrow> bool"
  irq_handler :: "ptr \<Rightarrow> 's \<Rightarrow> 's option"
  busy_inverted :: bool
  enable_pin_irq :: bool

abbreviation MM_HALOW_TRAINING_BYTES :: nat where "MM_HALOW_TRAINING_BYTES \<equiv> 16"
abbreviation MM_HALOW_READ_CHUNK :: nat where "MM_HALOW_READ_CHUNK \<equiv> 128"

type_synonym ('l, 'a) hal = "('l, 'a) hal_st_scheme hal_port"

text \<open>Reading and writing a run of bytes.\<close>

definition load_bytes :: "ptr \<Rightarrow> nat \<Rightarrow> (ptr \<Rightarrow> u8) \<Rightarrow> u8 list" where
  "load_bytes p n m = map (\<lambda>i. m (p + of_nat i)) [0..<n]"

fun store_bytes :: "ptr \<Rightarrow> u8 list \<Rightarrow> (ptr \<Rightarrow> u8) \<Rightarrow> (ptr \<Rightarrow> u8)" where
  "store_bytes p [] m = m"
| "store_bytes p (b # bs) m = store_bytes (p + 1) bs (m(p := b))"

section \<open>Bus\<close>

text \<open>The destination 0 is the null pointer: what comes in is dropped.\<close>

definition mm_halow_spi_transfer ::
    "('l, 'a) hal \<Rightarrow> u8 list \<Rightarrow> ptr \<Rightarrow> ('l, 'a) hal_st_scheme \<Rightarrow> ('l, 'a) hal_st_scheme" where
  "mm_halow_spi_transfer port src dest s =
     (let (rx, s1) = port_spi_transfer port src s
      in if dest \<noteq> 0 then s1\<lparr>bytes := store_bytes dest rx (bytes s1)\<rparr> else s1)"

definition mm_halow_hal_pin_write :: "mm_halow_pin \<Rightarrow> bool \<Rightarrow> 'a port_st_scheme \<Rightarrow> 'a port_st_scheme" where
  "mm_halow_hal_pin_write pin val s = emit (Ev_pin_write pin val) s"

definition mmhal_wlan_spi_cs_assert ::
    "('l, 'a) hal_st_scheme sched_env \<Rightarrow> ('l, 'a) hal_st_scheme \<Rightarrow> ('l, 'a) hal_st_scheme option" where
  "mmhal_wlan_spi_cs_assert env s = do {
     s1 \<leftarrow> (if mm_halow_sched_over_budget s \<and> \<not> mm_halow_osal_in_critical s
            then mm_halow_sched_yield env s else Some s);
     Some (mm_halow_hal_pin_write MM_HALOW_CS False s1)
   }"

definition mmhal_wlan_spi_cs_deassert :: "('l, 'a) hal_st_scheme \<Rightarrow> ('l, 'a) hal_st_scheme" where
  "mmhal_wlan_spi_cs_deassert s = mm_halow_hal_pin_write MM_HALOW_CS True s"

text \<open>A transfer of one byte through two locals; the local starts as 0xff.\<close>

definition mmhal_wlan_spi_rw ::
    "('l, 'a) hal \<Rightarrow> u8 \<Rightarrow> ('l, 'a) hal_st_scheme \<Rightarrow> u8 \<times> ('l, 'a) hal_st_scheme" where
  "mmhal_wlan_spi_rw port d s =
     (let (rx, s1) = port_spi_transfer port [d] s in (case rx of [] \<Rightarrow> 0xff | b # _ \<Rightarrow> b, s1))"

function mmhal_wlan_spi_read_buf ::
    "('l, 'a) hal \<Rightarrow> ptr \<Rightarrow> u32 \<Rightarrow> ('l, 'a) hal_st_scheme \<Rightarrow> ('l, 'a) hal_st_scheme" where
  "mmhal_wlan_spi_read_buf port buf len s =
     (if len > 0 then
        let chunk = min len (of_nat MM_HALOW_READ_CHUNK)
        in mmhal_wlan_spi_read_buf port (buf + chunk) (len - chunk)
             (mm_halow_spi_transfer port (take (unat chunk) (mm_halow_spi_ones s)) buf s)
      else s)"
  by pat_completeness auto
termination
proof (relation "measure (\<lambda>(port, buf, len, s). unat len)", goal_cases)
  case (2 port buf len s chunk)
  then have c: "chunk \<noteq> 0" "chunk \<le> len" by (auto simp: min_def)
  have "0 < unat chunk" using c(1) by (simp add: unat_gt_0)
  then have "unat (len - chunk) < unat len"
    using c(2) by (simp add: unat_sub_u32 word_le_nat_alt)
  then show ?case by simp
qed simp

declare mmhal_wlan_spi_read_buf.simps [simp del]

definition mmhal_wlan_spi_write_buf ::
    "('l, 'a) hal \<Rightarrow> ptr \<Rightarrow> u32 \<Rightarrow> ('l, 'a) hal_st_scheme \<Rightarrow> ('l, 'a) hal_st_scheme" where
  "mmhal_wlan_spi_write_buf port buf len s = mm_halow_spi_transfer port (load_bytes buf (unat len) (bytes s)) 0 s"

definition mmhal_wlan_send_training_seq ::
    "('l, 'a) hal \<Rightarrow> ('l, 'a) hal_st_scheme \<Rightarrow> ('l, 'a) hal_st_scheme" where
  "mmhal_wlan_send_training_seq port s =
     (let s1 = mmhal_wlan_spi_cs_deassert s
      in mm_halow_spi_transfer port (take MM_HALOW_TRAINING_BYTES (mm_halow_spi_ones s1)) 0 s1)"

section \<open>Control lines\<close>

definition mmhal_wlan_assert_reset :: "bool \<Rightarrow> ('l, 'a) hal_st_scheme \<Rightarrow> ('l, 'a) hal_st_scheme" where
  "mmhal_wlan_assert_reset assert_reset s = mm_halow_hal_pin_write MM_HALOW_RESET (\<not> assert_reset) s"

definition mmhal_wlan_hard_reset ::
    "('l, 'a) hal_st_scheme sched_env \<Rightarrow> ('l, 'a) hal_st_scheme \<Rightarrow> ('l, 'a) hal_st_scheme option" where
  "mmhal_wlan_hard_reset env s = do {
     s1 \<leftarrow> mmosal_task_sleep env 5 (mmhal_wlan_assert_reset True s);
     mmosal_task_sleep env 20 (mmhal_wlan_assert_reset False s1)
   }"

definition mmhal_wlan_wake_assert :: "('l, 'a) hal_st_scheme \<Rightarrow> ('l, 'a) hal_st_scheme" where
  "mmhal_wlan_wake_assert s = mm_halow_hal_pin_write MM_HALOW_WAKE True s"

definition mmhal_wlan_wake_deassert :: "('l, 'a) hal_st_scheme \<Rightarrow> ('l, 'a) hal_st_scheme" where
  "mmhal_wlan_wake_deassert s = mm_halow_hal_pin_write MM_HALOW_WAKE False s"

definition mmhal_wlan_busy_is_asserted :: "('l, 'a) hal \<Rightarrow> ('l, 'a) hal_st_scheme \<Rightarrow> bool" where
  "mmhal_wlan_busy_is_asserted port s =
     (if busy_inverted port then \<not> hal_pin_read port MM_HALOW_BUSY s else hal_pin_read port MM_HALOW_BUSY s)"

definition mmhal_wlan_register_busy_irq_handler ::
    "ptr \<Rightarrow> ('l, 'a) hal_st_scheme \<Rightarrow> ('l, 'a) hal_st_scheme" where
  "mmhal_wlan_register_busy_irq_handler handler s = s\<lparr>mm_halow_busy_irq_handler := handler\<rparr>"

definition mmhal_wlan_set_busy_irq_enabled :: "bool \<Rightarrow> ('l, 'a) hal_st_scheme \<Rightarrow> ('l, 'a) hal_st_scheme" where
  "mmhal_wlan_set_busy_irq_enabled en s = s\<lparr>mm_halow_busy_irq_enabled := en\<rparr>"

definition mmhal_wlan_spi_irq_is_asserted :: "('l, 'a) hal \<Rightarrow> ('l, 'a) hal_st_scheme \<Rightarrow> bool" where
  "mmhal_wlan_spi_irq_is_asserted port s \<longleftrightarrow> \<not> hal_pin_read port MM_HALOW_IRQ s"

definition mmhal_wlan_clear_spi_irq :: "('l, 'a) hal_st_scheme \<Rightarrow> ('l, 'a) hal_st_scheme" where
  "mmhal_wlan_clear_spi_irq s = s"

definition mmhal_wlan_register_spi_irq_handler ::
    "ptr \<Rightarrow> ('l, 'a) hal_st_scheme \<Rightarrow> ('l, 'a) hal_st_scheme" where
  "mmhal_wlan_register_spi_irq_handler handler s = s\<lparr>mm_halow_spi_irq_handler := handler\<rparr>"

text \<open>The call of one of morselib's interrupt handlers.\<close>

definition call_irq_handler ::
    "('l, 'a) hal \<Rightarrow> ptr \<Rightarrow> ('l, 'a) hal_st_scheme \<Rightarrow> ('l, 'a) hal_st_scheme option" where
  "call_irq_handler port h s = irq_handler port h (emit (Ev_irq_handler h) s)"

definition mmhal_wlan_set_spi_irq_enabled ::
    "('l, 'a) hal \<Rightarrow> bool \<Rightarrow> ('l, 'a) hal_st_scheme \<Rightarrow> ('l, 'a) hal_st_scheme option" where
  "mmhal_wlan_set_spi_irq_enabled port en s =
     (let s1 = s\<lparr>mm_halow_spi_irq_enabled := en\<rparr>
      in if en \<and> mmhal_wlan_spi_irq_is_asserted port s1 \<and> mm_halow_spi_irq_handler s1 \<noteq> 0
         then call_irq_handler port (mm_halow_spi_irq_handler s1) s1 else Some s1)"

section \<open>Interrupts\<close>

text \<open>
  mm_halow_request_poll (mm_halow_ctrl.c): the flag, then the port's hook to have a poll
  run soon, whose default does nothing.
\<close>

definition mm_halow_request_poll :: "('l, 'a) hal_st_scheme \<Rightarrow> ('l, 'a) hal_st_scheme" where
  "mm_halow_request_poll s = emit Ev_schedule_poll (s\<lparr>mm_halow_poll_requested := True\<rparr>)"

definition mm_halow_port_irq_handler :: "('l, 'a) hal_st_scheme \<Rightarrow> ('l, 'a) hal_st_scheme" where
  "mm_halow_port_irq_handler s = mm_halow_request_poll (emit (Ev_irq_enable False) s)"

definition mm_halow_hal_irq_rearm :: "('l, 'a) hal \<Rightarrow> ('l, 'a) hal_st_scheme \<Rightarrow> ('l, 'a) hal_st_scheme" where
  "mm_halow_hal_irq_rearm port s = (if enable_pin_irq port then emit (Ev_irq_enable True) s else s)"

definition mm_halow_hal_irq_pending ::
    "('l, 'a) hal \<Rightarrow> ('l, 'a) hal_st_scheme \<Rightarrow> bool \<times> ('l, 'a) hal_st_scheme" where
  "mm_halow_hal_irq_pending port s =
     (let busy = (mm_halow_busy_irq_enabled s \<and> mm_halow_busy_irq_handler s \<noteq> 0 \<and> mmhal_wlan_busy_is_asserted port s);
          busy_changed = (busy \<noteq> busy_seen s);
          s1 = s\<lparr>busy_seen := busy\<rparr>
      in (busy_changed \<or> (mm_halow_spi_irq_enabled s1 \<and> mm_halow_spi_irq_handler s1 \<noteq> 0
                            \<and> mmhal_wlan_spi_irq_is_asserted port s1), s1))"

definition mm_halow_hal_poll_irqs ::
    "('l, 'a) hal \<Rightarrow> ('l, 'a) hal_st_scheme \<Rightarrow> ('l, 'a) hal_st_scheme option" where
  "mm_halow_hal_poll_irqs port s = do {
     s1 \<leftarrow> (if mm_halow_spi_irq_enabled s \<and> mm_halow_spi_irq_handler s \<noteq> 0 \<and> mmhal_wlan_spi_irq_is_asserted port s
            then call_irq_handler port (mm_halow_spi_irq_handler s) s else Some s);
     if mm_halow_busy_irq_enabled s1 \<and> mm_halow_busy_irq_handler s1 \<noteq> 0 \<and> mmhal_wlan_busy_is_asserted port s1
     then call_irq_handler port (mm_halow_busy_irq_handler s1) s1 else Some s1
   }"

section \<open>Init\<close>

definition mmhal_wlan_init :: "('l, 'a) hal \<Rightarrow> ('l, 'a) hal_st_scheme \<Rightarrow> ('l, 'a) hal_st_scheme" where
  "mmhal_wlan_init port s =
     (let s = s\<lparr>mm_halow_spi_ones := replicate MM_HALOW_READ_CHUNK 0xff\<rparr>;
          s = emit (Ev_pin_mode MM_HALOW_RESET True) s;
          s = mm_halow_hal_pin_write MM_HALOW_RESET False s;
          s = emit (Ev_pin_mode MM_HALOW_WAKE True) s;
          s = mm_halow_hal_pin_write MM_HALOW_WAKE False s;
          s = emit (Ev_pin_mode MM_HALOW_CS True) s;
          s = mm_halow_hal_pin_write MM_HALOW_CS True s;
          s = emit (Ev_pin_mode MM_HALOW_BUSY False) s;
          s = emit (Ev_pin_mode MM_HALOW_IRQ False) s;
          s = (if enable_pin_irq port then emit (Ev_irq_config True) s else s);
          s = emit Ev_spi_init s;
          s = emit (Ev_pin_mode MM_HALOW_CS True) s;
          s = mm_halow_hal_pin_write MM_HALOW_CS True s
      in mmhal_wlan_assert_reset False s)"

definition mmhal_wlan_deinit :: "('l, 'a) hal \<Rightarrow> ('l, 'a) hal_st_scheme \<Rightarrow> ('l, 'a) hal_st_scheme" where
  "mmhal_wlan_deinit port s =
     (let s = (if enable_pin_irq port then emit (Ev_irq_config False) s else s);
          s = s\<lparr>mm_halow_spi_irq_enabled := False, mm_halow_busy_irq_enabled := False,
                mm_halow_spi_irq_handler := 0, mm_halow_busy_irq_handler := 0\<rparr>;
          s = mmhal_wlan_assert_reset True s;
          s = mm_halow_hal_pin_write MM_HALOW_WAKE False s
      in emit Ev_spi_deinit s)"

section \<open>Firmware and board configuration blobs\<close>

record mmhal_robuf =
  robuf_buf :: ptr
  robuf_len :: u32
  robuf_free_arg :: ptr
  robuf_free_cb :: ptr

definition mm_halow_read_blob :: "ptr \<Rightarrow> ptr \<Rightarrow> u32 \<Rightarrow> u32 \<Rightarrow> mmhal_robuf" where
  "mm_halow_read_blob blob_start blob_end offset requested_len =
     (let len = blob_end - blob_start
      in if offset > len
         then \<lparr>robuf_buf = 0, robuf_len = 0, robuf_free_arg = 0, robuf_free_cb = 0\<rparr>
         else \<lparr>robuf_buf = blob_start + offset, robuf_len = min (len - offset) requested_len,
                robuf_free_arg = 0, robuf_free_cb = 0\<rparr>)"

text \<open>The linker's symbols around the two blobs are arguments; without a board file, None.\<close>

definition mmhal_wlan_read_fw_file :: "ptr \<times> ptr \<Rightarrow> u32 \<Rightarrow> u32 \<Rightarrow> mmhal_robuf" where
  "mmhal_wlan_read_fw_file firmware offset requested_len =
     mm_halow_read_blob (fst firmware) (snd firmware) offset requested_len"

definition mmhal_wlan_read_bcf_file :: "(ptr \<times> ptr) option \<Rightarrow> u32 \<Rightarrow> u32 \<Rightarrow> mmhal_robuf" where
  "mmhal_wlan_read_bcf_file bcf offset requested_len =
     (case bcf of Some (blob_start, blob_end) \<Rightarrow> mm_halow_read_blob blob_start blob_end offset requested_len
      | None \<Rightarrow> \<lparr>robuf_buf = 0, robuf_len = 0, robuf_free_arg = 0, robuf_free_cb = 0\<rparr>)"

section \<open>Miscellaneous\<close>

text \<open>\<open>port_mac\<close> is the address the port would write.\<close>

fun mmhal_read_mac_addr :: "u8 list \<Rightarrow> u8 list \<Rightarrow> u8 list" where
  "mmhal_read_mac_addr port_mac mac_addr =
     (if list_ex (\<lambda>i. mac_addr ! i \<noteq> 0) [0..<6] then mac_addr else port_mac)"

text \<open>\<open>val\<close> is what the hardware returned.\<close>

definition mmhal_random_u32 :: "u32 \<Rightarrow> u32 \<Rightarrow> u32 \<Rightarrow> u32" where
  "mmhal_random_u32 val mn mx =
     (if mx \<le> mn then mn
      else let span = mx - mn
           in if span = UINT32_MAX then val else mn + val mod (span + 1))"

end
