(* ===== verification/Halow_Hal_Props.thy ===== *)
theory Halow_Hal_Props
  imports Halow_Hal
begin

text \<open>
  The hardware layer: the chunked read is one transfer (for the bus as the locale
  \<open>spi_device\<close> describes it), what the interrupt gate reports, the firmware read back piece
  by piece, and the range of the random numbers.
\<close>

section \<open>The bus\<close>

lemma length_load_bytes [simp]: "length (load_bytes p n m) = n"
  by (simp add: load_bytes_def)

lemma load_bytes_append: "load_bytes p (a + b) m = load_bytes p a m @ load_bytes (p + of_nat a) b m"
  by (rule nth_equalityI) (auto simp: load_bytes_def nth_append ac_simps)

lemma store_bytes_append:
  "store_bytes p (xs @ ys) m = store_bytes (p + of_nat (length xs)) ys (store_bytes p xs m)"
  by (induction xs arbitrary: p m) (simp_all add: ac_simps)

lemma store_bytes_other:
  "(\<And>i. i < length bs \<Longrightarrow> a \<noteq> p + of_nat i) \<Longrightarrow> store_bytes p bs m a = m a"
proof (induction bs arbitrary: p m)
  case (Cons b bs)
  have "a \<noteq> p" using Cons.prems [of 0] by simp
  have far: "a \<noteq> p + 1 + of_nat i" if "i < length bs" for i
    using Cons.prems [of "Suc i"] that by (simp add: ac_simps)
  have e: "store_bytes (p + 1) bs (m(p := b)) a = (m(p := b)) a" by (rule Cons.IH) (rule far)
  show ?case unfolding store_bytes.simps e using \<open>a \<noteq> p\<close> by simp
qed simp

lemma load_store_bytes: "length bs \<le> 4294967296 \<Longrightarrow> load_bytes p (length bs) (store_bytes p bs m) = bs"
proof (induction bs arbitrary: p m)
  case Nil
  then show ?case by (simp add: load_bytes_def)
next
  case (Cons b bs)
  have "store_bytes (p + 1) bs (m(p := b)) p = b"
  proof -
    have "p \<noteq> p + 1 + of_nat i" if "i < length bs" for i
    proof -
      have "Suc i < 4294967296" using that Cons.prems by simp
      then have "(of_nat (Suc i) :: u32) \<noteq> 0" by (subst of_nat_u32_eq_0_iff) simp_all
      then show ?thesis by (simp add: add.assoc)
    qed
    from store_bytes_other [OF this] show ?thesis by simp
  qed
  moreover have "load_bytes (p + 1) (length bs) (store_bytes (p + 1) bs (m(p := b))) = bs"
    using Cons by simp
  ultimately show ?case
    using load_bytes_append [of p 1 "length bs" "store_bytes p (b # bs) m"]
    by (simp add: load_bytes_def)
qed

text \<open>
  What the driver relies on of the port's transfer: as many bytes come in as go out, a
  transfer may be cut in two, and it leaves the driver's memory alone.
\<close>

locale spi_device =
  fixes port :: "('l, 'a) hal"
  assumes xfer_length: "length (fst (port_spi_transfer port xs s)) = length xs"
    and xfer_nil: "port_spi_transfer port [] s = ([], s)"
    and xfer_append: "port_spi_transfer port (xs @ ys) s =
      (let (a, s1) = port_spi_transfer port xs s; (b, s2) = port_spi_transfer port ys s1 in (a @ b, s2))"
    and xfer_bytes: "port_spi_transfer port xs (s\<lparr>bytes := m\<rparr>) =
      (fst (port_spi_transfer port xs s), (snd (port_spi_transfer port xs s))\<lparr>bytes := m\<rparr>)"
    and xfer_ones: "mm_halow_spi_ones (snd (port_spi_transfer port xs s)) = mm_halow_spi_ones s"
begin

lemma xfer_keeps_bytes: "bytes (snd (port_spi_transfer port xs s)) = bytes s"
proof -
  let ?r = "port_spi_transfer port xs s"
  have "?r = (fst ?r, (snd ?r)\<lparr>bytes := bytes s\<rparr>)" using xfer_bytes [of xs "bytes s" s] by simp
  then have "bytes (snd ?r) = bytes (snd (fst ?r, (snd ?r)\<lparr>bytes := bytes s\<rparr>))" by (rule arg_cong)
  then show ?thesis by simp
qed

lemma transfer_append:
  assumes "p \<noteq> 0" and "p + of_nat (length xs) \<noteq> 0"
  shows "mm_halow_spi_transfer port (xs @ ys) p s
    = mm_halow_spi_transfer port ys (p + of_nat (length xs)) (mm_halow_spi_transfer port xs p s)"
proof -
  obtain a s1 where a: "port_spi_transfer port xs s = (a, s1)" by fastforce
  obtain b s2 where b: "port_spi_transfer port ys s1 = (b, s2)" by fastforce
  have len: "length a = length xs" using xfer_length [of xs s] a by simp
  have m: "bytes s2 = bytes s1" "bytes s1 = bytes s" using xfer_keeps_bytes [of ys s1] xfer_keeps_bytes [of xs s] a b by simp_all
  have "port_spi_transfer port ys (s1\<lparr>bytes := store_bytes p a (bytes s1)\<rparr>) = (b, s2\<lparr>bytes := store_bytes p a (bytes s1)\<rparr>)"
    using xfer_bytes [of ys "store_bytes p a (bytes s1)" s1] b by simp
  then show ?thesis
    using a b m assms len by (simp add: mm_halow_spi_transfer_def xfer_append store_bytes_append)
qed

lemma transfer_ones: "mm_halow_spi_ones (mm_halow_spi_transfer port xs p s) = mm_halow_spi_ones s"
  using xfer_ones [of xs s] by (simp add: mm_halow_spi_transfer_def split_beta Let_def)

lemma read_buf_eq:
  assumes "mm_halow_spi_ones s = replicate 128 0xff" and "unat buf + unat len \<le> 4294967296" and "buf \<noteq> 0 \<or> len = 0"
  shows "mmhal_wlan_spi_read_buf port buf len s = mm_halow_spi_transfer port (replicate (unat len) 0xff) buf s"
  using assms
proof (induction "unat len" arbitrary: len buf s rule: less_induct)
  case less
  show ?case
  proof (cases "len = 0")
    case True
    then show ?thesis
      by (subst mmhal_wlan_spi_read_buf.simps) (simp add: mm_halow_spi_transfer_def xfer_nil)
  next
    case False
    let ?c = "min len 128"
    have c: "unat ?c = min (unat len) 128" by (simp add: min_def word_le_nat_alt)
    have pos: "0 < unat len" using False by (simp add: unat_gt_0)
    have rest: "unat (len - ?c) = unat len - unat ?c"
      by (simp add: unat_sub_u32 word_le_nat_alt [symmetric])
    let ?s1 = "mm_halow_spi_transfer port (replicate (unat ?c) 0xff) buf s"
    have unf: "mmhal_wlan_spi_read_buf port buf len s = mmhal_wlan_spi_read_buf port (buf + ?c) (len - ?c) ?s1"
    proof -
      have "take (unat ?c) (mm_halow_spi_ones s) = replicate (unat ?c) 0xff" using less.prems(1) c by simp
      then show ?thesis using False by (subst mmhal_wlan_spi_read_buf.simps) (simp add: Let_def word_gt_0)
    qed
    show ?thesis
    proof (cases "unat len \<le> 128")
      case True
      then have "?c = len" by (simp add: min_def word_le_nat_alt)
      moreover have "mmhal_wlan_spi_read_buf port b 0 s' = s'" for b and s' :: "('l, 'a) hal_st_scheme"
        by (subst mmhal_wlan_spi_read_buf.simps) simp
      ultimately show ?thesis using unf by simp
    next
      case long: False
      have nb: "unat (buf + ?c) = unat buf + unat ?c"
        by (rule unat_add_u32) (use less.prems(2) long c in simp)
      have b0: "buf + ?c \<noteq> 0"
      proof
        assume "buf + ?c = 0"
        then have "unat (buf + ?c) = 0" by simp
        then show False using nb c long by simp
      qed
      have split: "replicate (unat len) (0xff :: u8) = replicate (unat ?c) 0xff @ replicate (unat (len - ?c)) 0xff"
        using rest c by (simp add: replicate_add [symmetric])
      have "mmhal_wlan_spi_read_buf port (buf + ?c) (len - ?c) ?s1
          = mm_halow_spi_transfer port (replicate (unat (len - ?c)) 0xff) (buf + ?c) ?s1"
      proof (rule less.hyps)
        show "unat (len - ?c) < unat len" using rest c pos by simp
        show "mm_halow_spi_ones ?s1 = replicate 128 0xff" using less.prems(1) by (simp add: transfer_ones)
        show "unat (buf + ?c) + unat (len - ?c) \<le> 4294967296" using nb rest c less.prems(2) by simp
        show "buf + ?c \<noteq> 0 \<or> len - ?c = 0" using b0 by simp
      qed
      also have "\<dots> = mm_halow_spi_transfer port (replicate (unat len) 0xff) buf s"
        unfolding split using transfer_append [of buf "replicate (unat ?c) 0xff"] less.prems(3) False b0 by simp
      finally show ?thesis using unf by simp
    qed
  qed
qed

end

section \<open>Interrupts\<close>

definition spi_irq_live :: "('l, 'a) hal \<Rightarrow> ('l, 'a) hal_st_scheme \<Rightarrow> bool" where
  "spi_irq_live port s \<longleftrightarrow> mm_halow_spi_irq_enabled s \<and> mm_halow_spi_irq_handler s \<noteq> 0
     \<and> \<not> hal_pin_read port MM_HALOW_IRQ s"

definition busy_irq_live :: "('l, 'a) hal \<Rightarrow> ('l, 'a) hal_st_scheme \<Rightarrow> bool" where
  "busy_irq_live port s \<longleftrightarrow> mm_halow_busy_irq_enabled s \<and> mm_halow_busy_irq_handler s \<noteq> 0
     \<and> hal_pin_read port MM_HALOW_BUSY s \<noteq> busy_inverted port"

text \<open>The handlers called, in order.\<close>

definition irq_calls :: "event list \<Rightarrow> ptr list" where
  "irq_calls tr = concat (map (\<lambda>e. case e of Ev_irq_handler h \<Rightarrow> [h] | _ \<Rightarrow> []) tr)"

lemma irq_calls_simps [simp]:
  "irq_calls [] = []" "irq_calls (xs @ ys) = irq_calls xs @ irq_calls ys" "irq_calls [Ev_irq_handler h] = [h]"
  by (simp_all add: irq_calls_def)

text \<open>
  The pins are the transceiver's, not a function of the driver's notes; a handler of
  morselib returns, with the registrations as they were.
\<close>

locale irq_lines =
  fixes port :: "('l, 'a) hal"
  assumes pin_note: "hal_pin_read port p (s\<lparr>busy_seen := b\<rparr>) = hal_pin_read port p s"
    and pin_trace: "hal_pin_read port p (s\<lparr>trace := tr\<rparr>) = hal_pin_read port p s"
    and pin_enable: "hal_pin_read port p (s\<lparr>mm_halow_spi_irq_enabled := b\<rparr>) = hal_pin_read port p s"
    and handler: "\<exists>s'. irq_handler port h s = Some s' \<and> irq_calls (trace s') = irq_calls (trace s)
      \<and> mm_halow_spi_irq_enabled s' = mm_halow_spi_irq_enabled s
      \<and> mm_halow_busy_irq_enabled s' = mm_halow_busy_irq_enabled s
      \<and> mm_halow_spi_irq_handler s' = mm_halow_spi_irq_handler s
      \<and> mm_halow_busy_irq_handler s' = mm_halow_busy_irq_handler s
      \<and> hal_pin_read port MM_HALOW_BUSY s' = hal_pin_read port MM_HALOW_BUSY s"
begin

lemma pending_eq:
  "mm_halow_hal_irq_pending port s =
     (busy_irq_live port s \<noteq> busy_seen s \<or> spi_irq_live port s, s\<lparr>busy_seen := busy_irq_live port s\<rparr>)"
  by (auto simp: mm_halow_hal_irq_pending_def spi_irq_live_def busy_irq_live_def Let_def pin_note
      mmhal_wlan_busy_is_asserted_def mmhal_wlan_spi_irq_is_asserted_def)

lemma live_note [simp]:
  "spi_irq_live port (s\<lparr>busy_seen := b\<rparr>) = spi_irq_live port s"
  "busy_irq_live port (s\<lparr>busy_seen := b\<rparr>) = busy_irq_live port s"
  by (simp_all add: spi_irq_live_def busy_irq_live_def pin_note)

lemma call_ok:
  "\<exists>s'. call_irq_handler port h s = Some s' \<and> irq_calls (trace s') = irq_calls (trace s) @ [h]
     \<and> busy_irq_live port s' = busy_irq_live port s \<and> mm_halow_busy_irq_handler s' = mm_halow_busy_irq_handler s
     \<and> mm_halow_spi_irq_enabled s' = mm_halow_spi_irq_enabled s"
  using handler [of h "emit (Ev_irq_handler h) s"] pin_trace [of MM_HALOW_BUSY "trace s @ [Ev_irq_handler h]" s]
  by (auto simp: call_irq_handler_def emit_def busy_irq_live_def)

lemma poll_irqs_ok:
  "\<exists>s'. mm_halow_hal_poll_irqs port s = Some s' \<and> irq_calls (trace s') = irq_calls (trace s)
     @ (if spi_irq_live port s then [mm_halow_spi_irq_handler s] else [])
     @ (if busy_irq_live port s then [mm_halow_busy_irq_handler s] else [])"
proof -
  obtain s1 where s1: "(if spi_irq_live port s then call_irq_handler port (mm_halow_spi_irq_handler s) s else Some s) = Some s1"
    "irq_calls (trace s1) = irq_calls (trace s) @ (if spi_irq_live port s then [mm_halow_spi_irq_handler s] else [])"
    "busy_irq_live port s1 = busy_irq_live port s" "mm_halow_busy_irq_handler s1 = mm_halow_busy_irq_handler s"
    using call_ok [of "mm_halow_spi_irq_handler s" s] by (cases "spi_irq_live port s") auto
  obtain s2 where s2: "(if busy_irq_live port s1 then call_irq_handler port (mm_halow_busy_irq_handler s1) s1 else Some s1) = Some s2"
    "irq_calls (trace s2) = irq_calls (trace s1) @ (if busy_irq_live port s1 then [mm_halow_busy_irq_handler s1] else [])"
    using call_ok [of "mm_halow_busy_irq_handler s1" s1] by (cases "busy_irq_live port s1") auto
  have "mm_halow_hal_poll_irqs port s = Option.bind
      (if spi_irq_live port s then call_irq_handler port (mm_halow_spi_irq_handler s) s else Some s)
      (\<lambda>s1. if busy_irq_live port s1 then call_irq_handler port (mm_halow_busy_irq_handler s1) s1 else Some s1)"
    by (simp add: mm_halow_hal_poll_irqs_def spi_irq_live_def busy_irq_live_def
        mmhal_wlan_busy_is_asserted_def mmhal_wlan_spi_irq_is_asserted_def)
  also have "\<dots> = Some s2" unfolding s1(1) using s2(1) by simp
  finally show ?thesis using s1(2,3,4) s2(2) by simp
qed

end

section \<open>Blobs\<close>

lemma read_blob_piece:
  assumes "unat a \<le> unat b" and "unat off \<le> unat b - unat a"
  shows "mm_halow_read_blob a b off n = \<lparr>robuf_buf = a + off, robuf_len = of_nat (min (unat b - unat a - unat off) (unat n)),
     robuf_free_arg = 0, robuf_free_cb = 0\<rparr>"
proof -
  have size: "unat (b - a) = unat b - unat a" by (rule unat_sub_u32) (rule assms(1))
  then have "\<not> off > b - a" using assms(2) by (simp add: word_less_nat_alt)
  moreover have "unat (b - a - off) = unat b - unat a - unat off"
    using size assms(2) by (subst unat_sub_u32) simp_all
  then have "min (b - a - off) n = of_nat (min (unat b - unat a - unat off) (unat n))"
    by (metis (no_types, lifting) min_def of_nat_unat_u32 word_le_nat_alt)
  ultimately show ?thesis by (simp add: mm_halow_read_blob_def Let_def)
qed

text \<open>The bytes of \<open>k\<close> consecutive reads of \<open>n\<close> bytes.\<close>

definition piece_bytes :: "(ptr \<Rightarrow> u8) \<Rightarrow> mmhal_robuf \<Rightarrow> u8 list" where
  "piece_bytes m r = load_bytes (robuf_buf r) (unat (robuf_len r)) m"

definition blob_reads :: "(ptr \<Rightarrow> u8) \<Rightarrow> ptr \<times> ptr \<Rightarrow> u32 \<Rightarrow> nat \<Rightarrow> u8 list" where
  "blob_reads m fw n k = concat (map (\<lambda>i. piece_bytes m (mmhal_wlan_read_fw_file fw (of_nat i * n) n)) [0..<k])"

lemma blob_reads_eq:
  assumes "unat a \<le> unat b" and "k = 0 \<or> (k - 1) * unat n \<le> unat b - unat a"
  shows "blob_reads m (a, b) n k = load_bytes a (min (k * unat n) (unat b - unat a)) m"
  using assms(2)
proof (induction k)
  case 0
  then show ?case by (simp add: blob_reads_def load_bytes_def)
next
  case (Suc k)
  let ?sz = "unat b - unat a"
  have k: "k * unat n \<le> ?sz" using Suc.prems by simp
  then have "k = 0 \<or> (k - 1) * unat n \<le> ?sz" by (cases k) simp_all
  then have IH: "blob_reads m (a, b) n k = load_bytes a (k * unat n) m" using Suc.IH k by (simp add: min_absorb1)
  have off: "unat (of_nat k * n) = k * unat n"
  proof -
    have "k * unat n < 4294967296" using k unat_lt_u32 [of b] by linarith
    moreover have "of_nat k * n = of_nat (k * unat n)" by simp
    ultimately show ?thesis by (simp only: unat_of_nat_u32)
  qed
  let ?l = "min (?sz - k * unat n) (unat n)"
  have "unat (of_nat ?l :: u32) = ?l" by (rule unat_of_nat_u32) (use unat_lt_u32 [of n] in linarith)
  then have "piece_bytes m (mmhal_wlan_read_fw_file (a, b) (of_nat k * n) n) = load_bytes (a + of_nat k * n) ?l m"
    using read_blob_piece [OF assms(1), of "of_nat k * n" n] off k by (simp add: mmhal_wlan_read_fw_file_def piece_bytes_def)
  moreover have "k * unat n + ?l = min (Suc k * unat n) ?sz" using k by simp
  then have "load_bytes a (min (Suc k * unat n) ?sz) m = load_bytes a (k * unat n) m @ load_bytes (a + of_nat k * n) ?l m"
    using load_bytes_append [of a "k * unat n" ?l m] by simp
  ultimately show ?case using IH by (simp add: blob_reads_def)
qed

section \<open>Concrete parameters for the witnesses\<close>

text \<open>A bus that echoes every byte inverted, an interrupt line held low, quiet handlers.\<close>

definition echo_port :: "('l, 'a) hal" where
  "echo_port = \<lparr>port_spi_transfer = (\<lambda>xs s. (map (\<lambda>b. 0xff - b) xs, s)), hal_pin_read = (\<lambda>p s. p \<noteq> MM_HALOW_IRQ),
     irq_handler = (\<lambda>h s. Some s), busy_inverted = False, enable_pin_irq = True\<rparr>"

interpretation echo: spi_device echo_port
  by unfold_locales (auto simp: echo_port_def)

interpretation echo: irq_lines echo_port
  by unfold_locales (auto simp: echo_port_def)

definition hal0 :: "(ptr list) hal_st" where
  "hal0 = pktmem_st.extend pktmem0 (hal_st.fields 134217729 134217733 True False (replicate 128 0xff) False False)"

lemma hal0_simps:
  "mm_halow_spi_ones hal0 = replicate 128 0xff" "mm_halow_spi_irq_handler hal0 = 134217729"
  "mm_halow_spi_irq_enabled hal0" "\<not> mm_halow_busy_irq_enabled hal0" "\<not> busy_seen hal0"
  by (simp_all add: hal0_def pktmem_st.extend_def hal_st.fields_def)

section \<open>Properties\<close>

text \<open>
  C39: Reading from the transceiver. On a bus where a transfer may be cut in two, the chunked
  read returns and is exactly one transfer of as many 0xff bytes as were asked for, whatever
  the length; the buffer then holds just what the transceiver sent, and no other byte
  changed.
\<close>

theorem spi_read_equiv:
  assumes "spi_device port" and ones: "mm_halow_spi_ones s = replicate 128 0xff"
    and buf: "buf \<noteq> 0" "unat buf + unat len \<le> 4294967296"
  shows "mmhal_wlan_spi_read_buf port buf len s = mm_halow_spi_transfer port (replicate (unat len) 0xff) buf s
    \<and> load_bytes buf (unat len) (bytes (mmhal_wlan_spi_read_buf port buf len s))
        = fst (port_spi_transfer port (replicate (unat len) 0xff) s)
    \<and> (\<forall>a. (\<forall>i < unat len. a \<noteq> buf + of_nat i) \<longrightarrow> bytes (mmhal_wlan_spi_read_buf port buf len s) a = bytes s a)"
proof -
  note eq = spi_device.read_buf_eq [OF assms(1) ones buf(2)]
  let ?r = "port_spi_transfer port (replicate (unat len) 0xff) s"
  have len: "length (fst ?r) = unat len" using spi_device.xfer_length [OF assms(1)] by simp
  have b: "bytes (mm_halow_spi_transfer port (replicate (unat len) 0xff) buf s) = store_bytes buf (fst ?r) (bytes s)"
    using spi_device.xfer_keeps_bytes [OF assms(1), of "replicate (unat len) 0xff" s] buf(1)
    by (simp add: mm_halow_spi_transfer_def split_beta Let_def)
  have "load_bytes buf (unat len) (store_bytes buf (fst ?r) (bytes s)) = fst ?r"
    using load_store_bytes [of "fst ?r" buf "bytes s"] len unat_lt_u32 [of len] by simp
  moreover have "store_bytes buf (fst ?r) (bytes s) a = bytes s a" if "\<forall>i < unat len. a \<noteq> buf + of_nat i" for a
    by (rule store_bytes_other) (use that len in auto)
  ultimately show ?thesis using eq b buf(1) by simp
qed

theorem spi_read_equiv_witness:
  "load_bytes 4096 300 (bytes (mmhal_wlan_spi_read_buf echo_port 4096 300 hal0)) = replicate 300 0"
proof -
  have "fst (port_spi_transfer echo_port (replicate 300 0xff) hal0) = replicate 300 0" by (simp add: echo_port_def)
  moreover have "(4096 :: ptr) \<noteq> 0" "unat (4096 :: ptr) + unat (300 :: u32) \<le> 4294967296" by simp_all
  note conjunct1 [OF conjunct2 [OF spi_read_equiv [OF echo.spi_device_axioms hal0_simps(1) this]]]
  then have "load_bytes 4096 300 (bytes (mmhal_wlan_spi_read_buf echo_port 4096 300 hal0))
      = fst (port_spi_transfer echo_port (replicate 300 0xff) hal0)" by simp
  ultimately show ?thesis by (rule trans [rotated])
qed

text \<open>
  C22: No interrupt is lost between polls. When the gate reports nothing pending, the
  interrupt line is not asserted and BUSY is as it was at the last look; a BUSY level is
  reported once, an asserted interrupt line every time until it is served. A poll calls
  exactly the handlers whose source is asserted and enabled, and returns. Enabling the
  interrupt on a line that is already low calls the handler at once, as there will be no edge.
\<close>

theorem irq_no_lost_event:
  assumes "irq_lines port"
  shows "(\<not> fst (mm_halow_hal_irq_pending port s) \<longrightarrow> \<not> spi_irq_live port s \<and> busy_irq_live port s = busy_seen s)
    \<and> fst (mm_halow_hal_irq_pending port (snd (mm_halow_hal_irq_pending port s))) = spi_irq_live port s
    \<and> (\<exists>s'. mm_halow_hal_poll_irqs port s = Some s' \<and> irq_calls (trace s') = irq_calls (trace s)
          @ (if spi_irq_live port s then [mm_halow_spi_irq_handler s] else [])
          @ (if busy_irq_live port s then [mm_halow_busy_irq_handler s] else []))
    \<and> (\<exists>s'. mmhal_wlan_set_spi_irq_enabled port en s = Some s' \<and> mm_halow_spi_irq_enabled s' = en
          \<and> irq_calls (trace s') = irq_calls (trace s)
             @ (if en \<and> mm_halow_spi_irq_handler s \<noteq> 0 \<and> \<not> hal_pin_read port MM_HALOW_IRQ s
                then [mm_halow_spi_irq_handler s] else []))"
proof -
  note eq = irq_lines.pending_eq [OF assms] and live = irq_lines.live_note [OF assms]
  have "\<exists>s'. mmhal_wlan_set_spi_irq_enabled port en s = Some s' \<and> mm_halow_spi_irq_enabled s' = en
      \<and> irq_calls (trace s') = irq_calls (trace s)
         @ (if en \<and> mm_halow_spi_irq_handler s \<noteq> 0 \<and> \<not> hal_pin_read port MM_HALOW_IRQ s
            then [mm_halow_spi_irq_handler s] else [])"
    using irq_lines.call_ok [OF assms, of "mm_halow_spi_irq_handler s" "s\<lparr>mm_halow_spi_irq_enabled := en\<rparr>"]
    by (auto simp: mmhal_wlan_set_spi_irq_enabled_def Let_def mmhal_wlan_spi_irq_is_asserted_def
        irq_lines.pin_enable [OF assms])
  with irq_lines.poll_irqs_ok [OF assms, of s] eq live show ?thesis by auto
qed

theorem irq_no_lost_event_witness:
  "\<exists>s'. mm_halow_hal_poll_irqs echo_port hal0 = Some s' \<and> irq_calls (trace s') = irq_calls (trace hal0) @ [134217729]"
  using irq_no_lost_event [OF echo.irq_lines_axioms, of hal0 True]
  by (auto simp: spi_irq_live_def busy_irq_live_def hal0_simps echo_port_def)

text \<open>
  C40: Loading the firmware. Reading the image piece by piece, at the offsets 0, n, 2n, ...,
  gives back exactly its bytes: no piece reaches past the end, the last one is short, and the
  pieces together are the image. A read at an offset beyond the end is empty.
\<close>

theorem firmware_read_reassembles:
  assumes "unat a \<le> unat b" and "(k - 1) * unat n \<le> unat b - unat a" and "unat b - unat a \<le> k * unat n" and "0 < k"
  shows "blob_reads m (a, b) n k = load_bytes a (unat b - unat a) m
    \<and> (\<forall>off > b - a. robuf_len (mmhal_wlan_read_fw_file (a, b) off n) = 0
         \<and> robuf_buf (mmhal_wlan_read_fw_file (a, b) off n) = 0)
    \<and> (\<forall>off. unat off \<le> unat b - unat a \<longrightarrow>
         unat off + unat (robuf_len (mmhal_wlan_read_fw_file (a, b) off n)) \<le> unat b - unat a)"
proof -
  have "unat off + unat (robuf_len (mm_halow_read_blob a b off n)) \<le> unat b - unat a"
    if off: "unat off \<le> unat b - unat a" for off
  proof -
    let ?l = "min (unat b - unat a - unat off) (unat n)"
    have "unat (of_nat ?l :: u32) = ?l" by (rule unat_of_nat_u32) (use unat_lt_u32 [of n] in linarith)
    then show ?thesis unfolding read_blob_piece [OF assms(1) off] using off by simp
  qed
  then show ?thesis
    using blob_reads_eq [OF assms(1), of k n m] assms
    by (auto simp: mmhal_wlan_read_fw_file_def mm_halow_read_blob_def min_absorb2)
qed

theorem firmware_read_reassembles_witness:
  "\<forall>m. blob_reads m (4096, 4196) 30 4 = load_bytes 4096 100 m"
  using firmware_read_reassembles [of 4096 4196 4 30] by simp

text \<open>
  Random numbers. The result lies between the bounds asked for, both included, and every
  number between them comes up for some value of the hardware source, also for the whole
  range of 32 bits; an empty or reversed range gives its lower bound.
\<close>

theorem random_in_range:
  "(mx \<le> mn \<longrightarrow> mmhal_random_u32 val mn mx = mn)
    \<and> (mn \<le> mx \<longrightarrow> mn \<le> mmhal_random_u32 val mn mx \<and> mmhal_random_u32 val mn mx \<le> mx
         \<and> (\<forall>v. mn \<le> v \<and> v \<le> mx \<longrightarrow> (\<exists>val. mmhal_random_u32 val mn mx = v)))"
proof (cases "mx \<le> mn")
  case True
  then show ?thesis by (auto simp: mmhal_random_u32_def)
next
  case False
  then have lt: "unat mn < unat mx" by (simp add: word_le_nat_alt)
  have span: "unat (mx - mn) = unat mx - unat mn" by (rule unat_sub_u32) (use lt in simp)
  show ?thesis
  proof (cases "mx - mn = UINT32_MAX")
    case True
    then have full: "unat mx - unat mn = 4294967295" using span by (simp add: unat_neg_u32)
    then have "unat mn = 0" "unat mx = 4294967295" using unat_lt_u32 [of mx] by linarith+
    moreover have "unat v \<le> 4294967295" for v :: u32 using unat_lt_u32 [of v] by linarith
    ultimately have "mn \<le> v" "v \<le> mx" for v by (simp_all add: word_le_nat_alt)
    moreover have "mmhal_random_u32 v mn mx = v" for v using True False by (simp add: mmhal_random_u32_def Let_def)
    ultimately show ?thesis using False by auto
  next
    case ne: False
    have s1: "unat (mx - mn + 1) = unat mx - unat mn + 1"
    proof -
      have "unat (mx - mn) \<noteq> unat (- 1 :: u32)" using ne by (simp only: word_unat_eq_iff not_False_eq_True)
      then have "unat (mx - mn) \<noteq> 4294967295" by (simp add: unat_neg_u32)
      with unat_lt_u32 [of "mx - mn"] have "unat (mx - mn) < 4294967295" by linarith
      then show ?thesis using span by (subst unat_add_u32) simp_all
    qed
    have r: "mmhal_random_u32 w mn mx = mn + w mod (mx - mn + 1)" for w
      using False ne by (simp add: mmhal_random_u32_def Let_def)
    have b: "unat (mmhal_random_u32 w mn mx) = unat mn + unat w mod (unat mx - unat mn + 1)" for w
    proof -
      have m: "unat w mod (unat mx - unat mn + 1) \<le> unat mx - unat mn"
        by (simp add: less_Suc_eq_le [symmetric])
      have "unat (w mod (mx - mn + 1)) = unat w mod (unat mx - unat mn + 1)"
        using s1 by (simp add: unat_mod)
      then show ?thesis unfolding r using m lt unat_lt_u32 [of mx] by (subst unat_add_u32) linarith+
    qed
    have rng: "unat w mod (unat mx - unat mn + 1) \<le> unat mx - unat mn" for w :: u32
      by (simp add: less_Suc_eq_le [symmetric])
    have "mn \<le> mmhal_random_u32 w mn mx" for w unfolding word_le_nat_alt b by simp
    moreover have "mmhal_random_u32 w mn mx \<le> mx" for w
      unfolding word_le_nat_alt b using rng [of w] lt by linarith
    moreover have "\<exists>w. mmhal_random_u32 w mn mx = v" if v: "mn \<le> v" "v \<le> mx" for v
    proof -
      have "unat (v - mn) = unat v - unat mn" using v by (intro unat_sub_u32) (simp add: word_le_nat_alt)
      moreover have "unat v - unat mn < unat mx - unat mn + 1" using v by (simp add: word_le_nat_alt)
      ultimately have "unat (mmhal_random_u32 (v - mn) mn mx) = unat v" using b [of "v - mn"] v by (simp add: word_le_nat_alt)
      then show ?thesis by (intro exI [of _ "v - mn"]) (simp add: word_unat_eq_iff)
    qed
    ultimately show ?thesis using False by (intro conjI impI allI) (blast | simp)+
  qed
qed

theorem random_in_range_witness:
  "5 \<le> mmhal_random_u32 123456 5 9 \<and> mmhal_random_u32 123456 5 9 \<le> 9"
  using random_in_range [of 9 5 123456] by simp

end
