(* ===== verification/Halow_State.thy ===== *)
theory Halow_State
  imports Halow_Hal_Props
begin

text \<open>
  The control layer's state and its interfaces: the driver's state object (mm_halow_t in
  mm_halow.h) with the static variables of mm_halow_ctrl.c, morselib's control API as the
  record \<open>mmwlan\<close> of parameters, the error codes, and the accessors that need nothing else.

  A call of morselib that changes something is a \<open>vendor_call\<close> with its arguments. It is
  recorded in the state and handed to the parameter \<open>vendor\<close>, an arbitrary effect on the
  whole state with a status: morselib may block and so run everything else of the driver,
  and it may not return. Pointers to the callbacks and to the state object are left out of
  the arguments, as there is one of each.
\<close>

section \<open>morselib's types\<close>

datatype mmwlan_status =
    MMWLAN_SUCCESS | MMWLAN_INVALID_ARGUMENT | MMWLAN_UNAVAILABLE | MMWLAN_NO_MEM | MMWLAN_TIMED_OUT
  | MMWLAN_CHANNEL_LIST_NOT_SET | MMWLAN_CHANNEL_INVALID | MMWLAN_NOT_FOUND | MMWLAN_NOT_SUPPORTED
  | MMWLAN_VIF_ERROR | MMWLAN_COMMAND_ERROR | MMWLAN_STATUS_OTHER u32

datatype mmwlan_vif = MMWLAN_VIF_STA | MMWLAN_VIF_AP

datatype mmwlan_sta_state = MMWLAN_STA_DISABLED | MMWLAN_STA_CONNECTING | MMWLAN_STA_CONNECTED

record mmwlan_s1g_channel =
  centre_freq_hz :: u32
  ch_bw_mhz :: u8
  s1g_chan_num :: u8
  s1g_operating_class :: int
  global_operating_class :: int

abbreviation MMWLAN_MAC_ADDR_LEN :: nat where "MMWLAN_MAC_ADDR_LEN \<equiv> 6"

text \<open>The fields of the argument structures that the driver sets; the others keep their defaults.\<close>

record mmwlan_sta_args =
  sta_ssid_arg :: "u8 list"
  sta_passphrase :: "u8 list"
  sta_security_type :: u32
  sta_pmf_disabled :: bool
  sta_bssid_arg :: "u8 list option"
  scan_interval_base_s :: u16
  scan_interval_limit_s :: u16

record mmwlan_ap_args =
  ap_ssid_arg :: "u8 list"
  ap_passphrase :: "u8 list"
  ap_security_type :: u32
  ap_pmf_disabled :: bool
  ap_op_class :: int
  ap_s1g_chan_num :: u8
  ap_async_start :: bool

datatype vendor_call =
    V_init | V_deinit | V_shutdown | V_boot
  | V_register_fatal | V_register_link_state | V_register_rx bool
  | V_set_channel_list "mmwlan_s1g_channel list"
  | V_ap_enable mmwlan_ap_args | V_ap_disable
  | V_sta_enable mmwlan_sta_args | V_sta_disable
  | V_scan_request u32 | V_scan_abort
  | V_set_ampdu bool | V_set_sgi bool | V_set_subbands bool
  | V_set_rts_threshold u32 | V_set_fragment_threshold u32 | V_set_listen_interval u16
  | V_set_health_check u32 u32 | V_set_power_save bool | V_set_dynamic_ps_timeout u32
  | V_override_max_tx_power u16 | V_set_duty_cycle_mode int | V_twt_add u64 u32 int
  | V_set_wnm_sleep bool bool | V_override_rate_control int int int
  | V_tx_wait_until_ready u32 | V_tx_pkt ptr

section \<open>Error codes\<close>

text \<open>The results of the API: 0, or one of the embedder's error codes negated.\<close>

datatype errno = EPERM | EIO | EINVAL | EAGAIN | ENOMEM | ENODEV | ENOENT | ENOTCONN | ENXIO
  | ETIMEDOUT | ERANGE | EOPNOTSUPP

datatype result = Ok | Neg errno

fun mm_halow_status_to_errno :: "mmwlan_status \<Rightarrow> result" where
  "mm_halow_status_to_errno MMWLAN_SUCCESS = Ok"
| "mm_halow_status_to_errno MMWLAN_INVALID_ARGUMENT = Neg EINVAL"
| "mm_halow_status_to_errno MMWLAN_UNAVAILABLE = Neg EAGAIN"
| "mm_halow_status_to_errno MMWLAN_NO_MEM = Neg ENOMEM"
| "mm_halow_status_to_errno MMWLAN_TIMED_OUT = Neg ETIMEDOUT"
| "mm_halow_status_to_errno MMWLAN_CHANNEL_LIST_NOT_SET = Neg ENODEV"
| "mm_halow_status_to_errno MMWLAN_CHANNEL_INVALID = Neg ERANGE"
| "mm_halow_status_to_errno MMWLAN_NOT_FOUND = Neg ENOENT"
| "mm_halow_status_to_errno MMWLAN_NOT_SUPPORTED = Neg EOPNOTSUPP"
| "mm_halow_status_to_errno MMWLAN_VIF_ERROR = Neg ENXIO"
| "mm_halow_status_to_errno _ = Neg EIO"

section \<open>The state object\<close>

text \<open>The interfaces, the link states, the security types, the power modes (mm_halow.h).\<close>

abbreviation MM_HALOW_ITF_STA :: int where "MM_HALOW_ITF_STA \<equiv> 0"
abbreviation MM_HALOW_ITF_AP :: int where "MM_HALOW_ITF_AP \<equiv> 1"
abbreviation MM_HALOW_ITF_MAX :: int where "MM_HALOW_ITF_MAX \<equiv> 2"
abbreviation MM_HALOW_LINK_DOWN :: int where "MM_HALOW_LINK_DOWN \<equiv> 0"
abbreviation MM_HALOW_LINK_JOIN :: int where "MM_HALOW_LINK_JOIN \<equiv> 1"
abbreviation MM_HALOW_LINK_NOIP :: int where "MM_HALOW_LINK_NOIP \<equiv> 2"
abbreviation MM_HALOW_LINK_UP :: int where "MM_HALOW_LINK_UP \<equiv> 3"
abbreviation MM_HALOW_LINK_FAIL :: int where "MM_HALOW_LINK_FAIL \<equiv> - 1"
abbreviation MM_HALOW_SEC_OPEN :: u32 where "MM_HALOW_SEC_OPEN \<equiv> 0"
abbreviation MM_HALOW_SEC_SAE :: u32 where "MM_HALOW_SEC_SAE \<equiv> 2"
abbreviation MM_HALOW_PM_NONE :: u32 where "MM_HALOW_PM_NONE \<equiv> 0"
abbreviation MM_HALOW_TRACE_ASYNC_EV :: u32 where "MM_HALOW_TRACE_ASYNC_EV \<equiv> 1"
abbreviation MM_HALOW_TRACE_ETH_TX :: u32 where "MM_HALOW_TRACE_ETH_TX \<equiv> 2"
abbreviation MM_HALOW_TRACE_ETH_RX :: u32 where "MM_HALOW_TRACE_ETH_RX \<equiv> 4"
abbreviation MM_HALOW_SCAN_CACHE_MAX :: u8 where "MM_HALOW_SCAN_CACHE_MAX \<equiv> 32"

record mm_halow_ev_scan_result =
  sr_ssid_len :: u8
  sr_ssid :: "u8 list"
  sr_bssid :: "u8 list"
  sr_rssi :: u16
  sr_channel_freq_hz :: u32
  sr_chan_num :: u8
  sr_bw_mhz :: u8
  sr_op_bw_mhz :: u8
  sr_security :: u8

text \<open>
  Arrays are functions from the index; byte strings of fixed size are lists of that length.
  The scan cache is the array its pointer points at.
\<close>

record mm_halow_t =
  itf_state :: u8
  trace_flags :: u32
  scan_active :: bool
  rx_deferred :: bool
  h_pm :: u32
  ps_timeout_ms :: u32
  h_ampdu :: bool
  h_sgi :: bool
  h_subbands :: bool
  listen_interval :: u16
  h_txpower :: u16
  duty_cycle_mode :: u8
  rts_threshold :: u32
  fragment_threshold :: u32
  wnm_powerdown :: bool
  health_min_ms :: u32
  health_max_ms :: u32
  scan_cache :: ptr
  scan_results :: "nat \<Rightarrow> mm_halow_ev_scan_result"
  scan_cache_len :: u8
  scan_cache_max :: u8
  scan_started_ms :: u32
  link_status :: int
  initted :: bool
  booted :: bool
  sta_ssid_len :: u8
  sta_ssid :: "u8 list"
  ap_auth :: u32
  ap_ssid_len :: u8
  ap_key_len :: u8
  ap_ssid :: "u8 list"
  ap_key :: "u8 list"
  ap_chan_num :: u8
  ap_sta_count :: u8
  ap_stas :: "nat \<Rightarrow> u8 list"
  h_channels :: "mmwlan_s1g_channel list option"
  h_mac :: "u8 list"
  h_country :: string

text \<open>
  The static initialiser of mm_halow_state; the lengths of its byte arrays are arguments
  and everything it does not name is zero.
\<close>

definition mm_halow_state_init :: "nat \<Rightarrow> nat \<Rightarrow> mm_halow_t" where
  "mm_halow_state_init ssid_maxlen passphrase_maxlen =
     \<lparr>itf_state = 0, trace_flags = 0, scan_active = False, rx_deferred = False, h_pm = MM_HALOW_PM_NONE,
      ps_timeout_ms = 100, h_ampdu = True, h_sgi = True, h_subbands = True, listen_interval = 0,
      h_txpower = 0, duty_cycle_mode = 0, rts_threshold = 0, fragment_threshold = 0, wnm_powerdown = False,
      health_min_ms = 0, health_max_ms = 0, scan_cache = 0,
      scan_results = (\<lambda>_. \<lparr>sr_ssid_len = 0, sr_ssid = [], sr_bssid = [], sr_rssi = 0, sr_channel_freq_hz = 0,
        sr_chan_num = 0, sr_bw_mhz = 0, sr_op_bw_mhz = 0, sr_security = 0\<rparr>),
      scan_cache_len = 0, scan_cache_max = 0, scan_started_ms = 0, link_status = MM_HALOW_LINK_DOWN,
      initted = False, booted = False, sta_ssid_len = 0, sta_ssid = replicate ssid_maxlen 0,
      ap_auth = MM_HALOW_SEC_SAE, ap_ssid_len = 0, ap_key_len = 0, ap_ssid = replicate ssid_maxlen 0,
      ap_key = replicate passphrase_maxlen 0, ap_chan_num = 0, ap_sta_count = 0,
      ap_stas = (\<lambda>_. replicate MMWLAN_MAC_ADDR_LEN 0), h_channels = None,
      h_mac = replicate MMWLAN_MAC_ADDR_LEN 0, h_country = replicate 2 (CHR 0x00)\<rparr>"

text \<open>
  The lwIP side: the fields of a struct netif that the driver reads or writes, and lwIP's
  list of interfaces and its default. Interface i of the driver is netif \<open>Suc i\<close>; 0 is NULL;
  other numbers are other interfaces of the host.
\<close>

datatype lwip_call =
    L_netif_add nat u32 u32 u32 | L_netif_remove nat | L_set_hostname nat | L_set_default nat
  | L_set_up nat | L_set_link_up nat | L_set_link_down nat | L_igmp_filter nat
  | L_dns_setserver u32 | L_dhcp_set_struct nat | L_dhcp_start nat | L_dhcp_stop nat
  | L_dhcp_server_init u32 u32 | L_dhcp_server_deinit
  | L_pbuf_free ptr | L_input nat ptr

record netif =
  netif_name :: string
  netif_flags :: u8
  netif_mtu :: u16
  netif_hwaddr :: "u8 list"
  netif_ip_addr :: u32
  netif_driver :: bool    \<comment> \<open>linkoutput and output are the driver's\<close>

record 'l halow_st = "'l hal_st" +
  mm_halow_state :: mm_halow_t
  mm_halow_poll :: bool
  mm_halow_tx_buf :: ptr
  vendor_calls :: "vendor_call list"
  lwip_calls :: "lwip_call list"
  netifs :: "nat \<Rightarrow> netif"
  netif_list :: "nat list"
  netif_default :: nat

definition upd_self :: "(mm_halow_t \<Rightarrow> mm_halow_t) \<Rightarrow> ('l, 'a) halow_st_scheme \<Rightarrow> ('l, 'a) halow_st_scheme" where
  "upd_self f s = s\<lparr>mm_halow_state := f (mm_halow_state s)\<rparr>"

definition itf_bit :: "int \<Rightarrow> u8" where
  "itf_bit itf = push_bit (nat itf) 1"

definition itf_up :: "mm_halow_t \<Rightarrow> int \<Rightarrow> bool" where
  "itf_up self itf \<longleftrightarrow> and (itf_state self) (itf_bit itf) \<noteq> 0"

text \<open>Copying the first \<open>n\<close> bytes of a source over an array.\<close>

definition overwrite :: "u8 list \<Rightarrow> nat \<Rightarrow> u8 list \<Rightarrow> u8 list" where
  "overwrite dst n src = take n src @ drop n dst"

section \<open>morselib's control API\<close>

text \<open>
  The effects, and the constants of its headers that the driver compares with. A call that
  fills a buffer is given the buffer's old contents and returns the new.
\<close>

record 's mmwlan =
  vendor :: "vendor_call \<Rightarrow> 's \<Rightarrow> (mmwlan_status \<times> 's) option"
  lookup_regulatory_domain :: "string \<Rightarrow> mmwlan_s1g_channel list option"
  get_vif_mac_addr :: "mmwlan_vif \<Rightarrow> u8 list \<Rightarrow> 's \<Rightarrow> (mmwlan_status \<times> u8 list \<times> 's) option"
  get_bssid :: "u8 list \<Rightarrow> 's \<Rightarrow> (mmwlan_status \<times> u8 list \<times> 's) option"
  get_rssi :: "'s \<Rightarrow> (int \<times> 's) option"
  get_vif_channel_info :: "mmwlan_vif \<Rightarrow> 's \<Rightarrow> (mmwlan_status \<times> u16 \<times> u8 \<times> 's) option"
  ate_execute_command :: "u8 list \<Rightarrow> u32 \<Rightarrow> 's \<Rightarrow> (mmwlan_status \<times> u8 list \<times> u32 \<times> 's) option"
  get_duty_cycle_stats :: "'s \<Rightarrow> (mmwlan_status \<times> u32 list \<times> 's) option"
  get_version :: "'s \<Rightarrow> (mmwlan_status \<times> string \<times> 's) option"
  get_rc_stats :: "'s \<Rightarrow> (ptr \<times> 's) option"
  free_rc_stats :: "ptr \<Rightarrow> 's \<Rightarrow> 's option"
  alloc_mmpkt_for_tx :: "u32 \<Rightarrow> 's \<Rightarrow> (ptr \<times> 's) option"
  pkt_append_data :: "ptr \<Rightarrow> u8 list \<Rightarrow> 's \<Rightarrow> 's"
  MMWLAN_SSID_MAXLEN :: nat
  MMWLAN_PASSPHRASE_MAXLEN :: nat
  MMWLAN_DEFAULT_AP_MAX_STAS :: nat
  MMWLAN_SKIP_OP_CLASS_CHECK :: int
  MMWLAN_MCS_NONE :: int
  MMWLAN_MCS_MAX :: int
  MMWLAN_GI_NONE :: int
  MMWLAN_GI_MAX :: int
  MMWLAN_BW :: "int list"
  MMWLAN_TWT_SETUP_REQUEST :: int
  MMWLAN_TWT_SETUP_DEMAND :: int
  MMWLAN_DUTY_CYCLE_MODES :: "int list"

type_synonym ('l, 'a) wlan = "('l, 'a) halow_st_scheme mmwlan"

definition vcall ::
    "('l, 'a) wlan \<Rightarrow> vendor_call \<Rightarrow> ('l, 'a) halow_st_scheme \<Rightarrow> (mmwlan_status \<times> ('l, 'a) halow_st_scheme) option" where
  "vcall w c s = vendor w c (s\<lparr>vendor_calls := vendor_calls s @ [c]\<rparr>)"

text \<open>A call whose status the code ignores, or that has none.\<close>

definition vdo ::
    "('l, 'a) wlan \<Rightarrow> vendor_call \<Rightarrow> ('l, 'a) halow_st_scheme \<Rightarrow> ('l, 'a) halow_st_scheme option" where
  "vdo w c s = map_option snd (vcall w c s)"

text \<open>A call whose status is returned as an error code.\<close>

definition vret ::
    "('l, 'a) wlan \<Rightarrow> vendor_call \<Rightarrow> ('l, 'a) halow_st_scheme \<Rightarrow> (result \<times> ('l, 'a) halow_st_scheme) option" where
  "vret w c s = map_option (\<lambda>(status, s1). (mm_halow_status_to_errno status, s1)) (vcall w c s)"

section \<open>Accessors\<close>

definition mm_halow_wifi_link_status :: "mm_halow_t \<Rightarrow> int \<Rightarrow> int" where
  "mm_halow_wifi_link_status self itf =
     (if itf = MM_HALOW_ITF_AP
      then if itf_up self MM_HALOW_ITF_AP then MM_HALOW_LINK_UP else MM_HALOW_LINK_DOWN
      else link_status self)"

definition mm_halow_wifi_get_mac ::
    "('l, 'a) wlan \<Rightarrow> int \<Rightarrow> u8 list \<Rightarrow> ('l, 'a) halow_st_scheme \<Rightarrow> (u8 list \<times> ('l, 'a) halow_st_scheme) option" where
  "mm_halow_wifi_get_mac w itf mac s = do {
     (status, mac', s1) \<leftarrow> get_vif_mac_addr w (if itf = MM_HALOW_ITF_AP then MMWLAN_VIF_AP else MMWLAN_VIF_STA) mac s;
     Some (if status \<noteq> MMWLAN_SUCCESS then h_mac (mm_halow_state s1) else mac', s1)
   }"

end
