(* ===== verification/Halow_Netif.thy ===== *)
theory Halow_Netif
  imports Halow_State
begin

text \<open>
  The lwIP side of the driver (mm_halow_lwip.c): bringing an interface up and down in lwIP,
  its link, and received frames.

  lwIP itself is the record \<open>lwip\<close> of parameters: a call that changes the stack is a
  \<open>lwip_call\<close>, recorded and handed to the effect \<open>lwip_do\<close>; netif_add also gets the driver's
  init function, to be called by it. The build has IPv4, DNS, host names and the access
  point; the DHCP client and IGMP are options.
\<close>

section \<open>lwIP\<close>

record 's lwip =
  lwip_do :: "lwip_call \<Rightarrow> 's \<Rightarrow> 's option"
  netif_add :: "nat \<Rightarrow> ('s \<Rightarrow> 's option) \<Rightarrow> 's \<Rightarrow> 's option"
  pbuf_alloc :: "u32 \<Rightarrow> 's \<Rightarrow> ptr \<times> 's"
  pbuf_take_at :: "ptr \<Rightarrow> u8 list \<Rightarrow> nat \<Rightarrow> 's \<Rightarrow> bool \<times> 's"
  netif_input :: "nat \<Rightarrow> ptr \<Rightarrow> 's \<Rightarrow> (bool \<times> 's) option"
  pbuf_next :: "ptr \<Rightarrow> 's \<Rightarrow> ptr"
  pbuf_payload :: "ptr \<Rightarrow> 's \<Rightarrow> ptr"
  pbuf_copy_partial :: "ptr \<Rightarrow> nat \<Rightarrow> 's \<Rightarrow> u8 list"
  SIZEOF_ETH_HDR :: u32
  PP_HTONL :: "u32 \<Rightarrow> u32"
  NETIF_FLAG_UP :: u8
  NETIF_FLAG_LINK_UP :: u8
  NETIF_FLAGS_INIT :: u8   \<comment> \<open>NETIF_FLAG_BROADCAST | NETIF_FLAG_ETHARP | NETIF_FLAG_ETHERNET\<close>
  NETIF_FLAG_IGMP :: u8
  LWIP_DHCP :: bool
  LWIP_IGMP :: bool

type_synonym ('l, 'a) ip = "('l, 'a) halow_st_scheme lwip"

abbreviation MM_HALOW_MTU :: u16 where "MM_HALOW_MTU \<equiv> 1500"
abbreviation MM_HALOW_STA_ADDRESS :: u32 where "MM_HALOW_STA_ADDRESS \<equiv> 0xc0a80102"
abbreviation MM_HALOW_STA_NETMASK :: u32 where "MM_HALOW_STA_NETMASK \<equiv> 0xffffff00"
abbreviation MM_HALOW_STA_GATEWAY :: u32 where "MM_HALOW_STA_GATEWAY \<equiv> 0xc0a80101"
abbreviation MM_HALOW_AP_ADDRESS :: u32 where "MM_HALOW_AP_ADDRESS \<equiv> 0xc0a80401"
abbreviation MM_HALOW_AP_NETMASK :: u32 where "MM_HALOW_AP_NETMASK \<equiv> 0xffffff00"

text \<open>The interface &self->netif[itf], and updating one of its fields.\<close>

definition itf_netif :: "int \<Rightarrow> nat" where
  "itf_netif itf = Suc (nat itf)"

definition upd_netif :: "nat \<Rightarrow> (netif \<Rightarrow> netif) \<Rightarrow> ('l, 'a) halow_st_scheme \<Rightarrow> ('l, 'a) halow_st_scheme" where
  "upd_netif n f s = s\<lparr>netifs := (netifs s)(n := f (netifs s n))\<rparr>"

definition ldo ::
    "('l, 'a) ip \<Rightarrow> lwip_call \<Rightarrow> ('l, 'a) halow_st_scheme \<Rightarrow> ('l, 'a) halow_st_scheme option" where
  "ldo lw c s = lwip_do lw c (s\<lparr>lwip_calls := lwip_calls s @ [c]\<rparr>)"

definition netif_is_up :: "('l, 'a) ip \<Rightarrow> nat \<Rightarrow> ('l, 'a) halow_st_scheme \<Rightarrow> bool" where
  "netif_is_up lw n s \<longleftrightarrow> and (netif_flags (netifs s n)) (NETIF_FLAG_UP lw) \<noteq> 0"

definition netif_is_link_up :: "('l, 'a) ip \<Rightarrow> nat \<Rightarrow> ('l, 'a) halow_st_scheme \<Rightarrow> bool" where
  "netif_is_link_up lw n s \<longleftrightarrow> and (netif_flags (netifs s n)) (NETIF_FLAG_LINK_UP lw) \<noteq> 0"

section \<open>Bringing an interface up\<close>

text \<open>The interface number is read back from the name.\<close>

definition name_itf :: "string \<Rightarrow> int" where
  "name_itf nm = of_char (nm ! 1) - 48"

definition mm_halow_netif_init ::
    "('l, 'a) ip \<Rightarrow> ('l, 'a) wlan \<Rightarrow> nat \<Rightarrow> ('l, 'a) halow_st_scheme \<Rightarrow> ('l, 'a) halow_st_scheme option" where
  "mm_halow_netif_init lw w netif s = do {
     let itf = name_itf (netif_name (netifs s netif));
     let s1 = upd_netif netif (\<lambda>n. n\<lparr>netif_driver := True, netif_mtu := MM_HALOW_MTU,
                                       netif_flags := NETIF_FLAGS_INIT lw\<rparr>) s;
     (mac, s2) \<leftarrow> mm_halow_wifi_get_mac w itf (netif_hwaddr (netifs s1 netif)) s1;
     let s3 = upd_netif netif (\<lambda>n. n\<lparr>netif_hwaddr := mac\<rparr>) s2;
     if LWIP_IGMP lw
     then ldo lw (L_igmp_filter netif)
            (upd_netif netif (\<lambda>n. n\<lparr>netif_flags := or (netif_flags n) (NETIF_FLAG_IGMP lw)\<rparr>) s3)
     else Some s3
   }"

text \<open>The three addresses the interface starts with: address, netmask, gateway.\<close>

definition tcpip_config :: "('l, 'a) ip \<Rightarrow> int \<Rightarrow> u32 \<times> u32 \<times> u32" where
  "tcpip_config lw itf =
     (if itf = MM_HALOW_ITF_AP
      then (PP_HTONL lw MM_HALOW_AP_ADDRESS, PP_HTONL lw MM_HALOW_AP_NETMASK, PP_HTONL lw MM_HALOW_AP_ADDRESS)
      else if \<not> LWIP_DHCP lw
      then (PP_HTONL lw MM_HALOW_STA_ADDRESS, PP_HTONL lw MM_HALOW_STA_NETMASK, PP_HTONL lw MM_HALOW_STA_GATEWAY)
      else (0, 0, 0))"

definition mm_halow_cb_tcpip_init ::
    "('l, 'a) ip \<Rightarrow> ('l, 'a) wlan \<Rightarrow> int \<Rightarrow> ('l, 'a) halow_st_scheme \<Rightarrow> ('l, 'a) halow_st_scheme option" where
  "mm_halow_cb_tcpip_init lw w itf s = do {
     let netif = itf_netif itf;
     let (addr, mask, gw) = tcpip_config lw itf;
     let s1 = upd_netif netif (\<lambda>n. n\<lparr>netif_name := [CHR ''w'', char_of (48 + nat itf)]\<rparr>) s;
     s2 \<leftarrow> netif_add lw netif (mm_halow_netif_init lw w netif)
             (s1\<lparr>lwip_calls := lwip_calls s1 @ [L_netif_add netif addr mask gw]\<rparr>);
     s3 \<leftarrow> ldo lw (L_set_hostname netif) s2;
     s4 \<leftarrow> (if netif_default s3 = 0 then ldo lw (L_set_default netif) s3 else Some s3);
     s5 \<leftarrow> ldo lw (L_set_up netif) s4;
     if itf = MM_HALOW_ITF_STA then do {
       s6 \<leftarrow> (if gw \<noteq> 0 then ldo lw (L_dns_setserver gw) s5 else Some s5);
       if LWIP_DHCP lw then ldo lw (L_dhcp_set_struct netif) s6 else Some s6
     }
     else ldo lw (L_dhcp_server_init addr mask) s5
   }"

section \<open>Taking an interface down\<close>

definition mm_halow_cb_tcpip_deinit ::
    "('l, 'a) ip \<Rightarrow> int \<Rightarrow> ('l, 'a) halow_st_scheme \<Rightarrow> ('l, 'a) halow_st_scheme option" where
  "mm_halow_cb_tcpip_deinit lw itf s = do {
     let netif = itf_netif itf;
     let was_default = (netif_default s = netif);
     s1 \<leftarrow> (if itf = MM_HALOW_ITF_STA
            then if LWIP_DHCP lw then ldo lw (L_dhcp_stop netif) s else Some s
            else ldo lw L_dhcp_server_deinit s);
     s2 \<leftarrow> (if netif \<in> set (netif_list s1)
            then map_option (upd_netif netif (\<lambda>n. n\<lparr>netif_ip_addr := 0, netif_flags := 0\<rparr>))
                   (ldo lw (L_netif_remove netif) s1)
            else Some s1);
     if was_default \<and> netif_default s2 = 0
     then case List.find (\<lambda>n. netif_is_up lw n s2) (netif_list s2) of
            Some n \<Rightarrow> ldo lw (L_set_default n) s2
          | None \<Rightarrow> Some s2
     else Some s2
   }"

section \<open>The link\<close>

definition mm_halow_cb_tcpip_set_link_up ::
    "('l, 'a) ip \<Rightarrow> int \<Rightarrow> ('l, 'a) halow_st_scheme \<Rightarrow> ('l, 'a) halow_st_scheme option" where
  "mm_halow_cb_tcpip_set_link_up lw itf s =
     (let netif = itf_netif itf
      in if netif_is_link_up lw netif s then Some s
         else do {
           s1 \<leftarrow> ldo lw (L_set_link_up netif) s;
           if LWIP_DHCP lw \<and> itf = MM_HALOW_ITF_STA then ldo lw (L_dhcp_start netif) s1 else Some s1
         })"

definition mm_halow_cb_tcpip_set_link_down ::
    "('l, 'a) ip \<Rightarrow> int \<Rightarrow> ('l, 'a) halow_st_scheme \<Rightarrow> ('l, 'a) halow_st_scheme option" where
  "mm_halow_cb_tcpip_set_link_down lw itf s =
     (let netif = itf_netif itf
      in if \<not> netif_is_link_up lw netif s then Some s else ldo lw (L_set_link_down netif) s)"

definition mm_halow_tcpip_link_status :: "('l, 'a) ip \<Rightarrow> int \<Rightarrow> ('l, 'a) halow_st_scheme \<Rightarrow> int" where
  "mm_halow_tcpip_link_status lw itf s =
     (let status = mm_halow_wifi_link_status (mm_halow_state s) itf
      in if status \<noteq> MM_HALOW_LINK_NOIP \<and> status \<noteq> MM_HALOW_LINK_UP then status
         else if netif_is_up lw (itf_netif itf) s \<and> netif_ip_addr (netifs s (itf_netif itf)) \<noteq> 0
         then MM_HALOW_LINK_UP else MM_HALOW_LINK_NOIP)"

section \<open>Received frames\<close>

text \<open>Length sums are 32-bit; a pbuf the stack does not take is freed.\<close>

definition mm_halow_cb_process_ethernet ::
    "('l, 'a) ip \<Rightarrow> int \<Rightarrow> u8 list \<Rightarrow> u8 list \<Rightarrow> ('l, 'a) halow_st_scheme \<Rightarrow> ('l, 'a) halow_st_scheme option" where
  "mm_halow_cb_process_ethernet lw itf header payload s =
     (let netif = itf_netif itf; len = of_nat (length header) + of_nat (length payload)
      in if rx_deferred (mm_halow_state s) then Some s
         else let s1 = (if and (trace_flags (mm_halow_state s)) MM_HALOW_TRACE_ETH_RX \<noteq> 0
                        then emit (Ev_print ''rxf'') s else s)
         in if \<not> netif_is_link_up lw netif s1 then Some s1
         else let (p, s2) = pbuf_alloc lw len s1
         in if p = 0 then Some s2
         else let (ok1, s3) = pbuf_take_at lw p header 0 s2;
                  (ok2, s4) = (if ok1 then pbuf_take_at lw p payload (length header) s3 else (False, s3))
         in if \<not> ok1 \<or> \<not> ok2 then ldo lw (L_pbuf_free p) s4
         else do {
           (ok, s5) \<leftarrow> netif_input lw netif p (s4\<lparr>lwip_calls := lwip_calls s4 @ [L_input netif p]\<rparr>);
           if \<not> ok then ldo lw (L_pbuf_free p) s5 else Some s5
         })"

end
