(* ===== verification/Halow_Ctrl.thy ===== *)
theory Halow_Ctrl
  imports Halow_Netif
begin

text \<open>
  The first half of the control layer (mm_halow_ctrl.c): morselib's callbacks, the poll, the
  settings pushed to morselib, init and deinit, the country, the access point, and bringing
  the interfaces up and down. Scanning, association, the single settings and the transmit
  path are in \<open>Halow_Wifi\<close>.

  Everything outside the driver is in the record \<open>platform\<close>.
\<close>

record 's platform =
  p_env :: "'s sched_env"
  p_timer :: "ptr \<Rightarrow> ptr \<Rightarrow> 's \<Rightarrow> 's option"
  p_hal :: "'s hal_port"
  p_wlan :: "'s mmwlan"
  p_lwip :: "'s lwip"
  p_heap_alloc :: "u32 \<Rightarrow> ptr"

type_synonym ('l, 'a) pf = "('l, 'a) halow_st_scheme platform"

text \<open>A control trace line, printed when the trace flag is set.\<close>

definition trace_printf :: "string \<Rightarrow> ('l, 'a) halow_st_scheme \<Rightarrow> ('l, 'a) halow_st_scheme" where
  "trace_printf line s =
     (if and (trace_flags (mm_halow_state s)) MM_HALOW_TRACE_ASYNC_EV \<noteq> 0 then emit (Ev_print line) s else s)"

section \<open>morselib callbacks\<close>

definition mm_halow_sta_status_cb ::
    "mmwlan_sta_state \<Rightarrow> ('l, 'a) halow_st_scheme \<Rightarrow> ('l, 'a) halow_st_scheme" where
  "mm_halow_sta_status_cb sta_state s = trace_printf ''sta'' (upd_self (\<lambda>self. self\<lparr>link_status :=
     (case sta_state of MMWLAN_STA_CONNECTING \<Rightarrow> MM_HALOW_LINK_JOIN
      | MMWLAN_STA_CONNECTED \<Rightarrow> MM_HALOW_LINK_NOIP
      | _ \<Rightarrow> MM_HALOW_LINK_DOWN)\<rparr>) s)"

definition mm_halow_fatal_error_cb ::
    "('l, 'a) pf \<Rightarrow> ('l, 'a) halow_st_scheme \<Rightarrow> ('l, 'a) halow_st_scheme option" where
  "mm_halow_fatal_error_cb pf s =
     map_option (trace_printf ''fatal error'')
       (mm_halow_cb_tcpip_set_link_down (p_lwip pf) MM_HALOW_ITF_STA
          (upd_self (\<lambda>self. self\<lparr>booted := False, scan_active := False, link_status := MM_HALOW_LINK_FAIL\<rparr>) s))"

definition mm_halow_link_state_cb ::
    "('l, 'a) pf \<Rightarrow> bool \<Rightarrow> ('l, 'a) halow_st_scheme \<Rightarrow> ('l, 'a) halow_st_scheme option" where
  "mm_halow_link_state_cb pf up s =
     map_option (trace_printf ''link'')
       (if up then mm_halow_cb_tcpip_set_link_up (p_lwip pf) MM_HALOW_ITF_STA s
        else mm_halow_cb_tcpip_set_link_down (p_lwip pf) MM_HALOW_ITF_STA s)"

definition mm_halow_rx_cb ::
    "('l, 'a) pf \<Rightarrow> u8 list \<Rightarrow> u8 list \<Rightarrow> ('l, 'a) halow_st_scheme \<Rightarrow> ('l, 'a) halow_st_scheme option" where
  "mm_halow_rx_cb pf header payload s =
     mm_halow_cb_process_ethernet (p_lwip pf) MM_HALOW_ITF_STA header payload s"

section \<open>Poll\<close>

text \<open>Whether a pass could find work; the terms are evaluated up to the first that holds.\<close>

definition poll_idle :: "('l, 'a) pf \<Rightarrow> ('l, 'a) halow_st_scheme \<Rightarrow> (bool \<times> ('l, 'a) halow_st_scheme) option" where
  "poll_idle pf s =
     (if mm_halow_poll_requested s then Some (False, s)
      else let (irq, s1) = mm_halow_hal_irq_pending (p_hal pf) s
           in if irq then Some (False, s1)
              else map_option (\<lambda>timer. (\<not> timer \<and> \<not> mm_halow_sched_pending s1, s1))
                     (mm_halow_osal_timer_pending s1))"

definition mm_halow_poll_func :: "('l, 'a) pf \<Rightarrow> ('l, 'a) halow_st_scheme \<Rightarrow> ('l, 'a) halow_st_scheme option" where
  "mm_halow_poll_func pf s =
     (if \<not> initted (mm_halow_state s) then Some s
      else if mm_halow_sched_task_current s \<noteq> 0 then Some s
      else let (claimed, s1) = mm_halow_sched_claim s
      in if \<not> claimed then Some s1
      else do {
        (idle, s2) \<leftarrow> poll_idle pf s1;
        if idle then Some (mm_halow_hal_irq_rearm (p_hal pf) (mm_halow_sched_release s2))
        else do {
          s3 \<leftarrow> mm_halow_hal_poll_irqs (p_hal pf) (s2\<lparr>mm_halow_poll_requested := False\<rparr>);
          s4 \<leftarrow> mm_halow_osal_timer_poll (p_timer pf) s3;
          s5 \<leftarrow> mm_halow_sched_run (p_env pf) s4;
          Some (mm_halow_hal_irq_rearm (p_hal pf) (mm_halow_sched_release s5))
        }
      })"

section \<open>Settings pushed to morselib\<close>

definition mm_halow_apply_radio ::
    "('l, 'a) pf \<Rightarrow> ('l, 'a) halow_st_scheme \<Rightarrow> ('l, 'a) halow_st_scheme option" where
  "mm_halow_apply_radio pf s = do {
     let w = p_wlan pf;
     s \<leftarrow> vdo w (V_set_ampdu (h_ampdu (mm_halow_state s))) s;
     s \<leftarrow> vdo w (V_set_sgi (h_sgi (mm_halow_state s))) s;
     s \<leftarrow> vdo w (V_set_subbands (h_subbands (mm_halow_state s))) s;
     s \<leftarrow> (if rts_threshold (mm_halow_state s) \<noteq> 0
           then vdo w (V_set_rts_threshold (rts_threshold (mm_halow_state s))) s else Some s);
     s \<leftarrow> (if fragment_threshold (mm_halow_state s) \<noteq> 0
           then vdo w (V_set_fragment_threshold (fragment_threshold (mm_halow_state s))) s else Some s);
     s \<leftarrow> (if listen_interval (mm_halow_state s) \<noteq> 0
           then vdo w (V_set_listen_interval (listen_interval (mm_halow_state s))) s else Some s);
     if health_max_ms (mm_halow_state s) \<noteq> 0
     then vdo w (V_set_health_check (health_min_ms (mm_halow_state s)) (health_max_ms (mm_halow_state s))) s
     else Some s
   }"

definition mm_halow_apply_pm ::
    "('l, 'a) pf \<Rightarrow> ('l, 'a) halow_st_scheme \<Rightarrow> (result \<times> ('l, 'a) halow_st_scheme) option" where
  "mm_halow_apply_pm pf s = do {
     (status, s1) \<leftarrow> vcall (p_wlan pf) (V_set_power_save (h_pm (mm_halow_state s) \<noteq> MM_HALOW_PM_NONE)) s;
     if status \<noteq> MMWLAN_SUCCESS then Some (mm_halow_status_to_errno status, s1)
     else do {
       (status, s2) \<leftarrow> vcall (p_wlan pf) (V_set_dynamic_ps_timeout (ps_timeout_ms (mm_halow_state s1))) s1;
       if status \<noteq> MMWLAN_SUCCESS then Some (mm_halow_status_to_errno status, s2) else Some (Ok, s2)
     }
   }"

section \<open>Init\<close>

definition MM_HALOW_TX_BUF_SIZE :: "('l, 'a) pf \<Rightarrow> u32" where
  "MM_HALOW_TX_BUF_SIZE pf = 1500 + SIZEOF_ETH_HDR (p_lwip pf)"

definition store_mac ::
    "('l, 'a) pf \<Rightarrow> ('l, 'a) halow_st_scheme \<Rightarrow> ('l, 'a) halow_st_scheme option" where
  "store_mac pf s = map_option (\<lambda>(status, mac, s1). upd_self (\<lambda>self. self\<lparr>h_mac := mac\<rparr>) s1)
     (get_vif_mac_addr (p_wlan pf) MMWLAN_VIF_STA (h_mac (mm_halow_state s)) s)"

definition mm_halow_init ::
    "('l, 'a) pf \<Rightarrow> ('l, 'a) halow_st_scheme \<Rightarrow> (result \<times> ('l, 'a) halow_st_scheme) option" where
  "mm_halow_init pf s =
     (if initted (mm_halow_state s) then Some (Ok, s)
      else
        let s1 = upd_self (\<lambda>self. self\<lparr>itf_state := 0, scan_active := False, scan_cache := 0,
                   scan_cache_len := 0, scan_cache_max := 0, ap_sta_count := 0,
                   link_status := MM_HALOW_LINK_DOWN\<rparr>) s;
            (ok, s2) = mm_halow_osal_init (p_heap_alloc pf) s1
        in if \<not> ok then Some (Neg ENOMEM, s2)
           else do {
             (buf, s3) \<leftarrow> mm_halow_osal_malloc (MM_HALOW_TX_BUF_SIZE pf) s2;
             let s4 = s3\<lparr>mm_halow_tx_buf := buf\<rparr>;
             if buf = 0 then Some (Neg ENOMEM, mm_halow_osal_deinit s4)
             else do {
               s5 \<leftarrow> vdo (p_wlan pf) V_init s4;
               (_, s6) \<leftarrow> mm_halow_apply_pm pf s5;
               s7 \<leftarrow> mm_halow_apply_radio pf s6;
               s8 \<leftarrow> vdo (p_wlan pf) V_register_fatal s7;
               s9 \<leftarrow> vdo (p_wlan pf) V_register_link_state s8;
               s10 \<leftarrow> vdo (p_wlan pf) (V_register_rx True) s9;
               s11 \<leftarrow> store_mac pf s10;
               Some (Ok, (upd_self (\<lambda>self. self\<lparr>initted := True\<rparr>) s11)\<lparr>mm_halow_poll := True\<rparr>)
             }
           })"

section \<open>Country and channels\<close>

definition mm_halow_country_supported :: "('l, 'a) pf \<Rightarrow> string \<Rightarrow> bool" where
  "mm_halow_country_supported pf country \<longleftrightarrow> lookup_regulatory_domain (p_wlan pf) country \<noteq> None"

definition mm_halow_set_country ::
    "('l, 'a) pf \<Rightarrow> string \<Rightarrow> ('l, 'a) halow_st_scheme \<Rightarrow> (result \<times> ('l, 'a) halow_st_scheme) option" where
  "mm_halow_set_country pf country s =
     (case lookup_regulatory_domain (p_wlan pf) country of
        None \<Rightarrow> Some (Neg EINVAL, s)
      | Some channels \<Rightarrow> vret (p_wlan pf) (V_set_channel_list channels)
          (upd_self (\<lambda>self. self\<lparr>h_country := take 2 country, h_channels := Some channels\<rparr>) s))"

section \<open>Access point\<close>

definition mm_halow_ap_sta_status_cb :: "('l, 'a) pf \<Rightarrow> u8 list \<Rightarrow> bool \<Rightarrow> mm_halow_t \<Rightarrow> mm_halow_t" where
  "mm_halow_ap_sta_status_cb pf mac authorized self =
     (case List.find (\<lambda>i. ap_stas self i = mac) [0..<unat (ap_sta_count self)] of
        Some i \<Rightarrow>
          if \<not> authorized
          then let count = ap_sta_count self - 1
               in self\<lparr>ap_sta_count := count, ap_stas := (\<lambda>j. if i \<le> j \<and> j < unat count
                         then ap_stas self (Suc j) else ap_stas self j)\<rparr>
          else self
      | None \<Rightarrow>
          if authorized \<and> unat (ap_sta_count self) < MMWLAN_DEFAULT_AP_MAX_STAS (p_wlan pf)
          then self\<lparr>ap_stas := (ap_stas self)(unat (ap_sta_count self) := mac),
                    ap_sta_count := ap_sta_count self + 1\<rparr>
          else self)"

fun ap_channel_from ::
    "u8 \<Rightarrow> mmwlan_s1g_channel option \<Rightarrow> mmwlan_s1g_channel list \<Rightarrow> mmwlan_s1g_channel option" where
  "ap_channel_from num best [] = best"
| "ap_channel_from num best (ch # chs) =
     (if num \<noteq> 0 then if s1g_chan_num ch = num then Some ch else ap_channel_from num best chs
      else if (case best of None \<Rightarrow> True | Some b \<Rightarrow> ch_bw_mhz ch > ch_bw_mhz b)
      then ap_channel_from num (Some ch) chs else ap_channel_from num best chs)"

definition mm_halow_ap_channel :: "mm_halow_t \<Rightarrow> mmwlan_s1g_channel option" where
  "mm_halow_ap_channel self =
     (case h_channels self of None \<Rightarrow> None | Some chs \<Rightarrow> ap_channel_from (ap_chan_num self) None chs)"

definition mm_halow_ap_enable ::
    "('l, 'a) pf \<Rightarrow> ('l, 'a) halow_st_scheme \<Rightarrow> (result \<times> ('l, 'a) halow_st_scheme) option" where
  "mm_halow_ap_enable pf s =
     (let self = mm_halow_state s in
      if h_pm self \<noteq> MM_HALOW_PM_NONE then Some (Neg EPERM, s)
      else if ap_ssid_len self = 0 then Some (Neg EINVAL, s)
      else
        let args = \<lparr>ap_ssid_arg = [], ap_passphrase = [], ap_security_type = 0, ap_pmf_disabled = False,
                    ap_op_class = 0, ap_s1g_chan_num = 0, ap_async_start = False\<rparr>;
            chosen = (if \<not> itf_up self MM_HALOW_ITF_STA then
                        case mm_halow_ap_channel self of None \<Rightarrow> None
                        | Some ch \<Rightarrow> Some (args\<lparr>ap_op_class :=
                             (if s1g_operating_class ch \<noteq> MMWLAN_SKIP_OP_CLASS_CHECK (p_wlan pf)
                              then s1g_operating_class ch else global_operating_class ch),
                             ap_s1g_chan_num := s1g_chan_num ch\<rparr>)
                      else Some args)
        in case chosen of None \<Rightarrow> Some (Neg ENODEV, s)
        | Some args \<Rightarrow>
            let s1 = upd_self (\<lambda>self. self\<lparr>ap_sta_count := 0\<rparr>) s;
                args = args\<lparr>ap_ssid_arg := take (unat (ap_ssid_len self)) (ap_ssid self),
                            ap_security_type := ap_auth self\<rparr>
            in if ap_auth self = MM_HALOW_SEC_SAE \<and> ap_key_len self = 0 then Some (Neg EINVAL, s1)
               else
                 let args = (if ap_auth self = MM_HALOW_SEC_SAE
                             then args\<lparr>ap_passphrase := take (unat (ap_key_len self)) (ap_key self)\<rparr> else args);
                     args = (if ap_auth self = MM_HALOW_SEC_OPEN then args\<lparr>ap_pmf_disabled := True\<rparr> else args)
                 in vret (p_wlan pf) (V_ap_enable (args\<lparr>ap_async_start := True\<rparr>)) s1)"

section \<open>Interface control\<close>

text \<open>The two branches of mm_halow_wifi_set_up, up and down, after its early returns.\<close>

definition boot_transceiver ::
    "('l, 'a) pf \<Rightarrow> ('l, 'a) halow_st_scheme \<Rightarrow> (result \<times> ('l, 'a) halow_st_scheme) option" where
  "boot_transceiver pf s =
     (if booted (mm_halow_state s) then Some (Ok, s)
      else do {
        (ret, s1) \<leftarrow> vret (p_wlan pf) V_boot s;
        if ret \<noteq> Ok then Some (ret, s1)
        else map_option (Pair Ok) (store_mac pf (upd_self (\<lambda>self. self\<lparr>booted := True\<rparr>) s1))
      })"

definition set_up_up ::
    "('l, 'a) pf \<Rightarrow> int \<Rightarrow> string \<Rightarrow> ('l, 'a) halow_st_scheme \<Rightarrow> (result \<times> ('l, 'a) halow_st_scheme) option" where
  "set_up_up pf itf country s = do {
     (ret, s1) \<leftarrow> (if \<not> initted (mm_halow_state s) then mm_halow_init pf s else Some (Ok, s));
     if ret \<noteq> Ok then Some (ret, s1)
     else do {
       (ret, s2) \<leftarrow> mm_halow_set_country pf country s1;
       if ret \<noteq> Ok then Some (ret, s2)
       else do {
         (ret, s3) \<leftarrow> boot_transceiver pf s2;
         if ret \<noteq> Ok then Some (ret, s3)
         else do {
           (ret, s4) \<leftarrow> (if itf = MM_HALOW_ITF_AP then mm_halow_ap_enable pf s3 else Some (Ok, s3));
           if ret \<noteq> Ok then Some (ret, s4)
           else do {
             s5 \<leftarrow> (if \<not> itf_up (mm_halow_state s4) itf
                    then map_option (upd_self (\<lambda>self. self\<lparr>itf_state := or (itf_state self) (itf_bit itf)\<rparr>))
                           (mm_halow_cb_tcpip_init (p_lwip pf) (p_wlan pf) itf s4)
                    else Some s4);
             s6 \<leftarrow> (if itf = MM_HALOW_ITF_AP then mm_halow_cb_tcpip_set_link_up (p_lwip pf) itf s5 else Some s5);
             Some (Ok, s6)
           }
         }
       }
     }
   }"

definition set_up_down ::
    "('l, 'a) pf \<Rightarrow> int \<Rightarrow> ('l, 'a) halow_st_scheme \<Rightarrow> (result \<times> ('l, 'a) halow_st_scheme) option" where
  "set_up_down pf itf s = do {
     s1 \<leftarrow> (if itf = MM_HALOW_ITF_AP then vdo (p_wlan pf) V_ap_disable s
            else map_option (upd_self (\<lambda>self. self\<lparr>link_status := MM_HALOW_LINK_DOWN\<rparr>))
                   (vdo (p_wlan pf) V_sta_disable s));
     s2 \<leftarrow> (if itf_up (mm_halow_state s1) itf
            then do {
              s' \<leftarrow> mm_halow_cb_tcpip_set_link_down (p_lwip pf) itf s1;
              s'' \<leftarrow> mm_halow_cb_tcpip_deinit (p_lwip pf) itf s';
              Some (upd_self (\<lambda>self. self\<lparr>itf_state := and (itf_state self) (not (itf_bit itf))\<rparr>) s'')
            }
            else Some s1);
     if itf_state (mm_halow_state s2) = 0
     then do {
       s3 \<leftarrow> vdo (p_wlan pf) V_shutdown (s2\<lparr>mm_halow_sched_teardown := True\<rparr>);
       Some (Ok, upd_self (\<lambda>self. self\<lparr>booted := False\<rparr>) (s3\<lparr>mm_halow_sched_teardown := False\<rparr>))
     }
     else Some (Ok, s2)
   }"

definition mm_halow_wifi_set_up ::
    "('l, 'a) pf \<Rightarrow> int \<Rightarrow> bool \<Rightarrow> string \<Rightarrow> ('l, 'a) halow_st_scheme \<Rightarrow>
     (result \<times> ('l, 'a) halow_st_scheme) option" where
  "mm_halow_wifi_set_up pf itf up country s =
     (if itf < 0 \<or> itf \<ge> MM_HALOW_ITF_MAX then Some (Neg EINVAL, s)
      else if up \<and> itf_up (mm_halow_state s) itf then Some (Ok, s)
      else if \<not> up \<and> \<not> initted (mm_halow_state s) then Some (Ok, s)
      else if up then set_up_up pf itf country s else set_up_down pf itf s)"

definition mm_halow_deinit :: "('l, 'a) pf \<Rightarrow> ('l, 'a) halow_st_scheme \<Rightarrow> ('l, 'a) halow_st_scheme option" where
  "mm_halow_deinit pf s =
     (if \<not> initted (mm_halow_state s) then Some s
      else if mm_halow_sched_in_callback s then Some s
      else do {
        s1 \<leftarrow> (if itf_up (mm_halow_state s) MM_HALOW_ITF_STA
               then map_option snd (mm_halow_wifi_set_up pf MM_HALOW_ITF_STA False (h_country (mm_halow_state s)) s)
               else Some s);
        s2 \<leftarrow> (if itf_up (mm_halow_state s1) MM_HALOW_ITF_AP
               then map_option snd (mm_halow_wifi_set_up pf MM_HALOW_ITF_AP False (h_country (mm_halow_state s1)) s1)
               else Some s1);
        s3 \<leftarrow> vdo (p_wlan pf) (V_register_rx False) s2;
        s4 \<leftarrow> vdo (p_wlan pf) V_shutdown (s3\<lparr>mm_halow_sched_teardown := True\<rparr>);
        s5 \<leftarrow> vdo (p_wlan pf) V_deinit s4;
        let s6 = upd_self (\<lambda>self. self\<lparr>booted := False\<rparr>) (s5\<lparr>mm_halow_sched_teardown := False\<rparr>);
        let s7 = mm_halow_osal_deinit (mm_halow_sched_deinit (s6\<lparr>mm_halow_poll := False\<rparr>));
        Some (upd_self (\<lambda>self. self\<lparr>scan_cache := 0, scan_cache_len := 0, scan_cache_max := 0,
                 scan_active := False, initted := False, link_status := MM_HALOW_LINK_DOWN\<rparr>)
               (s7\<lparr>mm_halow_tx_buf := 0\<rparr>))
      })"

end
