(* ===== verification/Halow_Wifi.thy ===== *)
theory Halow_Wifi
  imports Halow_Ctrl
begin

text \<open>
  The rest of the control layer (mm_halow_ctrl.c): scanning, association, queries, the
  radio, power and regulatory settings, the access point's configuration, and the transmit
  path with the output function of the lwIP side (mm_halow_lwip.c).
\<close>

section \<open>Scanning\<close>

text \<open>sizeof(mm_halow_ev_scan_result_t) with its alignment.\<close>

definition sizeof_scan_result :: "('l, 'a) pf \<Rightarrow> nat" where
  "sizeof_scan_result pf =
     (let rssi = (1 + MMWLAN_SSID_MAXLEN (p_wlan pf) + MMWLAN_MAC_ADDR_LEN + 1) div 2 * 2;
          freq = (rssi + 2 + 3) div 4 * 4
      in freq + 8)"

definition mm_halow_scan_cache_add :: "mm_halow_ev_scan_result \<Rightarrow> mm_halow_t \<Rightarrow> mm_halow_t" where
  "mm_halow_scan_cache_add res self =
     (if scan_cache self = 0 then self
      else case List.find (\<lambda>i. sr_bssid (scan_results self i) = sr_bssid res) [0..<unat (scan_cache_len self)] of
        Some i \<Rightarrow> self\<lparr>scan_results := (scan_results self)(i := res)\<rparr>
      | None \<Rightarrow>
          if scan_cache_len self < scan_cache_max self
          then self\<lparr>scan_results := (scan_results self)(unat (scan_cache_len self) := res),
                    scan_cache_len := scan_cache_len self + 1\<rparr>
          else self)"

definition mm_halow_freq_to_chan :: "mm_halow_t \<Rightarrow> u32 \<Rightarrow> u8 \<Rightarrow> u8" where
  "mm_halow_freq_to_chan self freq_hz bw_mhz =
     (case h_channels self of None \<Rightarrow> 0
      | Some chs \<Rightarrow>
          case List.find (\<lambda>ch. centre_freq_hz ch = freq_hz \<and> ch_bw_mhz ch = bw_mhz) chs of
            Some ch \<Rightarrow> s1g_chan_num ch | None \<Rightarrow> 0)"

text \<open>A scan result as morselib reports it; its pointers may be null.\<close>

record mmwlan_scan_result =
  r_ssid :: "u8 list option"
  r_ssid_len :: u8
  r_bssid :: "u8 list option"
  r_rssi :: u16
  r_channel_freq_hz :: u32
  r_bw_mhz :: u8
  r_op_bw_mhz :: u8
  r_capability_info :: u16

definition MM_HALOW_CAP_PRIVACY :: u16 where
  "MM_HALOW_CAP_PRIVACY = push_bit 4 1"

definition mm_halow_scan_rx_cb :: "('l, 'a) pf \<Rightarrow> mmwlan_scan_result \<Rightarrow> mm_halow_t \<Rightarrow> mm_halow_t" where
  "mm_halow_scan_rx_cb pf r self =
     (let n = MMWLAN_SSID_MAXLEN (p_wlan pf);
          ssid_len = min (unat (r_ssid_len r)) n
      in mm_halow_scan_cache_add
           \<lparr>sr_ssid_len = of_nat ssid_len,
            sr_ssid = (case r_ssid r of None \<Rightarrow> replicate n 0 | Some b \<Rightarrow> overwrite (replicate n 0) ssid_len b),
            sr_bssid = (case r_bssid r of None \<Rightarrow> replicate MMWLAN_MAC_ADDR_LEN 0
                        | Some b \<Rightarrow> overwrite (replicate MMWLAN_MAC_ADDR_LEN 0) MMWLAN_MAC_ADDR_LEN b),
            sr_rssi = r_rssi r, sr_channel_freq_hz = r_channel_freq_hz r,
            sr_chan_num = mm_halow_freq_to_chan self (r_channel_freq_hz r) (r_bw_mhz r),
            sr_bw_mhz = r_bw_mhz r, sr_op_bw_mhz = r_op_bw_mhz r,
            sr_security = (if and (r_capability_info r) MM_HALOW_CAP_PRIVACY \<noteq> 0
                           then ucast MM_HALOW_SEC_SAE else ucast MM_HALOW_SEC_OPEN)\<rparr> self)"

definition mm_halow_scan_idle_cond :: "('l, 'a) halow_st_scheme \<Rightarrow> bool \<times> ('l, 'a) halow_st_scheme" where
  "mm_halow_scan_idle_cond s = (\<not> scan_active (mm_halow_state s), s)"

definition mm_halow_scan_complete_cb :: "mm_halow_t \<Rightarrow> mm_halow_t" where
  "mm_halow_scan_complete_cb self = self\<lparr>scan_active := False\<rparr>"

definition mm_halow_scan_start_locked ::
    "('l, 'a) pf \<Rightarrow> ('l, 'a) halow_st_scheme \<Rightarrow> (result \<times> ('l, 'a) halow_st_scheme) option" where
  "mm_halow_scan_start_locked pf s = do {
     (status, s1) \<leftarrow> vcall (p_wlan pf) (V_scan_request 110)
        (upd_self (\<lambda>self. self\<lparr>scan_active := True, scan_started_ms := mm_halow_ticks_ms s\<rparr>) s);
     if status \<noteq> MMWLAN_SUCCESS
     then Some (mm_halow_status_to_errno status, upd_self (\<lambda>self. self\<lparr>scan_active := False\<rparr>) s1)
     else Some (Ok, s1)
   }"

text \<open>The results copied out, up to \<open>max\<close> of them.\<close>

definition mm_halow_wifi_scan_cached ::
    "('l, 'a) pf \<Rightarrow> nat \<Rightarrow> ('l, 'a) halow_st_scheme \<Rightarrow>
     (mm_halow_ev_scan_result list \<times> ('l, 'a) halow_st_scheme) option" where
  "mm_halow_wifi_scan_cached pf mx s =
     (if link_status (mm_halow_state s) \<noteq> MM_HALOW_LINK_DOWN then Some ([], s)
      else do {
        (ok, s1) \<leftarrow> (if scan_cache (mm_halow_state s) = 0
          then do {
            (cache, s') \<leftarrow> mm_halow_osal_malloc (of_nat (unat MM_HALOW_SCAN_CACHE_MAX * sizeof_scan_result pf)) s;
            let s'' = upd_self (\<lambda>self. self\<lparr>scan_cache := cache\<rparr>) s';
            Some (if cache = 0 then (False, s'')
                  else (True, upd_self (\<lambda>self. self\<lparr>scan_cache_max := MM_HALOW_SCAN_CACHE_MAX\<rparr>) s''))
          }
          else Some (True, s));
        if \<not> ok then Some ([], s1)
        else do {
          (ok, s2) \<leftarrow> (if \<not> scan_active (mm_halow_state s1)
            then map_option (\<lambda>(ret, s'). (ret = Ok, s'))
                   (mm_halow_scan_start_locked pf (upd_self (\<lambda>self. self\<lparr>scan_cache_len := 0\<rparr>) s1))
            else Some (True, s1));
          if \<not> ok then Some ([], s2)
          else do {
            (_, s3) \<leftarrow> mm_halow_sched_wait (p_env pf) mm_halow_scan_idle_cond 30000 s2;
            Some (atomically (\<lambda>s. (map (scan_results (mm_halow_state s))
                     [0..<min (unat (scan_cache_len (mm_halow_state s))) mx], s)) s3)
          }
        }
      })"

section \<open>Association\<close>

definition mm_halow_wifi_join ::
    "('l, 'a) pf \<Rightarrow> u8 list \<Rightarrow> u8 list \<Rightarrow> u32 \<Rightarrow> u8 list option \<Rightarrow> ('l, 'a) halow_st_scheme \<Rightarrow>
     (result \<times> ('l, 'a) halow_st_scheme) option" where
  "mm_halow_wifi_join pf ssid key auth_type bssid s =
     (if length ssid = 0 \<or> length ssid > MMWLAN_SSID_MAXLEN (p_wlan pf) then Some (Neg EINVAL, s)
      else if length key > MMWLAN_PASSPHRASE_MAXLEN (p_wlan pf) then Some (Neg EINVAL, s)
      else if auth_type = MM_HALOW_SEC_SAE \<and> length key = 0 then Some (Neg EINVAL, s)
      else
        let s1 = upd_self (\<lambda>self. self\<lparr>sta_ssid := overwrite (sta_ssid self) (length ssid) ssid,
                   sta_ssid_len := of_nat (length ssid)\<rparr>) s;
            args = \<lparr>sta_ssid_arg = ssid, sta_passphrase = key, sta_security_type = auth_type,
                    sta_pmf_disabled = (auth_type = MM_HALOW_SEC_OPEN),
                    sta_bssid_arg = map_option (take MMWLAN_MAC_ADDR_LEN) bssid,
                    scan_interval_base_s = 2, scan_interval_limit_s = 10\<rparr>;
            s2 = upd_self (\<lambda>self. self\<lparr>link_status := MM_HALOW_LINK_JOIN\<rparr>) s1
        in do {
          s3 \<leftarrow> (if scan_active (mm_halow_state s2)
                 then do {
                   s' \<leftarrow> vdo (p_wlan pf) V_scan_abort s2;
                   map_option snd (mm_halow_sched_wait (p_env pf) mm_halow_scan_idle_cond 5000 s')
                 }
                 else Some s2);
          (status, s4) \<leftarrow> vcall (p_wlan pf) (V_sta_enable args) s3;
          let s5 = trace_printf ''sta_enable'' s4;
          if status \<noteq> MMWLAN_SUCCESS
          then Some (mm_halow_status_to_errno status, upd_self (\<lambda>self. self\<lparr>link_status := MM_HALOW_LINK_FAIL\<rparr>) s5)
          else Some (Ok, s5)
        })"

definition mm_halow_wifi_leave ::
    "('l, 'a) pf \<Rightarrow> int \<Rightarrow> ('l, 'a) halow_st_scheme \<Rightarrow> (result \<times> ('l, 'a) halow_st_scheme) option" where
  "mm_halow_wifi_leave pf itf s =
     (if itf = MM_HALOW_ITF_AP then vret (p_wlan pf) V_ap_disable s
      else vret (p_wlan pf) V_sta_disable (upd_self (\<lambda>self. self\<lparr>link_status := MM_HALOW_LINK_DOWN\<rparr>) s))"

section \<open>Queries\<close>

definition mm_halow_wifi_get_bssid ::
    "('l, 'a) pf \<Rightarrow> u8 list \<Rightarrow> ('l, 'a) halow_st_scheme \<Rightarrow> (result \<times> u8 list \<times> ('l, 'a) halow_st_scheme) option" where
  "mm_halow_wifi_get_bssid pf bssid s =
     map_option (\<lambda>(status, b, s1). (mm_halow_status_to_errno status, b, s1)) (get_bssid (p_wlan pf) bssid s)"

definition mm_halow_wifi_get_rssi ::
    "('l, 'a) pf \<Rightarrow> ('l, 'a) halow_st_scheme \<Rightarrow> (result \<times> int \<times> ('l, 'a) halow_st_scheme) option" where
  "mm_halow_wifi_get_rssi pf s = map_option (Pair Ok) (get_rssi (p_wlan pf) s)"

text \<open>The two results are left alone on failure: None.\<close>

definition mm_halow_wifi_get_channel ::
    "('l, 'a) pf \<Rightarrow> int \<Rightarrow> ('l, 'a) halow_st_scheme \<Rightarrow>
     (result \<times> (u16 \<times> u8) option \<times> ('l, 'a) halow_st_scheme) option" where
  "mm_halow_wifi_get_channel pf itf s = do {
     (status, chan, bw, s1) \<leftarrow> get_vif_channel_info (p_wlan pf)
        (if itf = MM_HALOW_ITF_AP then MMWLAN_VIF_AP else MMWLAN_VIF_STA) s;
     Some (if status \<noteq> MMWLAN_SUCCESS then (mm_halow_status_to_errno status, None, s1)
           else (Ok, Some (chan, bw), s1))
   }"

definition mm_halow_wifi_get_duty_cycle ::
    "('l, 'a) pf \<Rightarrow> ('l, 'a) halow_st_scheme \<Rightarrow> (result \<times> u32 list \<times> ('l, 'a) halow_st_scheme) option" where
  "mm_halow_wifi_get_duty_cycle pf s =
     (if \<not> booted (mm_halow_state s) then Some (Neg ENODEV, [], s)
      else map_option (\<lambda>(status, d, s1). (mm_halow_status_to_errno status, d, s1)) (get_duty_cycle_stats (p_wlan pf) s))"

definition mm_halow_wifi_get_rc_stats ::
    "('l, 'a) pf \<Rightarrow> ptr \<Rightarrow> ('l, 'a) halow_st_scheme \<Rightarrow> (result \<times> ptr \<times> ('l, 'a) halow_st_scheme) option" where
  "mm_halow_wifi_get_rc_stats pf stats s =
     (if \<not> booted (mm_halow_state s) then Some (Neg ENODEV, stats, s)
      else map_option (Pair Ok) (get_rc_stats (p_wlan pf) s))"

definition mm_halow_wifi_free_rc_stats ::
    "('l, 'a) pf \<Rightarrow> ptr \<Rightarrow> ('l, 'a) halow_st_scheme \<Rightarrow> ('l, 'a) halow_st_scheme option" where
  "mm_halow_wifi_free_rc_stats pf stats s = free_rc_stats (p_wlan pf) stats s"

definition mm_halow_wifi_get_version ::
    "('l, 'a) pf \<Rightarrow> ('l, 'a) halow_st_scheme \<Rightarrow> (result \<times> string \<times> ('l, 'a) halow_st_scheme) option" where
  "mm_halow_wifi_get_version pf s =
     (if \<not> booted (mm_halow_state s) then Some (Neg ENODEV, [], s)
      else map_option (\<lambda>(status, v, s1). (mm_halow_status_to_errno status, v, s1)) (get_version (p_wlan pf) s))"

section \<open>Power and radio settings\<close>

definition mm_halow_wifi_pm ::
    "('l, 'a) pf \<Rightarrow> u32 \<Rightarrow> ('l, 'a) halow_st_scheme \<Rightarrow> (result \<times> ('l, 'a) halow_st_scheme) option" where
  "mm_halow_wifi_pm pf pm s =
     (if pm \<noteq> MM_HALOW_PM_NONE \<and> itf_up (mm_halow_state s) MM_HALOW_ITF_AP then Some (Neg EPERM, s)
      else
        let prev = h_pm (mm_halow_state s); s1 = upd_self (\<lambda>self. self\<lparr>h_pm := pm\<rparr>) s
        in if booted (mm_halow_state s1)
           then do {
             (ret, s2) \<leftarrow> mm_halow_apply_pm pf s1;
             if ret \<noteq> Ok then Some (ret, upd_self (\<lambda>self. self\<lparr>h_pm := prev\<rparr>) s2) else Some (Ok, s2)
           }
           else Some (Ok, s1))"

text \<open>The response is written, and its length set, on success or a rejected command.\<close>

definition mm_halow_wifi_ate_command ::
    "('l, 'a) pf \<Rightarrow> u8 list \<Rightarrow> u32 \<Rightarrow> ('l, 'a) halow_st_scheme \<Rightarrow>
     (result \<times> (u8 list \<times> u32) option \<times> ('l, 'a) halow_st_scheme) option" where
  "mm_halow_wifi_ate_command pf cmd rsp_len s =
     (if \<not> booted (mm_halow_state s) then Some (Neg ENODEV, None, s)
      else do {
        (status, rsp, len, s1) \<leftarrow> ate_execute_command (p_wlan pf) cmd rsp_len s;
        Some (if status \<noteq> MMWLAN_SUCCESS \<and> status \<noteq> MMWLAN_COMMAND_ERROR
              then (mm_halow_status_to_errno status, None, s1) else (Ok, Some (rsp, len), s1))
      })"

definition mm_halow_wifi_fixed_rate ::
    "('l, 'a) pf \<Rightarrow> int \<Rightarrow> int \<Rightarrow> int \<Rightarrow> ('l, 'a) halow_st_scheme \<Rightarrow> (result \<times> ('l, 'a) halow_st_scheme) option" where
  "mm_halow_wifi_fixed_rate pf mcs bw_mhz gi s =
     (let w = p_wlan pf in
      if \<not> booted (mm_halow_state s) then Some (Neg ENODEV, s)
      else if mcs < MMWLAN_MCS_NONE w \<or> mcs > MMWLAN_MCS_MAX w \<or> gi < MMWLAN_GI_NONE w \<or> gi > MMWLAN_GI_MAX w
      then Some (Neg EINVAL, s)
      else if bw_mhz \<notin> set (MMWLAN_BW w) then Some (Neg EINVAL, s)
      else vret w (V_override_rate_control mcs bw_mhz gi) s)"

datatype radio_setting = MM_HALOW_RADIO_AMPDU | MM_HALOW_RADIO_SGI | MM_HALOW_RADIO_SUBBANDS
  | MM_HALOW_RADIO_RTS | MM_HALOW_RADIO_FRAG | MM_HALOW_RADIO_LISTEN | MM_HALOW_RADIO_WNM_PD
  | MM_HALOW_RADIO_TXPOWER | MM_HALOW_RADIO_OTHER int

text \<open>What is stored, and the call that is made, if any.\<close>

fun radio_store :: "radio_setting \<Rightarrow> u32 \<Rightarrow> mm_halow_t \<Rightarrow> mm_halow_t" where
  "radio_store MM_HALOW_RADIO_AMPDU v self = self\<lparr>h_ampdu := (v \<noteq> 0)\<rparr>"
| "radio_store MM_HALOW_RADIO_SGI v self = self\<lparr>h_sgi := (v \<noteq> 0)\<rparr>"
| "radio_store MM_HALOW_RADIO_SUBBANDS v self = self\<lparr>h_subbands := (v \<noteq> 0)\<rparr>"
| "radio_store MM_HALOW_RADIO_RTS v self = self\<lparr>rts_threshold := v\<rparr>"
| "radio_store MM_HALOW_RADIO_FRAG v self = self\<lparr>fragment_threshold := v\<rparr>"
| "radio_store MM_HALOW_RADIO_LISTEN v self = self\<lparr>listen_interval := ucast v\<rparr>"
| "radio_store MM_HALOW_RADIO_WNM_PD v self = self\<lparr>wnm_powerdown := (v \<noteq> 0)\<rparr>"
| "radio_store MM_HALOW_RADIO_TXPOWER v self = self\<lparr>h_txpower := ucast v\<rparr>"
| "radio_store (MM_HALOW_RADIO_OTHER _) v self = self"

fun radio_push :: "bool \<Rightarrow> bool \<Rightarrow> radio_setting \<Rightarrow> u32 \<Rightarrow> vendor_call option" where
  "radio_push idle boot MM_HALOW_RADIO_AMPDU v = (if idle then Some (V_set_ampdu (v \<noteq> 0)) else None)"
| "radio_push idle boot MM_HALOW_RADIO_SGI v = (if idle then Some (V_set_sgi (v \<noteq> 0)) else None)"
| "radio_push idle boot MM_HALOW_RADIO_SUBBANDS v = (if idle then Some (V_set_subbands (v \<noteq> 0)) else None)"
| "radio_push idle boot MM_HALOW_RADIO_RTS v = (if boot then Some (V_set_rts_threshold v) else None)"
| "radio_push idle boot MM_HALOW_RADIO_FRAG v = (if boot then Some (V_set_fragment_threshold v) else None)"
| "radio_push idle boot MM_HALOW_RADIO_LISTEN v = (if idle then Some (V_set_listen_interval (ucast v)) else None)"
| "radio_push idle boot MM_HALOW_RADIO_WNM_PD v = None"
| "radio_push idle boot MM_HALOW_RADIO_TXPOWER v = (if boot then Some (V_override_max_tx_power (ucast v)) else None)"
| "radio_push idle boot (MM_HALOW_RADIO_OTHER _) v = None"

definition mm_halow_wifi_set_radio ::
    "('l, 'a) pf \<Rightarrow> radio_setting \<Rightarrow> u32 \<Rightarrow> ('l, 'a) halow_st_scheme \<Rightarrow>
     (result \<times> ('l, 'a) halow_st_scheme) option" where
  "mm_halow_wifi_set_radio pf what v s =
     (let boot = booted (mm_halow_state s);
          idle = (boot \<and> link_status (mm_halow_state s) = MM_HALOW_LINK_DOWN)
      in case what of MM_HALOW_RADIO_OTHER _ \<Rightarrow> Some (Neg EINVAL, s)
      | _ \<Rightarrow> (case radio_push idle boot what v of
                None \<Rightarrow> Some (Ok, upd_self (radio_store what v) s)
              | Some c \<Rightarrow> vret (p_wlan pf) c (upd_self (radio_store what v) s)))"

fun mm_halow_wifi_get_radio :: "mm_halow_t \<Rightarrow> radio_setting \<Rightarrow> u32" where
  "mm_halow_wifi_get_radio self MM_HALOW_RADIO_AMPDU = of_bool (h_ampdu self)"
| "mm_halow_wifi_get_radio self MM_HALOW_RADIO_SGI = of_bool (h_sgi self)"
| "mm_halow_wifi_get_radio self MM_HALOW_RADIO_SUBBANDS = of_bool (h_subbands self)"
| "mm_halow_wifi_get_radio self MM_HALOW_RADIO_RTS = rts_threshold self"
| "mm_halow_wifi_get_radio self MM_HALOW_RADIO_FRAG = fragment_threshold self"
| "mm_halow_wifi_get_radio self MM_HALOW_RADIO_WNM_PD = of_bool (wnm_powerdown self)"
| "mm_halow_wifi_get_radio self MM_HALOW_RADIO_TXPOWER = ucast (h_txpower self)"
| "mm_halow_wifi_get_radio self _ = ucast (listen_interval self)"

definition mm_halow_wifi_set_duty_cycle ::
    "('l, 'a) pf \<Rightarrow> int \<Rightarrow> ('l, 'a) halow_st_scheme \<Rightarrow> (result \<times> ('l, 'a) halow_st_scheme) option" where
  "mm_halow_wifi_set_duty_cycle pf mode s =
     (let s1 = upd_self (\<lambda>self. self\<lparr>duty_cycle_mode := word_of_int mode\<rparr>) s
      in if \<not> booted (mm_halow_state s1) then Some (Neg ENODEV, s1)
         else if mode \<notin> set (MMWLAN_DUTY_CYCLE_MODES (p_wlan pf)) then Some (Neg EINVAL, s1)
         else vret (p_wlan pf) (V_set_duty_cycle_mode mode) s1)"

definition mm_halow_wifi_twt ::
    "('l, 'a) pf \<Rightarrow> u64 \<Rightarrow> u32 \<Rightarrow> int \<Rightarrow> ('l, 'a) halow_st_scheme \<Rightarrow> (result \<times> ('l, 'a) halow_st_scheme) option" where
  "mm_halow_wifi_twt pf interval_us duration_us setup s =
     (let w = p_wlan pf in
      if \<not> booted (mm_halow_state s) then Some (Neg ENODEV, s)
      else if link_status (mm_halow_state s) \<noteq> MM_HALOW_LINK_DOWN then Some (Neg EPERM, s)
      else if setup < MMWLAN_TWT_SETUP_REQUEST w \<or> setup > MMWLAN_TWT_SETUP_DEMAND w then Some (Neg EINVAL, s)
      else if interval_us = 0 \<or> duration_us = 0 \<or> ucast duration_us > interval_us then Some (Neg EINVAL, s)
      else vret w (V_twt_add interval_us duration_us setup) s)"

definition mm_halow_wifi_set_health_check ::
    "('l, 'a) pf \<Rightarrow> u32 \<Rightarrow> u32 \<Rightarrow> ('l, 'a) halow_st_scheme \<Rightarrow> (result \<times> ('l, 'a) halow_st_scheme) option" where
  "mm_halow_wifi_set_health_check pf min_ms max_ms s =
     (if max_ms \<noteq> 0 \<and> min_ms > max_ms then Some (Neg EINVAL, s)
      else
        let s1 = upd_self (\<lambda>self. self\<lparr>health_min_ms := min_ms, health_max_ms := max_ms\<rparr>) s
        in if booted (mm_halow_state s1) then vret (p_wlan pf) (V_set_health_check min_ms max_ms) s1
           else Some (Ok, s1))"

definition mm_halow_wifi_wnm_sleep ::
    "('l, 'a) pf \<Rightarrow> bool \<Rightarrow> bool \<Rightarrow> ('l, 'a) halow_st_scheme \<Rightarrow> (result \<times> ('l, 'a) halow_st_scheme) option" where
  "mm_halow_wifi_wnm_sleep pf en powerdown s =
     (if en \<and> h_pm (mm_halow_state s) = MM_HALOW_PM_NONE then Some (Neg EPERM, s)
      else if en \<and> link_status (mm_halow_state s) \<noteq> MM_HALOW_LINK_UP
                \<and> link_status (mm_halow_state s) \<noteq> MM_HALOW_LINK_NOIP then Some (Neg ENOTCONN, s)
      else vret (p_wlan pf) (V_set_wnm_sleep en powerdown) s)"

definition mm_halow_wifi_set_ps_timeout ::
    "('l, 'a) pf \<Rightarrow> u32 \<Rightarrow> ('l, 'a) halow_st_scheme \<Rightarrow> (result \<times> ('l, 'a) halow_st_scheme) option" where
  "mm_halow_wifi_set_ps_timeout pf ms s =
     (if ms = 0 then Some (Neg EINVAL, s)
      else do {
        (status, s1) \<leftarrow> (if booted (mm_halow_state s) then vcall (p_wlan pf) (V_set_dynamic_ps_timeout ms) s
                         else Some (MMWLAN_SUCCESS, s));
        if status \<noteq> MMWLAN_SUCCESS then Some (mm_halow_status_to_errno status, s1)
        else Some (Ok, upd_self (\<lambda>self. self\<lparr>ps_timeout_ms := ms\<rparr>) s1)
      })"

definition mm_halow_wifi_get_ps_timeout :: "mm_halow_t \<Rightarrow> result \<times> u32" where
  "mm_halow_wifi_get_ps_timeout self = (Ok, ps_timeout_ms self)"

definition mm_halow_wifi_get_pm :: "mm_halow_t \<Rightarrow> result \<times> u32" where
  "mm_halow_wifi_get_pm self = (Ok, h_pm self)"

section \<open>Access point configuration\<close>

definition mm_halow_wifi_ap_set_ssid :: "('l, 'a) pf \<Rightarrow> u8 list \<Rightarrow> mm_halow_t \<Rightarrow> mm_halow_t" where
  "mm_halow_wifi_ap_set_ssid pf buf self =
     (let n = min (length buf) (MMWLAN_SSID_MAXLEN (p_wlan pf))
      in self\<lparr>ap_ssid_len := of_nat n, ap_ssid := overwrite (ap_ssid self) n buf\<rparr>)"

definition mm_halow_wifi_ap_set_password :: "('l, 'a) pf \<Rightarrow> u8 list \<Rightarrow> mm_halow_t \<Rightarrow> mm_halow_t" where
  "mm_halow_wifi_ap_set_password pf buf self =
     (let n = min (length buf) (MMWLAN_PASSPHRASE_MAXLEN (p_wlan pf))
      in self\<lparr>ap_key_len := of_nat n, ap_key := overwrite (ap_key self) n buf\<rparr>)"

definition mm_halow_wifi_ap_set_auth :: "u32 \<Rightarrow> mm_halow_t \<Rightarrow> mm_halow_t" where
  "mm_halow_wifi_ap_set_auth auth self = self\<lparr>ap_auth := auth\<rparr>"

definition mm_halow_wifi_ap_get_ssid :: "mm_halow_t \<Rightarrow> u8 list" where
  "mm_halow_wifi_ap_get_ssid self = take (unat (ap_ssid_len self)) (ap_ssid self)"

definition mm_halow_wifi_ap_get_auth :: "mm_halow_t \<Rightarrow> u32" where
  "mm_halow_wifi_ap_get_auth self = ap_auth self"

text \<open>The stations, as many as fit; the returned list has the returned count.\<close>

definition mm_halow_wifi_ap_get_stas ::
    "int \<Rightarrow> ('l, 'a) halow_st_scheme \<Rightarrow> u8 list list \<times> ('l, 'a) halow_st_scheme" where
  "mm_halow_wifi_ap_get_stas num_stas s = atomically (\<lambda>s.
     (map (ap_stas (mm_halow_state s))
        [0..<nat (min num_stas (int (unat (ap_sta_count (mm_halow_state s)))))], s)) s"

definition mm_halow_wifi_ap_set_channel :: "u8 \<Rightarrow> mm_halow_t \<Rightarrow> mm_halow_t" where
  "mm_halow_wifi_ap_set_channel chan_num self = self\<lparr>ap_chan_num := chan_num\<rparr>"

section \<open>Datapath\<close>

text \<open>The loop that drives the driver until the transmit path is ready or 250 ms have gone by.\<close>

partial_function (option) tx_ready_loop ::
    "('l, 'a) pf \<Rightarrow> u32 \<Rightarrow> ('l, 'a) halow_st_scheme \<Rightarrow> (bool \<times> ('l, 'a) halow_st_scheme) option" where
  "tx_ready_loop pf start s = Option.bind (vcall (p_wlan pf) (V_tx_wait_until_ready 0) s) (\<lambda>r.
     if fst r = MMWLAN_SUCCESS then Some (True, snd r)
     else if mm_halow_ticks_ms (snd r) - start \<ge> 250 then Some (False, snd r)
     else Option.bind (mm_halow_poll_func pf (snd r)) (tx_ready_loop pf start))"

definition tx_ready :: "('l, 'a) pf \<Rightarrow> ('l, 'a) halow_st_scheme \<Rightarrow> (bool \<times> ('l, 'a) halow_st_scheme) option" where
  "tx_ready pf s =
     (if mm_halow_sched_task_current s = 0
      then map_option (\<lambda>(ready, s1). (ready, upd_self (\<lambda>self. self\<lparr>rx_deferred := False\<rparr>) s1))
             (tx_ready_loop pf (mm_halow_ticks_ms s) (upd_self (\<lambda>self. self\<lparr>rx_deferred := True\<rparr>) s))
      else map_option (\<lambda>(status, s1). (status = MMWLAN_SUCCESS, s1))
             (vcall (p_wlan pf) (V_tx_wait_until_ready 0) s))"

definition mm_halow_send_ethernet ::
    "('l, 'a) pf \<Rightarrow> int \<Rightarrow> u32 \<Rightarrow> ptr \<Rightarrow> bool \<Rightarrow> ('l, 'a) halow_st_scheme \<Rightarrow>
     (result \<times> ('l, 'a) halow_st_scheme) option" where
  "mm_halow_send_ethernet pf itf len buf is_pbuf s =
     (if len > MM_HALOW_TX_BUF_SIZE pf \<or> mm_halow_tx_buf s = 0 then Some (Neg EINVAL, s)
      else do {
        (ready, s1) \<leftarrow> tx_ready pf s;
        if \<not> ready then Some (Neg EAGAIN, s1)
        else do {
          let (dat, s2) = (if is_pbuf
             then if pbuf_next (p_lwip pf) buf s1 = 0 then (pbuf_payload (p_lwip pf) buf s1, s1)
                  else (mm_halow_tx_buf s1, s1\<lparr>bytes := store_bytes (mm_halow_tx_buf s1)
                          (pbuf_copy_partial (p_lwip pf) buf (unat len) s1) (bytes s1)\<rparr>)
             else (buf, s1));
          (pkt, s3) \<leftarrow> alloc_mmpkt_for_tx (p_wlan pf) len s2;
          if pkt = 0 then Some (Neg EAGAIN, s3)
          else do {
            (status, s4) \<leftarrow> vcall (p_wlan pf) (V_tx_pkt pkt)
               (pkt_append_data (p_wlan pf) pkt (load_bytes dat (unat len) (bytes s3)) s3);
            if status \<noteq> MMWLAN_SUCCESS then Some (mm_halow_status_to_errno status, s4)
            else Some (Ok, mm_halow_request_poll s4)
          }
        }
      })"

datatype err_t = ERR_OK | ERR_IF

definition mm_halow_netif_output ::
    "('l, 'a) pf \<Rightarrow> nat \<Rightarrow> ptr \<Rightarrow> u32 \<Rightarrow> ('l, 'a) halow_st_scheme \<Rightarrow> (err_t \<times> ('l, 'a) halow_st_scheme) option" where
  "mm_halow_netif_output pf netif p tot_len s =
     (let itf = name_itf (netif_name (netifs s netif));
          s1 = (if and (trace_flags (mm_halow_state s)) MM_HALOW_TRACE_ETH_TX \<noteq> 0 then emit (Ev_print ''txf'') s else s)
      in map_option (\<lambda>(ret, s2). (if ret = Neg EAGAIN then ERR_OK else if ret \<noteq> Ok then ERR_IF else ERR_OK, s2))
           (mm_halow_send_ethernet pf itf tot_len p True s1))"

end
