(* ===== verification/Halow_Tables.thy ===== *)
theory Halow_Tables
  imports Halow_Wifi
begin

text \<open>
  The two tables the control layer keeps on behalf of morselib, which has no enumeration
  of its own: the results of the current scan, keyed by BSSID, and the stations of the
  access point. Both are arrays with a count; both are shown to refine an operation on a
  list, and whole runs of reports are then characterised on the lists.
\<close>

section \<open>Finding an index\<close>

lemma find_upt_None:
  "List.find P [0..<n] = None \<longleftrightarrow> (\<forall>i < n. \<not> P i)"
  by (auto simp: find_None_iff)

lemma find_upt_Some:
  "List.find P [0..<n] = Some i \<Longrightarrow> i < n \<and> P i"
  by (auto simp: find_Some_iff)

lemma unat_succ8: "unat c < n \<Longrightarrow> n \<le> 255 \<Longrightarrow> unat (c + 1) = Suc (unat (c :: u8))"
  by (simp add: unat_plus_if_size word_size)

section \<open>The scan cache\<close>

definition cache_of :: "mm_halow_t \<Rightarrow> mm_halow_ev_scan_result list" where
  "cache_of self = map (scan_results self) [0..<unat (scan_cache_len self)]"

text \<open>The specification: replace the entry with the same BSSID, or append while there is room.\<close>

definition cache_insert ::
    "nat \<Rightarrow> mm_halow_ev_scan_result \<Rightarrow> mm_halow_ev_scan_result list \<Rightarrow> mm_halow_ev_scan_result list" where
  "cache_insert n r rs =
     (if sr_bssid r \<in> sr_bssid ` set rs then map (\<lambda>x. if sr_bssid x = sr_bssid r then r else x) rs
      else if length rs < n then rs @ [r] else rs)"

text \<open>The keys of a list in the order of their first appearance.\<close>

definition first_seen :: "'a list \<Rightarrow> 'a list" where
  "first_seen xs = rev (remdups (rev xs))"

lemma first_seen_Nil [simp]: "first_seen [] = []"
  by (simp add: first_seen_def)

lemma first_seen_snoc [simp]:
  "first_seen (xs @ [x]) = (if x \<in> set xs then first_seen xs else first_seen xs @ [x])"
  by (simp add: first_seen_def)

lemma set_first_seen [simp]: "set (first_seen xs) = set xs"
  by (simp add: first_seen_def)

lemma distinct_first_seen [simp]: "distinct (first_seen xs)"
  by (simp add: first_seen_def)

text \<open>A whole scan: the latest report of each of the first \<open>n\<close> networks seen.\<close>

definition scan_table ::
    "nat \<Rightarrow> mm_halow_ev_scan_result list \<Rightarrow> mm_halow_ev_scan_result list" where
  "scan_table n ys = map (\<lambda>k. last (filter (\<lambda>r. sr_bssid r = k) ys)) (take n (first_seen (map sr_bssid ys)))"

lemma last_report_key:
  "k \<in> sr_bssid ` set ys \<Longrightarrow> sr_bssid (last (filter (\<lambda>r. sr_bssid r = k) ys)) = k"
proof -
  assume "k \<in> sr_bssid ` set ys"
  then have "filter (\<lambda>r. sr_bssid r = k) ys \<noteq> []" by (auto simp: filter_empty_conv)
  from last_in_set [OF this] show ?thesis by simp
qed

lemma scan_table_keys: "map sr_bssid (scan_table n ys) = take n (first_seen (map sr_bssid ys))"
proof -
  have "\<And>k. k \<in> set (take n (first_seen (map sr_bssid ys))) \<Longrightarrow> k \<in> sr_bssid ` set ys"
    by (auto dest: in_set_takeD)
  then show ?thesis by (simp add: scan_table_def comp_def last_report_key map_idI)
qed

lemma scan_table_snoc: "scan_table n (ys @ [y]) = cache_insert n y (scan_table n ys)"
proof -
  let ?ks = "take n (first_seen (map sr_bssid ys))"
  have img: "sr_bssid ` set (scan_table n ys) = set ?ks"
    by (metis scan_table_keys set_map)
  have len: "length (scan_table n ys) = length ?ks" by (simp add: scan_table_def)
  show ?thesis
  proof (cases "sr_bssid y \<in> sr_bssid ` set ys")
    case seen: True
    show ?thesis
    proof (cases "sr_bssid y \<in> set ?ks")
      case True
      have keys: "\<And>k. k \<in> set ?ks \<Longrightarrow> sr_bssid (last (filter (\<lambda>r. sr_bssid r = k) ys)) = k"
        by (drule in_set_takeD, rule last_report_key, simp)
      have "cache_insert n y (scan_table n ys)
          = map (\<lambda>x. if sr_bssid x = sr_bssid y then y else x) (scan_table n ys)"
        using True by (simp only: cache_insert_def img if_True)
      also have "\<dots> = map (\<lambda>k. last (filter (\<lambda>r. sr_bssid r = k) (ys @ [y]))) ?ks"
        by (auto simp: scan_table_def keys)
      finally show ?thesis using seen by (simp add: scan_table_def)
    next
      case False
      then have "\<not> length (first_seen (map sr_bssid ys)) \<le> n" using seen by auto
      then have "cache_insert n y (scan_table n ys) = scan_table n ys"
        using False by (simp add: cache_insert_def img len)
      also have "\<dots> = map (\<lambda>k. last (filter (\<lambda>r. sr_bssid r = k) (ys @ [y]))) ?ks"
        using False by (auto simp: scan_table_def)
      finally show ?thesis using seen by (simp add: scan_table_def)
    qed
  next
    case False
    then have new: "sr_bssid y \<notin> set ?ks" by (auto dest: in_set_takeD)
    have none: "filter (\<lambda>r. sr_bssid r = sr_bssid y) ys = []"
      using False by (metis (mono_tags, lifting) filter_empty_conv imageI)
    let ?last = "\<lambda>k. last (filter (\<lambda>r. sr_bssid r = k) (ys @ [y]))"
    have old: "scan_table n ys = map ?last ?ks"
      using new by (auto simp: scan_table_def)
    have ins: "cache_insert n y (scan_table n ys)
        = (if length ?ks < n then map ?last ?ks @ [y] else map ?last ?ks)"
      using new by (simp only: cache_insert_def img len if_False old [symmetric])
    have "?last (sr_bssid y) = y" by (simp add: none)
    moreover have "take n (first_seen (map sr_bssid (ys @ [y]))) =
        (if length ?ks < n then ?ks @ [sr_bssid y] else ?ks)"
      using False by auto
    ultimately show ?thesis
      by (simp only: ins scan_table_def [of n "ys @ [y]"] map_append list.map if_distrib [of "map ?last"])
  qed
qed

lemma fold_cache_insert: "fold (cache_insert n) ys [] = scan_table n ys"
  by (induction ys rule: rev_induct) (simp_all add: scan_table_snoc, simp add: scan_table_def)

text \<open>The array is well formed: allocated, within its capacity, no BSSID twice.\<close>

definition cache_ok :: "mm_halow_t \<Rightarrow> bool" where
  "cache_ok self \<longleftrightarrow> scan_cache self \<noteq> 0 \<and> scan_cache_len self \<le> scan_cache_max self
     \<and> distinct (map sr_bssid (cache_of self))"

lemma length_cache_of [simp]: "length (cache_of self) = unat (scan_cache_len self)"
  by (simp add: cache_of_def)

lemma distinct_cache_insert:
  assumes "distinct (map sr_bssid rs)" shows "distinct (map sr_bssid (cache_insert n r rs))"
proof -
  have "map sr_bssid (map (\<lambda>x. if sr_bssid x = sr_bssid r then r else x) rs) = map sr_bssid rs" by auto
  then show ?thesis using assms by (auto simp: cache_insert_def simp del: map_map)
qed

lemma cache_overwrite:
  assumes dist: "distinct (map sr_bssid (cache_of self))"
    and i: "i < unat (scan_cache_len self)" "sr_bssid (scan_results self i) = sr_bssid res"
  shows "map ((scan_results self)(i := res)) [0..<unat (scan_cache_len self)]
    = map (\<lambda>x. if sr_bssid x = sr_bssid res then res else x) (cache_of self)"
  unfolding cache_of_def map_map comp_def
proof (rule map_cong [OF refl])
  fix j assume "j \<in> set [0..<unat (scan_cache_len self)]"
  then have "sr_bssid (scan_results self j) = sr_bssid res \<longleftrightarrow> j = i"
    using nth_eq_iff_index_eq [OF dist, of j i] i by (auto simp: cache_of_def)
  then show "((scan_results self)(i := res)) j =
      (if sr_bssid (scan_results self j) = sr_bssid res then res else scan_results self j)"
    by (simp only: fun_upd_apply)
qed

lemma scan_cache_add_refines:
  assumes "cache_ok self"
  shows "cache_of (mm_halow_scan_cache_add res self)
           = cache_insert (unat (scan_cache_max self)) res (cache_of self)"
    and "cache_ok (mm_halow_scan_cache_add res self)"
    and "scan_cache_max (mm_halow_scan_cache_add res self) = scan_cache_max self"
    and "h_channels (mm_halow_scan_cache_add res self) = h_channels self"
proof -
  let ?n = "unat (scan_cache_len self)"
  let ?find = "List.find (\<lambda>i. sr_bssid (scan_results self i) = sr_bssid res) [0..<?n]"
  have nn: "scan_cache self \<noteq> 0" and le: "?n \<le> unat (scan_cache_max self)"
    and dist: "distinct (map sr_bssid (cache_of self))"
    using assms by (simp_all add: cache_ok_def word_le_nat_alt)
  have img: "sr_bssid res \<in> sr_bssid ` set (cache_of self) \<longleftrightarrow> ?find \<noteq> None"
    by (auto simp: cache_of_def find_upt_None image_iff) (metis atLeastLessThan_iff zero_le)
  have main: "cache_of (mm_halow_scan_cache_add res self)
           = cache_insert (unat (scan_cache_max self)) res (cache_of self)
      \<and> unat (scan_cache_len (mm_halow_scan_cache_add res self)) \<le> unat (scan_cache_max self)"
  proof (cases ?find)
    case None
    show ?thesis
    proof (cases "scan_cache_len self < scan_cache_max self")
      case True
      then have lt: "?n < unat (scan_cache_max self)" by (simp add: word_less_nat_alt)
      have "unat (scan_cache_max self) \<le> 255" using unsigned_less [of "scan_cache_max self", where ?'a = nat] by simp
      with lt have "unat (scan_cache_len self + 1) = Suc ?n" by (rule unat_succ8)
      then show ?thesis using None True nn lt img
        by (simp add: mm_halow_scan_cache_add_def cache_insert_def cache_of_def)
    next
      case False
      then show ?thesis using None nn le img
        by (simp add: mm_halow_scan_cache_add_def cache_insert_def word_less_nat_alt)
    qed
  next
    case (Some i)
    then have i: "i < ?n" "sr_bssid (scan_results self i) = sr_bssid res" by (auto dest: find_upt_Some)
    note upd = cache_overwrite [OF dist i]
    have "sr_bssid res \<in> sr_bssid ` set (cache_of self)" using img Some by simp
    then have "cache_insert (unat (scan_cache_max self)) res (cache_of self) = map ((scan_results self)(i := res)) [0..<?n]"
      by (simp only: cache_insert_def if_True upd)
    moreover have "mm_halow_scan_cache_add res self = self\<lparr>scan_results := (scan_results self)(i := res)\<rparr>"
      using Some nn by (simp add: mm_halow_scan_cache_add_def)
    ultimately show ?thesis using le by (simp add: cache_of_def)
  qed
  show mx: "scan_cache_max (mm_halow_scan_cache_add res self) = scan_cache_max self"
    and "h_channels (mm_halow_scan_cache_add res self) = h_channels self"
    by (simp_all add: mm_halow_scan_cache_add_def split: option.split)
  have "scan_cache (mm_halow_scan_cache_add res self) = scan_cache self"
    by (simp add: mm_halow_scan_cache_add_def split: option.split)
  with main mx nn show "cache_ok (mm_halow_scan_cache_add res self)"
    by (simp add: cache_ok_def word_le_nat_alt distinct_cache_insert dist)
  from main show "cache_of (mm_halow_scan_cache_add res self)
           = cache_insert (unat (scan_cache_max self)) res (cache_of self)" ..
qed

section \<open>Runs of scan reports\<close>

text \<open>What one report becomes in the table.\<close>

definition flat_result :: "('l, 'a) pf \<Rightarrow> mm_halow_t \<Rightarrow> mmwlan_scan_result \<Rightarrow> mm_halow_ev_scan_result" where
  "flat_result pf self r = \<lparr>
     sr_ssid_len = of_nat (min (unat (r_ssid_len r)) (MMWLAN_SSID_MAXLEN (p_wlan pf))),
     sr_ssid = (case r_ssid r of None \<Rightarrow> replicate (MMWLAN_SSID_MAXLEN (p_wlan pf)) 0
        | Some b \<Rightarrow> overwrite (replicate (MMWLAN_SSID_MAXLEN (p_wlan pf)) 0)
                     (min (unat (r_ssid_len r)) (MMWLAN_SSID_MAXLEN (p_wlan pf))) b),
     sr_bssid = (case r_bssid r of None \<Rightarrow> replicate 6 0 | Some b \<Rightarrow> overwrite (replicate 6 0) 6 b),
     sr_rssi = r_rssi r, sr_channel_freq_hz = r_channel_freq_hz r,
     sr_chan_num = mm_halow_freq_to_chan self (r_channel_freq_hz r) (r_bw_mhz r),
     sr_bw_mhz = r_bw_mhz r, sr_op_bw_mhz = r_op_bw_mhz r,
     sr_security = (if bit (r_capability_info r) 4 then 2 else 0)\<rparr>"

lemma privacy_bit: "and c MM_HALOW_CAP_PRIVACY \<noteq> 0 \<longleftrightarrow> bit (c :: u16) 4"
  by (simp only: MM_HALOW_CAP_PRIVACY_def bit_iff_and_push_bit_not_eq_0)

lemma scan_rx_cb_eq: "mm_halow_scan_rx_cb pf r self = mm_halow_scan_cache_add (flat_result pf self r) self"
  by (simp add: mm_halow_scan_rx_cb_def flat_result_def Let_def privacy_bit)

lemma flat_result_cong: "h_channels self' = h_channels self \<Longrightarrow> flat_result pf self' r = flat_result pf self r"
  by (simp add: flat_result_def mm_halow_freq_to_chan_def)

lemma scan_run:
  assumes "cache_ok self"
  shows "cache_of (fold (mm_halow_scan_rx_cb pf) rs self)
           = fold (cache_insert (unat (scan_cache_max self))) (map (flat_result pf self) rs) (cache_of self)
    \<and> cache_ok (fold (mm_halow_scan_rx_cb pf) rs self)"
  using assms
proof (induction rs arbitrary: self)
  case (Cons r rs)
  let ?self = "mm_halow_scan_rx_cb pf r self"
  note step = scan_cache_add_refines [OF Cons.prems, of "flat_result pf self r", folded scan_rx_cb_eq]
  have "flat_result pf ?self = flat_result pf self"
    by (rule ext) (rule flat_result_cong, rule step(4))
  with Cons.IH [OF step(2)] step show ?case by simp
qed simp

text \<open>
  C16: A scan. From an allocated, empty cache, after any sequence of reports from morselib
  the cache holds exactly one entry for each of the first \<open>max\<close> networks seen, in the order
  they were first seen, and that entry is the flattened form of the network's latest
  report; so no BSSID is there twice, the count stays within the capacity, and without a
  cache the reports change nothing. An entry's SSID length never exceeds its buffer, and
  the channel number is that of a channel of the regulatory domain with the reported
  frequency and width, or zero.
\<close>

theorem scan_cache_latest:
  fixes pf :: "('l, 'a) pf" and rs :: "mmwlan_scan_result list"
  assumes "cache_ok self" and "scan_cache_len self = 0"
  defines "self' \<equiv> fold (mm_halow_scan_rx_cb pf) rs self"
  shows "cache_of self' = scan_table (unat (scan_cache_max self)) (map (flat_result pf self) rs)
    \<and> distinct (map sr_bssid (cache_of self')) \<and> scan_cache_len self' \<le> scan_cache_max self
    \<and> mm_halow_scan_rx_cb pf r (self\<lparr>scan_cache := 0\<rparr>) = self\<lparr>scan_cache := 0\<rparr>
    \<and> (MMWLAN_SSID_MAXLEN (p_wlan pf) \<le> 255 \<longrightarrow>
         unat (sr_ssid_len (flat_result pf self r)) \<le> MMWLAN_SSID_MAXLEN (p_wlan pf))
    \<and> (sr_chan_num (flat_result pf self r) = 0 \<or> (\<exists>chs ch. h_channels self = Some chs \<and> ch \<in> set chs
         \<and> centre_freq_hz ch = r_channel_freq_hz r \<and> ch_bw_mhz ch = r_bw_mhz r
         \<and> s1g_chan_num ch = sr_chan_num (flat_result pf self r)))"
proof (intro conjI)
  have empty: "cache_of self = []" using assms(2) by (simp add: cache_of_def)
  note run = scan_run [OF assms(1), of pf rs, folded self'_def, unfolded empty fold_cache_insert]
  then show eq: "cache_of self' = scan_table (unat (scan_cache_max self)) (map (flat_result pf self) rs)" ..
  from run show "distinct (map sr_bssid (cache_of self'))" unfolding cache_ok_def by blast
  have "unat (scan_cache_len self') \<le> unat (scan_cache_max self)"
    using arg_cong [OF eq, of length] by (simp add: scan_table_def)
  then show "scan_cache_len self' \<le> scan_cache_max self" by (simp add: word_le_nat_alt)
  show "mm_halow_scan_rx_cb pf r (self\<lparr>scan_cache := 0\<rparr>) = self\<lparr>scan_cache := 0\<rparr>"
    by (simp add: scan_rx_cb_eq mm_halow_scan_cache_add_def)
  show "MMWLAN_SSID_MAXLEN (p_wlan pf) \<le> 255 \<longrightarrow>
      unat (sr_ssid_len (flat_result pf self r)) \<le> MMWLAN_SSID_MAXLEN (p_wlan pf)"
    by (auto simp: flat_result_def unat_of_nat intro: order_trans [OF mod_less_eq_dividend])
  show "sr_chan_num (flat_result pf self r) = 0 \<or> (\<exists>chs ch. h_channels self = Some chs \<and> ch \<in> set chs
      \<and> centre_freq_hz ch = r_channel_freq_hz r \<and> ch_bw_mhz ch = r_bw_mhz r
      \<and> s1g_chan_num ch = sr_chan_num (flat_result pf self r))"
    by (auto simp: flat_result_def mm_halow_freq_to_chan_def find_Some_iff split: option.split) (metis nth_mem)
qed

text \<open>A network reported twice, in a cache of one entry: the second report stands.\<close>

definition cache1 :: mm_halow_t where
  "cache1 = (mm_halow_state_init 32 100)\<lparr>scan_cache := 536870928, scan_cache_len := 0, scan_cache_max := 1\<rparr>"

theorem scan_cache_latest_witness:
  "\<forall>(pf :: ('l, 'a) pf) r. \<exists>x.
     cache_of (fold (mm_halow_scan_rx_cb pf) [r, r\<lparr>r_rssi := 7\<rparr>] cache1) = [x] \<and> sr_rssi x = 7"
proof (intro allI)
  fix pf :: "('l, 'a) pf" and r
  have "cache_ok cache1" "scan_cache_len cache1 = 0" by (simp_all add: cache1_def cache_ok_def cache_of_def)
  note conjunct1 [OF scan_cache_latest [OF this, of pf "[r, r\<lparr>r_rssi := 7\<rparr>]"]]
  moreover have "scan_table (unat (scan_cache_max cache1)) (map (flat_result pf cache1) [r, r\<lparr>r_rssi := 7\<rparr>])
      = [flat_result pf cache1 (r\<lparr>r_rssi := 7\<rparr>)]"
    by (simp add: scan_table_def cache1_def first_seen_def flat_result_def)
  ultimately show "\<exists>x. cache_of (fold (mm_halow_scan_rx_cb pf) [r, r\<lparr>r_rssi := 7\<rparr>] cache1) = [x] \<and> sr_rssi x = 7"
    by (simp add: flat_result_def)
qed

section \<open>The stations of the access point\<close>

definition stas_of :: "mm_halow_t \<Rightarrow> u8 list list" where
  "stas_of self = map (ap_stas self) [0..<unat (ap_sta_count self)]"

text \<open>The specification: a set without order would do, but the driver lists them in order of arrival.\<close>

fun sta_event :: "nat \<Rightarrow> u8 list \<times> bool \<Rightarrow> u8 list list \<Rightarrow> u8 list list" where
  "sta_event n (mac, authorized) l =
     (if mac \<in> set l then if authorized then l else remove1 mac l
      else if authorized \<and> length l < n then l @ [mac] else l)"

lemma remove1_nth:
  "distinct xs \<Longrightarrow> i < length xs \<Longrightarrow> remove1 (xs ! i) xs = take i xs @ drop (Suc i) xs"
proof (induction xs arbitrary: i)
  case (Cons x xs)
  then show ?case by (cases i) auto
qed simp

lemma shifted_down:
  "i < Suc n \<Longrightarrow> map (\<lambda>j. if i \<le> j \<and> j < n then f (Suc j) else f j) [0..<n]
     = take i (map f [0..<Suc n]) @ drop (Suc i) (map f [0..<Suc n])"
  by (rule nth_equalityI) (auto simp: nth_append min_def simp del: upt_Suc)

definition stas_ok :: "nat \<Rightarrow> mm_halow_t \<Rightarrow> bool" where
  "stas_ok n self \<longleftrightarrow> distinct (stas_of self) \<and> unat (ap_sta_count self) \<le> n"

lemma length_stas_of [simp]: "length (stas_of self) = unat (ap_sta_count self)"
  by (simp add: stas_of_def)

lemma ap_sta_status_refines:
  assumes ok: "stas_ok (MMWLAN_DEFAULT_AP_MAX_STAS (p_wlan pf)) self"
    and n: "MMWLAN_DEFAULT_AP_MAX_STAS (p_wlan pf) \<le> 255"
  shows "stas_of (mm_halow_ap_sta_status_cb pf mac authorized self)
           = sta_event (MMWLAN_DEFAULT_AP_MAX_STAS (p_wlan pf)) (mac, authorized) (stas_of self)"
proof (cases "List.find (\<lambda>i. ap_stas self i = mac) [0..<unat (ap_sta_count self)]")
  case None
  then have "mac \<notin> set (stas_of self)" by (auto simp: stas_of_def find_upt_None)
  moreover have "unat (ap_sta_count self + 1) = Suc (unat (ap_sta_count self))"
    if "unat (ap_sta_count self) < MMWLAN_DEFAULT_AP_MAX_STAS (p_wlan pf)"
    using unat_succ8 [OF that n] .
  ultimately show ?thesis using None
    by (simp add: mm_halow_ap_sta_status_cb_def stas_of_def)
next
  case (Some i)
  then have i: "i < unat (ap_sta_count self)" "ap_stas self i = mac" by (auto dest: find_upt_Some)
  then have mem: "mac \<in> set (stas_of self)" by (auto simp: stas_of_def)
  have pos: "unat (ap_sta_count self) = Suc (unat (ap_sta_count self - 1))"
    using i(1) by (simp add: unat_sub_if_size word_size)
  have at: "stas_of self ! i = mac" using i by (simp add: stas_of_def)
  have "remove1 mac (stas_of self) = take i (stas_of self) @ drop (Suc i) (stas_of self)"
    using remove1_nth [of "stas_of self" i] ok i(1) at by (simp add: stas_ok_def)
  then show ?thesis using Some mem i(1) pos shifted_down [of i "unat (ap_sta_count self - 1)" "ap_stas self"]
    by (simp add: mm_halow_ap_sta_status_cb_def stas_of_def Let_def del: upt_Suc)
qed

lemma sta_event_ok:
  "distinct l \<Longrightarrow> length l \<le> n \<Longrightarrow> distinct (sta_event n e l) \<and> length (sta_event n e l) \<le> n"
  by (cases e) (auto simp: length_remove1)

lemma sta_run:
  assumes "stas_ok (MMWLAN_DEFAULT_AP_MAX_STAS (p_wlan pf)) self"
    and n: "MMWLAN_DEFAULT_AP_MAX_STAS (p_wlan pf) \<le> 255"
  shows "stas_of (fold (\<lambda>(mac, a). mm_halow_ap_sta_status_cb pf mac a) evs self)
           = fold (sta_event (MMWLAN_DEFAULT_AP_MAX_STAS (p_wlan pf))) evs (stas_of self)"
  using assms(1)
proof (induction evs arbitrary: self)
  case (Cons e evs)
  obtain mac a where e: "e = (mac, a)" by (cases e)
  note step = ap_sta_status_refines [OF Cons.prems n, of mac a]
  have "stas_ok (MMWLAN_DEFAULT_AP_MAX_STAS (p_wlan pf)) (mm_halow_ap_sta_status_cb pf mac a self)"
    using sta_event_ok [of "stas_of self" "MMWLAN_DEFAULT_AP_MAX_STAS (p_wlan pf)" "(mac, a)"] Cons.prems step
    by (metis length_stas_of stas_ok_def)
  from Cons.IH [OF this] step show ?case by (simp add: e)
qed simp

lemma take_upt_min: "take m [0..<n] = [0..<min m n]"
  by (cases "m \<le> n") (simp_all add: min_def)

lemma nat_min_int: "nat (min k (int n)) = min (nat k) n"
  by (simp add: min_def nat_le_iff)

text \<open>The latest report of a station, and the stations ever admitted.\<close>

definition admitted :: "(u8 list \<times> bool) list \<Rightarrow> u8 list set" where
  "admitted evs = {m. map_of (rev evs) m = Some True}"

lemma admitted_snoc [simp]:
  "admitted (evs @ [(m, a)]) = (if a then insert m (admitted evs) else admitted evs - {m})"
  by (auto simp: admitted_def)

lemma sta_list:
  defines "run \<equiv> \<lambda>n evs. fold (sta_event n) evs []"
  shows "distinct (run n evs) \<and> length (run n evs) \<le> n \<and> set (run n evs) \<subseteq> admitted evs
    \<and> (card {m. (m, True) \<in> set evs} \<le> n \<longrightarrow> set (run n evs) = admitted evs)"
proof (induction evs rule: rev_induct)
  case Nil
  show ?case by (simp add: run_def admitted_def)
next
  case (snoc e evs)
  obtain m a where e: "e = (m, a)" by (cases e)
  let ?l = "run n evs" and ?ever = "\<lambda>evs. {m. (m, True) \<in> set evs}"
  have step: "run n (evs @ [e]) = sta_event n (m, a) ?l" by (simp add: run_def e)
  have fin: "finite (?ever evs)" for evs :: "(u8 list \<times> bool) list"
    by (rule finite_subset [of _ "fst ` set evs"]) force+
  have ok: "distinct (run n (evs @ [e])) \<and> length (run n (evs @ [e])) \<le> n"
    unfolding step by (rule sta_event_ok) (use snoc in simp_all)
  have sub: "set (run n (evs @ [e])) \<subseteq> admitted (evs @ [e])"
    using snoc unfolding step by (auto simp: e)
  have "set (run n (evs @ [e])) = admitted (evs @ [e])" if c: "card (?ever (evs @ [e])) \<le> n"
  proof -
    have "card (?ever evs) \<le> card (?ever (evs @ [e]))" by (rule card_mono [OF fin]) auto
    with c snoc have eq: "set ?l = admitted evs" by simp
    show ?thesis
    proof (cases "a \<and> m \<notin> set ?l")
      case True
      have "admitted evs \<subseteq> ?ever evs"
        by (auto simp: admitted_def dest: map_of_SomeD)
      then have "insert m (set ?l) \<subseteq> ?ever (evs @ [e])" using True by (auto simp: e eq)
      from card_mono [OF fin this] True c snoc have "length ?l < n" by (simp add: distinct_card)
      with True eq show ?thesis unfolding step by (simp add: e)
    next
      case False
      with eq snoc show ?thesis unfolding step by (auto simp: e)
    qed
  qed
  with ok sub show ?case by blast
qed



end
