(* ===== verification/Halow_Netif_Props.thy ===== *)
theory Halow_Netif_Props
  imports Halow_Tables
begin

text \<open>
  The lwIP side. What lwIP documents of its interface list, default interface and pbufs is
  the locale \<open>lwip_stack\<close>; inside it, bringing an interface up and down is shown to leave the
  host's other interfaces and its default route as they should be, and a received frame is
  shown to reach the stack once and intact. The interpretation is on a model of that
  bookkeeping whose pbuf is kept in the extension of the state record.
\<close>

section \<open>The contract of lwIP\<close>

text \<open>Calls that have no bearing on the interface list.\<close>

fun unrelated :: "lwip_call \<Rightarrow> bool" where
  "unrelated (L_set_hostname _) = True"
| "unrelated (L_igmp_filter _) = True"
| "unrelated (L_dns_setserver _) = True"
| "unrelated (L_dhcp_set_struct _) = True"
| "unrelated (L_dhcp_stop _) = True"
| "unrelated (L_dhcp_server_init _ _) = True"
| "unrelated L_dhcp_server_deinit = True"
| "unrelated _ = False"

definition same_flags :: "nat set \<Rightarrow> ('l, 'a) halow_st_scheme \<Rightarrow> ('l, 'a) halow_st_scheme \<Rightarrow> bool" where
  "same_flags N s s' \<longleftrightarrow> (\<forall>n. n \<notin> N \<longrightarrow> netif_flags (netifs s' n) = netif_flags (netifs s n))"

definition same_netifs :: "nat set \<Rightarrow> ('l, 'a) halow_st_scheme \<Rightarrow> ('l, 'a) halow_st_scheme \<Rightarrow> bool" where
  "same_netifs N s s' \<longleftrightarrow> netif_list s' = netif_list s \<and> netif_default s' = netif_default s \<and> same_flags N s s'"

lemma same_flags_refl [simp]: "same_flags N s s"
  by (simp add: same_flags_def)

lemma same_flags_trans: "same_flags N s t \<Longrightarrow> same_flags M t u \<Longrightarrow> same_flags (N \<union> M) s u"
  by (simp add: same_flags_def)

lemma same_flags_upd [simp]: "n \<in> N \<Longrightarrow> same_flags N s (upd_netif n f t) = same_flags N s t"
  by (auto simp: same_flags_def upd_netif_def)

lemma upd_netif_simps [simp]:
  "netif_list (upd_netif n f s) = netif_list s" "netif_default (upd_netif n f s) = netif_default s"
  "netifs (upd_netif n f s) m = (if m = n then f (netifs s n) else netifs s m)"
  by (simp_all add: upd_netif_def)

locale lwip_stack =
  fixes lw :: "('l, 'a) ip" and w :: "('l, 'a) wlan" and pdata :: "ptr \<Rightarrow> ('l, 'a) halow_st_scheme \<Rightarrow> u8 list"
  assumes unrelated_call: "unrelated c \<Longrightarrow> \<exists>s'. lwip_do lw c s = Some s' \<and> same_netifs {} s s'"
    and set_default: "\<exists>s'. lwip_do lw (L_set_default n) s = Some s' \<and> netif_list s' = netif_list s
          \<and> netif_default s' = n \<and> same_flags {} s s'"
    and set_up: "\<exists>s'. lwip_do lw (L_set_up n) s = Some s' \<and> same_netifs {n} s s'"
    and remove: "\<exists>s'. lwip_do lw (L_netif_remove n) s = Some s' \<and> netif_list s' = remove1 n (netif_list s)
          \<and> netif_default s' = (if netif_default s = n then 0 else netif_default s) \<and> same_flags {n} s s'"
    and add: "\<exists>s1. same_netifs {n} s s1 \<and> netif_name (netifs s1 n) = netif_name (netifs s n)
          \<and> netif_add lw n init s = map_option (\<lambda>s2. s2\<lparr>netif_list := n # netif_list s2\<rparr>) (init s1)"
    and mac_addr: "\<exists>r mac' s'. get_vif_mac_addr w vif mac s = Some (r, mac', s') \<and> same_netifs {} s s'"
    and alloc: "pbuf_alloc lw len s = (p, s') \<Longrightarrow> mm_halow_state s' = mm_halow_state s \<and> lwip_calls s' = lwip_calls s
          \<and> (p \<noteq> 0 \<longrightarrow> length (pdata p s') = unat len)"
    and take_at: "pbuf_take_at lw p src off s = (ok, s') \<Longrightarrow> mm_halow_state s' = mm_halow_state s
          \<and> lwip_calls s' = lwip_calls s \<and> ok = (off + length src \<le> length (pdata p s))
          \<and> (ok \<longrightarrow> pdata p s' = take off (pdata p s) @ src @ drop (off + length src) (pdata p s))"
    and pdata_calls: "pdata p (s\<lparr>lwip_calls := cs\<rparr>) = pdata p s"
begin

lemma ldo_unrelated: "unrelated c \<Longrightarrow> \<exists>s'. ldo lw c s = Some s' \<and> same_netifs {} s s'"
  using unrelated_call [of c "s\<lparr>lwip_calls := lwip_calls s @ [c]\<rparr>"]
  by (auto simp: ldo_def same_netifs_def same_flags_def)

lemma ldo_set_default:
  "\<exists>s'. ldo lw (L_set_default n) s = Some s' \<and> netif_list s' = netif_list s \<and> netif_default s' = n
     \<and> same_flags {} s s'"
  using set_default [of n "s\<lparr>lwip_calls := lwip_calls s @ [L_set_default n]\<rparr>"]
  by (auto simp: ldo_def same_flags_def)

lemma ldo_set_up: "\<exists>s'. ldo lw (L_set_up n) s = Some s' \<and> same_netifs {n} s s'"
  using set_up [of n "s\<lparr>lwip_calls := lwip_calls s @ [L_set_up n]\<rparr>"]
  by (auto simp: ldo_def same_netifs_def same_flags_def)

lemma ldo_remove:
  "\<exists>s'. ldo lw (L_netif_remove n) s = Some s' \<and> netif_list s' = remove1 n (netif_list s)
     \<and> netif_default s' = (if netif_default s = n then 0 else netif_default s) \<and> same_flags {n} s s'"
  using remove [of n "s\<lparr>lwip_calls := lwip_calls s @ [L_netif_remove n]\<rparr>"]
  by (auto simp: ldo_def same_flags_def)

lemma get_mac_ok: "\<exists>mac' s'. mm_halow_wifi_get_mac w itf mac s = Some (mac', s') \<and> same_netifs {} s s'"
  using mac_addr [of "if itf = MM_HALOW_ITF_AP then MMWLAN_VIF_AP else MMWLAN_VIF_STA" mac s]
  by (auto simp: mm_halow_wifi_get_mac_def)

lemma netif_init_ok: "\<exists>s'. mm_halow_netif_init lw w n s = Some s' \<and> same_netifs {n} s s'"
proof -
  let ?s1 = "upd_netif n (\<lambda>i. i\<lparr>netif_driver := True, netif_mtu := MM_HALOW_MTU,
                                netif_flags := NETIF_FLAGS_INIT lw\<rparr>) s"
  obtain mac s2 where s2: "mm_halow_wifi_get_mac w (name_itf (netif_name (netifs s n))) (netif_hwaddr (netifs ?s1 n)) ?s1
      = Some (mac, s2)" "same_netifs {} ?s1 s2"
    using get_mac_ok by blast
  let ?s3 = "upd_netif n (\<lambda>i. i\<lparr>netif_hwaddr := mac\<rparr>) s2"
  let ?s4 = "upd_netif n (\<lambda>i. i\<lparr>netif_flags := or (netif_flags i) (NETIF_FLAG_IGMP lw)\<rparr>) ?s3"
  have s3: "same_netifs {n} s ?s3" "same_netifs {n} s ?s4"
    using s2(2) by (auto simp: same_netifs_def same_flags_def)
  obtain s5 where "ldo lw (L_igmp_filter n) ?s4 = Some s5" "same_netifs {} ?s4 s5"
    using ldo_unrelated [of "L_igmp_filter n" ?s4] by auto
  with s2(1) s3 show ?thesis
    by (auto simp: mm_halow_netif_init_def Let_def same_netifs_def same_flags_def split: if_splits)
qed

text \<open>Bringing up: the interface heads the list, and takes the default route only when nobody holds it.\<close>

lemma tcpip_init_ok:
  "\<exists>s'. mm_halow_cb_tcpip_init lw w itf s = Some s' \<and> netif_list s' = itf_netif itf # netif_list s
    \<and> netif_default s' = (if netif_default s = 0 then itf_netif itf else netif_default s)
    \<and> same_flags {itf_netif itf} s s'"
proof -
  let ?n = "itf_netif itf"
  obtain addr mask gw where cfg: "tcpip_config lw itf = (addr, mask, gw)" by (cases "tcpip_config lw itf")
  let ?s1 = "upd_netif ?n (\<lambda>i. i\<lparr>netif_name := [CHR ''w'', char_of (48 + nat itf)]\<rparr>) s"
  let ?s1' = "?s1\<lparr>lwip_calls := lwip_calls ?s1 @ [L_netif_add ?n addr mask gw]\<rparr>"
  obtain t s2 where t: "same_netifs {?n} ?s1' t" "mm_halow_netif_init lw w ?n t = Some s2" "same_netifs {?n} t s2"
    "netif_add lw ?n (mm_halow_netif_init lw w ?n) ?s1' = Some (s2\<lparr>netif_list := ?n # netif_list s2\<rparr>)"
    using add [of ?n ?s1' "mm_halow_netif_init lw w ?n"] netif_init_ok by fastforce
  let ?s2 = "s2\<lparr>netif_list := ?n # netif_list s2\<rparr>"
  have s2: "netif_list ?s2 = ?n # netif_list s" "netif_default ?s2 = netif_default s" "same_flags {?n} s ?s2"
    using t(1,3) by (auto simp: same_netifs_def same_flags_def)
  obtain s3 where s3: "ldo lw (L_set_hostname ?n) ?s2 = Some s3" "same_netifs {} ?s2 s3"
    using ldo_unrelated [of "L_set_hostname ?n" ?s2] by auto
  obtain s4 where s4: "(if netif_default s3 = 0 then ldo lw (L_set_default ?n) s3 else Some s3) = Some s4"
    "netif_list s4 = netif_list s3" "netif_default s4 = (if netif_default s3 = 0 then ?n else netif_default s3)"
    "same_flags {} s3 s4"
    using ldo_set_default [of ?n s3] by (cases "netif_default s3 = 0") auto
  obtain s5 where s5: "ldo lw (L_set_up ?n) s4 = Some s5" "same_netifs {?n} s4 s5"
    using ldo_set_up by blast
  obtain s6 where s6: "(if gw \<noteq> 0 then ldo lw (L_dns_setserver gw) s5 else Some s5) = Some s6" "same_netifs {} s5 s6"
    using ldo_unrelated [of "L_dns_setserver gw" s5] by (cases "gw = 0") (auto simp: same_netifs_def)
  obtain s7 where s7: "(if LWIP_DHCP lw then ldo lw (L_dhcp_set_struct ?n) s6 else Some s6) = Some s7" "same_netifs {} s6 s7"
    using ldo_unrelated [of "L_dhcp_set_struct ?n" s6] by (cases "LWIP_DHCP lw") (auto simp: same_netifs_def)
  obtain s8 where s8: "ldo lw (L_dhcp_server_init addr mask) s5 = Some s8" "same_netifs {} s5 s8"
    using ldo_unrelated [of "L_dhcp_server_init addr mask" s5] by auto
  have "mm_halow_cb_tcpip_init lw w itf s = Some (if itf = MM_HALOW_ITF_STA then s7 else s8)"
    unfolding mm_halow_cb_tcpip_init_def Let_def cfg by (simp add: t(4) s3(1) s4(1) s5(1) s6(1) s7(1) s8(1))
  then show ?thesis
    using s2 s3(2) s4(2-4) s5(2) s6(2) s7(2) s8(2) by (simp add: same_netifs_def same_flags_def)
qed

text \<open>Taking down: the interface leaves the list, and a default route it held is handed on.\<close>

lemma find_up_cong:
  "same_flags {n} s s' \<Longrightarrow> n \<notin> set ns \<Longrightarrow>
   List.find (\<lambda>m. netif_is_up lw m s') ns = List.find (\<lambda>m. netif_is_up lw m s) ns"
  by (rule find_cong [OF refl]) (auto simp: netif_is_up_def same_flags_def)

lemma tcpip_deinit_ok:
  assumes "distinct (netif_list s)" and "itf_netif itf \<in> set (netif_list s)"
  shows "\<exists>s'. mm_halow_cb_tcpip_deinit lw itf s = Some s' \<and> netif_list s' = remove1 (itf_netif itf) (netif_list s)
    \<and> netif_default s' = (if netif_default s \<noteq> itf_netif itf then netif_default s
        else case List.find (\<lambda>n. netif_is_up lw n s) (remove1 (itf_netif itf) (netif_list s)) of Some n \<Rightarrow> n | None \<Rightarrow> 0)
    \<and> netif_flags (netifs s' (itf_netif itf)) = 0 \<and> same_flags {itf_netif itf} s s'"
proof -
  let ?n = "itf_netif itf"
  obtain s1 where s1: "(if itf = MM_HALOW_ITF_STA
            then if LWIP_DHCP lw then ldo lw (L_dhcp_stop ?n) s else Some s
            else ldo lw L_dhcp_server_deinit s) = Some s1" "same_netifs {} s s1"
    using ldo_unrelated [of "L_dhcp_stop ?n" s] ldo_unrelated [of L_dhcp_server_deinit s]
    by (cases "itf = MM_HALOW_ITF_STA"; cases "LWIP_DHCP lw") (auto simp: same_netifs_def)
  obtain s2 where s2: "ldo lw (L_netif_remove ?n) s1 = Some s2" "netif_list s2 = remove1 ?n (netif_list s1)"
    "netif_default s2 = (if netif_default s1 = ?n then 0 else netif_default s1)" "same_flags {?n} s1 s2"
    using ldo_remove by blast
  let ?s2 = "upd_netif ?n (\<lambda>i. i\<lparr>netif_ip_addr := 0, netif_flags := 0\<rparr>) s2"
  have list: "netif_list ?s2 = remove1 ?n (netif_list s)" and fl: "same_flags {?n} s ?s2"
    and zero: "netif_flags (netifs ?s2 ?n) = 0"
    and def2: "netif_default ?s2 = (if netif_default s = ?n then 0 else netif_default s)"
    using s1(2) s2(2-4) by (auto simp: same_netifs_def same_flags_def)
  have find: "List.find (\<lambda>m. netif_is_up lw m ?s2) (remove1 ?n (netif_list s))
      = List.find (\<lambda>m. netif_is_up lw m s) (remove1 ?n (netif_list s))"
    by (rule find_up_cong [OF fl]) (simp add: assms(1))
  have eq: "mm_halow_cb_tcpip_deinit lw itf s =
      (if netif_default s = ?n
       then case List.find (\<lambda>m. netif_is_up lw m s) (remove1 ?n (netif_list s)) of
              Some n \<Rightarrow> ldo lw (L_set_default n) ?s2 | None \<Rightarrow> Some ?s2
       else Some ?s2)"
    unfolding mm_halow_cb_tcpip_deinit_def Let_def s1(1)
    using s1(2) assms(2) def2 by (simp add: same_netifs_def s2(1) list find del: upd_netif_simps)
  show ?thesis
  proof (cases "netif_default s = ?n")
    case True
    show ?thesis
    proof (cases "List.find (\<lambda>m. netif_is_up lw m s) (remove1 ?n (netif_list s))")
      case None
      with True eq list fl zero def2 show ?thesis by auto
    next
      case (Some m)
      obtain s3 where "ldo lw (L_set_default m) ?s2 = Some s3" "netif_list s3 = netif_list ?s2"
        "netif_default s3 = m" "same_flags {} ?s2 s3"
        using ldo_set_default by blast
      with True Some eq list fl zero show ?thesis by (auto simp: same_flags_def)
    qed
  next
    case False
    with eq list fl zero def2 show ?thesis by auto
  qed
qed

text \<open>A received frame that gets as far as a pbuf reaches the stack once, header and payload joined.\<close>

lemma process_ethernet_eq:
  assumes len: "length header + length payload < 2 ^ 32"
    and "\<not> rx_deferred (mm_halow_state s)" and up: "netif_is_link_up lw (itf_netif itf) s"
  shows "(\<exists>s'. mm_halow_cb_process_ethernet lw itf header payload s = Some s' \<and> lwip_calls s' = lwip_calls s
           \<and> mm_halow_state s' = mm_halow_state s)
    \<or> (\<exists>p s4. p \<noteq> 0 \<and> pdata p s4 = header @ payload \<and> lwip_calls s4 = lwip_calls s @ [L_input (itf_netif itf) p]
         \<and> mm_halow_state s4 = mm_halow_state s
         \<and> mm_halow_cb_process_ethernet lw itf header payload s
           = Option.bind (netif_input lw (itf_netif itf) p s4) (\<lambda>(ok, s5). if \<not> ok then ldo lw (L_pbuf_free p) s5 else Some s5))"
proof -
  let ?n = "itf_netif itf" and ?len = "of_nat (length header) + of_nat (length payload) :: u32"
  let ?s1 = "if and (trace_flags (mm_halow_state s)) MM_HALOW_TRACE_ETH_RX \<noteq> 0 then emit (Ev_print ''rxf'') s else s"
  have ul: "unat ?len = length header + length payload"
    using len by (simp add: unat_of_nat_u32 flip: of_nat_add)
  have s1: "netif_is_link_up lw ?n ?s1" "mm_halow_state ?s1 = mm_halow_state s" "lwip_calls ?s1 = lwip_calls s"
    using up by (simp_all add: netif_is_link_up_def emit_def)
  obtain p s2 where s2: "pbuf_alloc lw ?len ?s1 = (p, s2)" by (cases "pbuf_alloc lw ?len ?s1")
  note a = alloc [OF s2, unfolded ul s1]
  show ?thesis
  proof (cases "p = 0")
    case True
    then show ?thesis using assms(2) s1 s2 a by (auto simp: mm_halow_cb_process_ethernet_def Let_def)
  next
    case False
    obtain ok1 s3 where s3: "pbuf_take_at lw p header 0 s2 = (ok1, s3)" by (cases "pbuf_take_at lw p header 0 s2")
    have t1: "ok1" "pdata p s3 = header @ drop (length header) (pdata p s2)"
      "mm_halow_state s3 = mm_halow_state s" "lwip_calls s3 = lwip_calls s"
      using take_at [OF s3] a False by auto
    obtain ok2 s4 where s4: "pbuf_take_at lw p payload (length header) s3 = (ok2, s4)"
      by (cases "pbuf_take_at lw p payload (length header) s3")
    have t2: "ok2" "pdata p s4 = header @ payload" "mm_halow_state s4 = mm_halow_state s" "lwip_calls s4 = lwip_calls s"
      using take_at [OF s4] t1 a False by auto
    let ?s4 = "s4\<lparr>lwip_calls := lwip_calls s4 @ [L_input ?n p]\<rparr>"
    have "mm_halow_cb_process_ethernet lw itf header payload s
        = Option.bind (netif_input lw ?n p ?s4) (\<lambda>(ok, s5). if \<not> ok then ldo lw (L_pbuf_free p) s5 else Some s5)"
      using assms(2) False t1(1) t2(1) s1(1)
      unfolding mm_halow_cb_process_ethernet_def Let_def by (simp add: s2 s3 s4)
    moreover have "pdata p ?s4 = header @ payload" "lwip_calls ?s4 = lwip_calls s @ [L_input ?n p]"
      "mm_halow_state ?s4 = mm_halow_state s" using t2 by (simp_all add: pdata_calls)
    ultimately show ?thesis using False by blast
  qed
qed

end

section \<open>A host that keeps the contract\<close>

text \<open>A morselib whose calls succeed at once and call nothing back.\<close>

definition quiet_wlan :: "('l, 'a) wlan" where
  "quiet_wlan = \<lparr>
     vendor = (\<lambda>c s. Some (MMWLAN_SUCCESS, s)),
     lookup_regulatory_domain = (\<lambda>country. if country = ''US'' then Some [] else None),
     get_vif_mac_addr = (\<lambda>vif mac s. Some (MMWLAN_SUCCESS, [2, 0, 0, 0, 0, 1], s)),
     get_bssid = (\<lambda>b s. Some (MMWLAN_UNAVAILABLE, b, s)), get_rssi = (\<lambda>s. Some (0, s)),
     get_vif_channel_info = (\<lambda>vif s. Some (MMWLAN_UNAVAILABLE, 0, 0, s)),
     ate_execute_command = (\<lambda>cmd len s. Some (MMWLAN_SUCCESS, [], 0, s)),
     get_duty_cycle_stats = (\<lambda>s. Some (MMWLAN_SUCCESS, [], s)), get_version = (\<lambda>s. Some (MMWLAN_SUCCESS, ''1'', s)),
     get_rc_stats = (\<lambda>s. Some (0, s)), free_rc_stats = (\<lambda>p s. Some s),
     alloc_mmpkt_for_tx = (\<lambda>len s. Some (4096, s)), pkt_append_data = (\<lambda>p b s. s),
     MMWLAN_SSID_MAXLEN = 32, MMWLAN_PASSPHRASE_MAXLEN = 100, MMWLAN_DEFAULT_AP_MAX_STAS = 10,
     MMWLAN_SKIP_OP_CLASS_CHECK = - 1, MMWLAN_MCS_NONE = - 1, MMWLAN_MCS_MAX = 9,
     MMWLAN_GI_NONE = - 1, MMWLAN_GI_MAX = 1, MMWLAN_BW = [- 1, 1, 2, 4, 8],
     MMWLAN_TWT_SETUP_REQUEST = 0, MMWLAN_TWT_SETUP_DEMAND = 2, MMWLAN_DUTY_CYCLE_MODES = [0, 1]\<rparr>"

text \<open>
  lwIP's own bookkeeping of interfaces. The one pbuf there is holds its data in the
  extension of the state record.
\<close>

fun host_lwip_do :: "lwip_call \<Rightarrow> ('l, 'a) halow_st_scheme \<Rightarrow> ('l, 'a) halow_st_scheme" where
  "host_lwip_do (L_netif_remove n) s = s\<lparr>netif_list := remove1 n (netif_list s),
     netif_default := (if netif_default s = n then 0 else netif_default s)\<rparr>"
| "host_lwip_do (L_set_default n) s = s\<lparr>netif_default := n\<rparr>"
| "host_lwip_do (L_set_up n) s = upd_netif n (\<lambda>i. i\<lparr>netif_flags := or (netif_flags i) 1\<rparr>) s"
| "host_lwip_do (L_set_link_up n) s = upd_netif n (\<lambda>i. i\<lparr>netif_flags := or (netif_flags i) 4\<rparr>) s"
| "host_lwip_do (L_set_link_down n) s = upd_netif n (\<lambda>i. i\<lparr>netif_flags := and (netif_flags i) (not 4)\<rparr>) s"
| "host_lwip_do _ s = s"

definition host_lwip :: "('l, u8 list) ip" where
  "host_lwip = \<lparr>
     lwip_do = (\<lambda>c s. Some (host_lwip_do c s)),
     netif_add = (\<lambda>n init s. map_option (\<lambda>s2. s2\<lparr>netif_list := n # netif_list s2\<rparr>) (init s)),
     pbuf_alloc = (\<lambda>len s. (8192, halow_st.more_update (\<lambda>_. replicate (unat len) 0) s)),
     pbuf_take_at = (\<lambda>p src off s. if off + length src \<le> length (halow_st.more s)
        then (True, halow_st.more_update (\<lambda>d. take off d @ src @ drop (off + length src) d) s) else (False, s)),
     netif_input = (\<lambda>n p s. Some (True, s)),
     pbuf_next = (\<lambda>p s. 0), pbuf_payload = (\<lambda>p s. p), pbuf_copy_partial = (\<lambda>p n s. take n (halow_st.more s)),
     SIZEOF_ETH_HDR = 14, PP_HTONL = (\<lambda>x. x),
     NETIF_FLAG_UP = 1, NETIF_FLAG_LINK_UP = 4, NETIF_FLAGS_INIT = 0x0a, NETIF_FLAG_IGMP = 0x20,
     LWIP_DHCP = True, LWIP_IGMP = True\<rparr>"

lemma host_unrelated: "unrelated c \<Longrightarrow> host_lwip_do c s = s"
  by (cases c) simp_all

lemma host_pbuf_alloc:
  "pbuf_alloc host_lwip len s = (8192, halow_st.more_update (\<lambda>_. replicate (unat len) 0) s)"
  by (simp add: host_lwip_def)

lemma host_pbuf_take_at:
  "pbuf_take_at host_lwip p src off s = (if off + length src \<le> length (halow_st.more s)
     then (True, halow_st.more_update (\<lambda>d. take off d @ src @ drop (off + length src) d) s) else (False, s))"
  by (simp add: host_lwip_def)

interpretation host: lwip_stack host_lwip quiet_wlan "\<lambda>p. halow_st.more"
proof (unfold_locales, goal_cases)
  case (5 n s init)
  show ?case by (rule exI [of _ s]) (simp add: host_lwip_def same_netifs_def)
qed (auto simp: host_lwip_def host_unrelated quiet_wlan_def same_netifs_def same_flags_def upd_netif_def
       split: if_splits)

text \<open>
  C14: Interfaces of the host. Bringing an interface up in lwIP puts it at the head of the
  list of interfaces and makes it the default only when there is none; taking it down
  again leaves the list as it was, the flags of every other interface untouched and its
  own cleared, and a default that was there before. Taking down the holder of the default
  route, whatever came and went in between, hands it to the first remaining interface that
  is up, and to nobody only when none is; a default held by another interface stays.
\<close>

theorem netif_roundtrip:
  fixes lw :: "('l, 'a) ip"
  assumes host: "lwip_stack lw w pdata" and new: "itf_netif itf \<notin> set (netif_list s)" "distinct (netif_list s)"
    and held: "netif_default s \<noteq> itf_netif itf"
  shows "(\<exists>s1 s2. mm_halow_cb_tcpip_init lw w itf s = Some s1 \<and> netif_list s1 = itf_netif itf # netif_list s
        \<and> netif_default s1 = (if netif_default s = 0 then itf_netif itf else netif_default s)
        \<and> mm_halow_cb_tcpip_deinit lw itf s1 = Some s2 \<and> netif_list s2 = netif_list s
        \<and> (netif_default s \<noteq> 0 \<longrightarrow> netif_default s2 = netif_default s)
        \<and> netif_flags (netifs s2 (itf_netif itf)) = 0 \<and> same_flags {itf_netif itf} s s2)
    \<and> (distinct (netif_list t) \<and> itf_netif itf \<in> set (netif_list t) \<and> 0 \<notin> set (netif_list t) \<longrightarrow>
        (\<exists>t'. mm_halow_cb_tcpip_deinit lw itf t = Some t' \<and> netif_list t' = remove1 (itf_netif itf) (netif_list t)
          \<and> (netif_default t \<noteq> itf_netif itf \<longrightarrow> netif_default t' = netif_default t)
          \<and> (netif_default t = itf_netif itf \<longrightarrow>
               (netif_default t' \<in> set (netif_list t') \<and> netif_is_up lw (netif_default t') t)
               \<or> (netif_default t' = 0 \<and> (\<forall>n \<in> set (netif_list t'). \<not> netif_is_up lw n t)))))"
proof (intro conjI impI)
  from lwip_stack.tcpip_init_ok [OF host, of itf s] obtain s1 where
    s1: "mm_halow_cb_tcpip_init lw w itf s = Some s1" "netif_list s1 = itf_netif itf # netif_list s"
      "netif_default s1 = (if netif_default s = 0 then itf_netif itf else netif_default s)"
      "same_flags {itf_netif itf} s s1" by blast
  with new have "distinct (netif_list s1)" "itf_netif itf \<in> set (netif_list s1)" by simp_all
  from lwip_stack.tcpip_deinit_ok [OF host this] s1(2-4) held
  have "\<exists>s2. mm_halow_cb_tcpip_deinit lw itf s1 = Some s2 \<and> netif_list s2 = netif_list s
      \<and> (netif_default s \<noteq> 0 \<longrightarrow> netif_default s2 = netif_default s)
      \<and> netif_flags (netifs s2 (itf_netif itf)) = 0 \<and> same_flags {itf_netif itf} s s2"
    by (auto simp: same_flags_def)
  with s1 show "\<exists>s1 s2. mm_halow_cb_tcpip_init lw w itf s = Some s1 \<and> netif_list s1 = itf_netif itf # netif_list s
      \<and> netif_default s1 = (if netif_default s = 0 then itf_netif itf else netif_default s)
      \<and> mm_halow_cb_tcpip_deinit lw itf s1 = Some s2 \<and> netif_list s2 = netif_list s
      \<and> (netif_default s \<noteq> 0 \<longrightarrow> netif_default s2 = netif_default s)
      \<and> netif_flags (netifs s2 (itf_netif itf)) = 0 \<and> same_flags {itf_netif itf} s s2" by blast
next
  assume t: "distinct (netif_list t) \<and> itf_netif itf \<in> set (netif_list t) \<and> 0 \<notin> set (netif_list t)"
  let ?rest = "remove1 (itf_netif itf) (netif_list t)"
  from t lwip_stack.tcpip_deinit_ok [OF host, of t itf] obtain t' where
    t': "mm_halow_cb_tcpip_deinit lw itf t = Some t'" "netif_list t' = ?rest"
      "netif_default t' = (if netif_default t \<noteq> itf_netif itf then netif_default t
        else case List.find (\<lambda>n. netif_is_up lw n t) ?rest of Some n \<Rightarrow> n | None \<Rightarrow> 0)" by blast
  have "netif_default t = itf_netif itf \<Longrightarrow>
      (netif_default t' \<in> set ?rest \<and> netif_is_up lw (netif_default t') t)
      \<or> (netif_default t' = 0 \<and> (\<forall>n \<in> set ?rest. \<not> netif_is_up lw n t))"
    using t'(3) by (cases "List.find (\<lambda>n. netif_is_up lw n t) ?rest")
      (auto simp: find_None_iff find_Some_iff nth_mem)
  with t' show "\<exists>t'. mm_halow_cb_tcpip_deinit lw itf t = Some t' \<and> netif_list t' = ?rest
      \<and> (netif_default t \<noteq> itf_netif itf \<longrightarrow> netif_default t' = netif_default t)
      \<and> (netif_default t = itf_netif itf \<longrightarrow>
           (netif_default t' \<in> set (netif_list t') \<and> netif_is_up lw (netif_default t') t)
           \<or> (netif_default t' = 0 \<and> (\<forall>n \<in> set (netif_list t'). \<not> netif_is_up lw n t)))" by auto
qed

text \<open>The driver's initial state on a host whose one other interface, number 7, is up and the default.\<close>

definition other_netif :: "u8 \<Rightarrow> netif" where
  "other_netif flags = \<lparr>netif_name = ''e0'', netif_flags = flags, netif_mtu = 1500, netif_hwaddr = [],
     netif_ip_addr = 1, netif_driver = False\<rparr>"

definition halow0 :: "((ptr list), u8 list) halow_st_scheme" where
  "halow0 = halow_st.extend (hal_st.extend
       (pktmem_st.extend pktmem0 (hal_st.fields 0 0 False False (replicate 128 0) False False))
       (halow_st.fields (mm_halow_state_init 32 100) False 0 [] []
          ((\<lambda>_. other_netif 0)(7 := other_netif 5)) [7] 7)) []"

lemma halow0_simps:
  "mm_halow_state halow0 = mm_halow_state_init 32 100" "mm_halow_poll halow0 = False" "mm_halow_tx_buf halow0 = 0"
  "vendor_calls halow0 = []" "lwip_calls halow0 = []" "netif_list halow0 = [7]" "netif_default halow0 = 7"
  "netifs halow0 = (\<lambda>_. other_netif 0)(7 := other_netif 5)"
  by (simp_all add: halow0_def halow_st.extend_def hal_st.extend_def halow_st.fields_def)

theorem netif_roundtrip_witness:
  "\<exists>s1 s2. mm_halow_cb_tcpip_init host_lwip quiet_wlan MM_HALOW_ITF_STA halow0 = Some s1 \<and> netif_list s1 = [1, 7]
    \<and> mm_halow_cb_tcpip_deinit host_lwip MM_HALOW_ITF_STA s1 = Some s2 \<and> netif_list s2 = [7] \<and> netif_default s2 = 7"
proof -
  have "itf_netif MM_HALOW_ITF_STA \<notin> set (netif_list halow0)" "distinct (netif_list halow0)"
    "netif_default halow0 \<noteq> itf_netif MM_HALOW_ITF_STA"
    by (simp_all add: halow0_simps itf_netif_def)
  from conjunct1 [OF netif_roundtrip [OF host.lwip_stack_axioms this]] show ?thesis
    by (auto simp: halow0_simps itf_netif_def)
qed


lemma rx_eval:
  "map_option lwip_calls (mm_halow_cb_process_ethernet host_lwip 6 [1, 2] [3] halow0) = Some [L_input 7 8192]"
  by (simp add: mm_halow_cb_process_ethernet_def halow0_simps mm_halow_state_init_def netif_is_link_up_def
      itf_netif_def other_netif_def host_lwip_def Let_def)


end
