(* ===== verification/Halow_Lifecycle.thy ===== *)
theory Halow_Lifecycle
  imports Halow_Netif_Props
begin

text \<open>
  The life of the driver: init, bringing the interfaces up and down, deinit. Every call of
  morselib and of lwIP may run the driver's callbacks and tasks underneath, so their
  contract, the locale \<open>halow_world\<close>, is that they return and that they leave the variables
  the lifecycle rests on alone, but for the booted flag, which the fatal error callback
  clears. That the driver's own callbacks meet that contract is shown here too.
\<close>

section \<open>What a callback may change\<close>

definition core :: "('l, 'a) halow_st_scheme \<Rightarrow> u8 \<times> bool \<times> bool \<times> ptr \<times> ptr \<times> bool \<times> bool" where
  "core s = (itf_state (mm_halow_state s), initted (mm_halow_state s), mm_halow_poll s, mm_halow_tx_buf s,
     mm_halow_heap_mem s, mm_halow_sched_teardown s, mm_halow_sched_in_callback s)"

definition ctl_keeps :: "bool \<Rightarrow> ('l, 'a) halow_st_scheme \<Rightarrow> ('l, 'a) halow_st_scheme \<Rightarrow> bool" where
  "ctl_keeps fatal s s' \<longleftrightarrow> core s' = core s
     \<and> (booted (mm_halow_state s') = booted (mm_halow_state s) \<or> (fatal \<and> \<not> booted (mm_halow_state s')))
     \<and> h_pm (mm_halow_state s') = h_pm (mm_halow_state s)"

lemma ctl_keeps_refl [simp]: "ctl_keeps fatal s s"
  by (simp add: ctl_keeps_def)

lemma ctl_keeps_trans: "ctl_keeps fatal s t \<Longrightarrow> ctl_keeps fatal t u \<Longrightarrow> ctl_keeps fatal s u"
  by (auto simp: ctl_keeps_def)

lemma ctl_keeps_upd [simp]:
  "ctl_keeps fatal s (upd_netif n f t) = ctl_keeps fatal s t"
  "ctl_keeps fatal s (emit e t) = ctl_keeps fatal s t"
  "ctl_keeps fatal s (t\<lparr>vendor_calls := vc\<rparr>) = ctl_keeps fatal s t"
  "ctl_keeps fatal s (t\<lparr>lwip_calls := lc\<rparr>) = ctl_keeps fatal s t"
  "ctl_keeps fatal s (t\<lparr>netif_list := nl\<rparr>) = ctl_keeps fatal s t"
  by (simp_all add: ctl_keeps_def core_def upd_netif_def emit_def)

lemma ctl_keeps_self:
  "(\<And>self. itf_state (f self) = itf_state self \<and> initted (f self) = initted self \<and> booted (f self) = booted self
     \<and> h_pm (f self) = h_pm self) \<Longrightarrow>
   ctl_keeps fatal s t \<Longrightarrow> ctl_keeps fatal s (upd_self f t)"
  by (simp add: ctl_keeps_def core_def upd_self_def)

lemma ctl_keeps_trace [simp]: "ctl_keeps fatal s (trace_printf line t) = ctl_keeps fatal s t"
  by (simp add: trace_printf_def)

text \<open>
  The invariant between operations: the pool, the transmit buffer and the poll hook are
  there exactly while the driver is initialised; an interface is up only then, and, unless
  the transceiver failed, only while it is booted; teardown is a phase inside an operation.
  An access point has to be listening, so it is up only with power save off.
\<close>

definition life_inv :: "bool \<Rightarrow> ('l, 'a) halow_st_scheme \<Rightarrow> bool" where
  "life_inv fatal s \<longleftrightarrow> (let self = mm_halow_state s in
     (initted self \<longleftrightarrow> mm_halow_heap_mem s \<noteq> 0) \<and> (initted self \<longleftrightarrow> mm_halow_poll s) \<and> (initted self \<longleftrightarrow> mm_halow_tx_buf s \<noteq> 0)
     \<and> (\<not> initted self \<longrightarrow> itf_state self = 0 \<and> \<not> booted self) \<and> itf_state self \<in> {0, 1, 2, 3}
     \<and> (\<not> fatal \<and> itf_state self \<noteq> 0 \<longrightarrow> booted self) \<and> \<not> mm_halow_sched_teardown s
     \<and> (itf_up self MM_HALOW_ITF_AP \<longrightarrow> h_pm self = MM_HALOW_PM_NONE))"

lemma life_inv_keeps: "life_inv fatal s \<Longrightarrow> ctl_keeps fatal s s' \<Longrightarrow> life_inv fatal s'"
  by (auto simp: life_inv_def Let_def ctl_keeps_def core_def itf_up_def)

lemma itf_bit_simps [simp]: "itf_bit 0 = 1" "itf_bit 1 = 2"
  by (simp_all add: itf_bit_def)

lemma itf_up_zero [simp]: "itf_state self = 0 \<Longrightarrow> \<not> itf_up self itf"
  by (simp add: itf_up_def)

lemma itf_masks:
  assumes "x \<in> {0, 1, 2, 3 :: u8}" and "itf \<in> {MM_HALOW_ITF_STA, MM_HALOW_ITF_AP}"
  shows "or x (itf_bit itf) \<in> {1, 2, 3}" and "and (or x (itf_bit itf)) (itf_bit itf) \<noteq> 0"
    and "and x (not (itf_bit itf)) \<in> {0, 1, 2, 3}" and "and x (itf_bit itf) = 0 \<Longrightarrow> and x (not (itf_bit itf)) = x"
    and "x = 0 \<Longrightarrow> and x (not (itf_bit itf)) = 0" and "and (and x (not (itf_bit itf))) (itf_bit itf) = 0"
  using assms by auto

section \<open>Calls that return and keep a relation\<close>

definition ret1 :: "('s \<Rightarrow> 's \<Rightarrow> bool) \<Rightarrow> 's \<Rightarrow> 's option \<Rightarrow> bool" where
  "ret1 R s m \<longleftrightarrow> (\<exists>s'. m = Some s' \<and> R s s')"

definition ret2 :: "('s \<Rightarrow> 's \<Rightarrow> bool) \<Rightarrow> 's \<Rightarrow> ('r \<times> 's) option \<Rightarrow> bool" where
  "ret2 R s m \<longleftrightarrow> (\<exists>r s'. m = Some (r, s') \<and> R s s')"

named_theorems rets

lemma ret_Some [rets]:
  "R s t \<Longrightarrow> ret1 R s (Some t)" "R s t \<Longrightarrow> ret2 R s (Some (r, t))"
  by (simp_all add: ret1_def ret2_def)

lemma ret1_bind [rets]:
  "ret1 R s m \<Longrightarrow> (\<And>s'. R s s' \<Longrightarrow> ret1 R s (f s')) \<Longrightarrow> ret1 R s (Option.bind m f)"
  "ret2 R s m2 \<Longrightarrow> (\<And>r s'. R s s' \<Longrightarrow> ret1 R s (g r s')) \<Longrightarrow> ret1 R s (Option.bind m2 (\<lambda>(r, s'). g r s'))"
  by (auto simp: ret1_def ret2_def)

lemma ret2_bind [rets]:
  "ret1 R s m \<Longrightarrow> (\<And>s'. R s s' \<Longrightarrow> ret2 R s (f s')) \<Longrightarrow> ret2 R s (Option.bind m f)"
  "ret2 R s m2 \<Longrightarrow> (\<And>r s'. R s s' \<Longrightarrow> ret2 R s (g r s')) \<Longrightarrow> ret2 R s (Option.bind m2 (\<lambda>(r, s'). g r s'))"
  by (auto simp: ret1_def ret2_def)

lemma ret_if [rets]:
  "(b \<Longrightarrow> ret1 R s m) \<Longrightarrow> (\<not> b \<Longrightarrow> ret1 R s n) \<Longrightarrow> ret1 R s (if b then m else n)"
  "(b \<Longrightarrow> ret2 R s m2) \<Longrightarrow> (\<not> b \<Longrightarrow> ret2 R s n2) \<Longrightarrow> ret2 R s (if b then m2 else n2)"
  by simp_all

lemma ret1_map [rets]:
  "ret1 R s m \<Longrightarrow> (\<And>s'. R s s' \<Longrightarrow> R s (f s')) \<Longrightarrow> ret1 R s (map_option f m)"
  by (auto simp: ret1_def)

lemma ret_option [rets]:
  "(x = None \<Longrightarrow> ret1 R s m) \<Longrightarrow> (\<And>v. x = Some v \<Longrightarrow> ret1 R s (f v)) \<Longrightarrow>
     ret1 R s (case x of None \<Rightarrow> m | Some v \<Rightarrow> f v)"
  "(x = None \<Longrightarrow> ret2 R s m2) \<Longrightarrow> (\<And>v. x = Some v \<Longrightarrow> ret2 R s (g v)) \<Longrightarrow>
     ret2 R s (case x of None \<Rightarrow> m2 | Some v \<Rightarrow> g v)"
  by (simp_all split: option.split)

lemma ret2_map: "ret2 R s m \<Longrightarrow> ret2 R s (map_option (\<lambda>(r, s'). (f r, s')) m)"
  by (auto simp: ret2_def)

locale halow_world =
  fixes pf :: "('l, 'a) pf" and fatal :: bool
  assumes vend: "ret2 (ctl_keeps fatal) s (vendor (p_wlan pf) c s)"
    and mac: "\<exists>r m s'. get_vif_mac_addr (p_wlan pf) vif b s = Some (r, m, s') \<and> ctl_keeps fatal s s'"
    and lwip: "ret1 (ctl_keeps fatal) s (lwip_do (p_lwip pf) lc s)"
    and add: "(\<And>t. ret1 (ctl_keeps fatal) t (init t)) \<Longrightarrow> ret1 (ctl_keeps fatal) s (netif_add (p_lwip pf) n init s)"
begin

abbreviation K :: "('l, 'a) halow_st_scheme \<Rightarrow> ('l, 'a) halow_st_scheme \<Rightarrow> bool" where
  "K \<equiv> ctl_keeps fatal"

lemma vcall_ret [rets]: "K s t \<Longrightarrow> ret2 K s (vcall (p_wlan pf) c t)"
  using vend [of "t\<lparr>vendor_calls := vendor_calls t @ [c]\<rparr>" c]
  by (auto simp: ret2_def vcall_def ctl_keeps_def core_def)

lemma vret_ret [rets]: "K s t \<Longrightarrow> ret2 K s (vret (p_wlan pf) c t)"
  unfolding vret_def by (intro ret2_map vcall_ret)

lemma vdo_ret [rets]: "K s t \<Longrightarrow> ret1 K s (vdo (p_wlan pf) c t)"
  using vcall_ret [of s t c] by (auto simp: ret1_def ret2_def vdo_def)

lemma ldo_ret [rets]: "K s t \<Longrightarrow> ret1 K s (ldo (p_lwip pf) c t)"
  using lwip [of "t\<lparr>lwip_calls := lwip_calls t @ [c]\<rparr>" c]
  by (auto simp: ret1_def ldo_def ctl_keeps_def core_def)

lemma store_mac_ret [rets]: "K s t \<Longrightarrow> ret1 K s (store_mac pf t)"
  using mac [of MMWLAN_VIF_STA "h_mac (mm_halow_state t)" t]
  by (auto simp: ret1_def store_mac_def intro!: ctl_keeps_self intro: ctl_keeps_trans)

lemma get_mac_ret: "\<exists>m s'. mm_halow_wifi_get_mac (p_wlan pf) itf b t = Some (m, s') \<and> K t s'"
  using mac [of "if itf = MM_HALOW_ITF_AP then MMWLAN_VIF_AP else MMWLAN_VIF_STA" b t]
  by (auto simp: mm_halow_wifi_get_mac_def)

lemma netif_init_ret: "ret1 K t (mm_halow_netif_init (p_lwip pf) (p_wlan pf) n t)"
proof -
  let ?t1 = "upd_netif n (\<lambda>i. i\<lparr>netif_driver := True, netif_mtu := MM_HALOW_MTU,
                                netif_flags := NETIF_FLAGS_INIT (p_lwip pf)\<rparr>) t"
  obtain m s2 where s2: "mm_halow_wifi_get_mac (p_wlan pf) (name_itf (netif_name (netifs t n)))
      (netif_hwaddr (netifs ?t1 n)) ?t1 = Some (m, s2)" "K ?t1 s2"
    using get_mac_ret by blast
  have k: "K t s2" using s2(2) by (simp add: ctl_keeps_def core_def upd_netif_def)
  show ?thesis unfolding mm_halow_netif_init_def Let_def
    by (simp add: s2(1) del: upd_netif_simps) (auto intro!: rets simp: k)
qed

lemma tcpip_init_ret: "K s t \<Longrightarrow> ret1 K s (mm_halow_cb_tcpip_init (p_lwip pf) (p_wlan pf) itf t)"
proof -
  assume k: "K s t"
  obtain a m g where cfg: "tcpip_config (p_lwip pf) itf = (a, m, g)" by (cases "tcpip_config (p_lwip pf) itf")
  have addr: "K s u \<Longrightarrow> ret1 K s (netif_add (p_lwip pf) n (mm_halow_netif_init (p_lwip pf) (p_wlan pf) n) u)" for n u
    using add [where init = "mm_halow_netif_init (p_lwip pf) (p_wlan pf) n" and n = n and s = u, OF netif_init_ret] by (auto simp: ret1_def intro: ctl_keeps_trans)
  show ?thesis unfolding mm_halow_cb_tcpip_init_def Let_def cfg prod.case
    by (intro rets addr) (simp_all add: k)
qed

lemma link_up_ret: "K s t \<Longrightarrow> ret1 K s (mm_halow_cb_tcpip_set_link_up (p_lwip pf) itf t)"
  unfolding mm_halow_cb_tcpip_set_link_up_def Let_def by (intro rets) simp_all

lemma link_down_ret: "K s t \<Longrightarrow> ret1 K s (mm_halow_cb_tcpip_set_link_down (p_lwip pf) itf t)"
  unfolding mm_halow_cb_tcpip_set_link_down_def Let_def by (intro rets) simp_all

lemma tcpip_deinit_ret: "K s t \<Longrightarrow> ret1 K s (mm_halow_cb_tcpip_deinit (p_lwip pf) itf t)"
  unfolding mm_halow_cb_tcpip_deinit_def Let_def by (intro rets) simp_all

section \<open>Settings, country, access point\<close>

lemma apply_pm_ret: "K s t \<Longrightarrow> ret2 K s (mm_halow_apply_pm pf t)"
  unfolding mm_halow_apply_pm_def by (intro rets)

lemma apply_radio_ret: "K s t \<Longrightarrow> ret1 K s (mm_halow_apply_radio pf t)"
  unfolding mm_halow_apply_radio_def Let_def by (intro rets)

lemma set_country_ret: "K s t \<Longrightarrow> ret2 K s (mm_halow_set_country pf country t)"
  unfolding mm_halow_set_country_def by (intro rets ctl_keeps_self) simp_all

lemma ap_enable_ret: "K s t \<Longrightarrow> ret2 K s (mm_halow_ap_enable pf t)"
  unfolding mm_halow_ap_enable_def Let_def by (intro rets ctl_keeps_self) simp_all

lemma ap_enable_pm: "mm_halow_ap_enable pf s = Some (Ok, s') \<Longrightarrow> h_pm (mm_halow_state s) = MM_HALOW_PM_NONE"
  by (auto simp: mm_halow_ap_enable_def Let_def split: if_splits)

section \<open>Boot and init\<close>

lemma boot_transceiver_ok:
  "\<exists>ret s'. boot_transceiver pf s = Some (ret, s') \<and> core s' = core s
     \<and> h_pm (mm_halow_state s') = h_pm (mm_halow_state s)
     \<and> (ret \<noteq> Ok \<longrightarrow> K s s') \<and> (ret = Ok \<and> \<not> fatal \<longrightarrow> booted (mm_halow_state s'))"
proof (cases "booted (mm_halow_state s)")
  case False
  obtain ret s1 where s1: "vret (p_wlan pf) V_boot s = Some (ret, s1)" "K s s1"
    using vret_ret [of s s V_boot] by (auto simp: ret2_def)
  let ?s2 = "upd_self (\<lambda>self. self\<lparr>booted := True\<rparr>) s1"
  obtain s3 where s3: "store_mac pf ?s2 = Some s3" "K ?s2 s3"
    using store_mac_ret [of ?s2 ?s2] by (auto simp: ret1_def)
  have "core ?s2 = core s1" "booted (mm_halow_state ?s2)" "h_pm (mm_halow_state ?s2) = h_pm (mm_halow_state s1)"
    by (simp_all add: core_def upd_self_def)
  with False s1 s3 show ?thesis by (auto simp: boot_transceiver_def ctl_keeps_def)
qed (simp add: boot_transceiver_def)

text \<open>Init on a heap that has gone back to the port: either all of it is set up, or nothing is left.\<close>

lemma init_ok:
  assumes un: "\<not> initted (mm_halow_state s)" "mm_halow_heap_mem s = 0" "mm_halow_tx_buf s = 0" "\<not> booted (mm_halow_state s)"
  shows "\<exists>ret s' buf mem. mm_halow_init pf s = Some (ret, s') \<and> \<not> booted (mm_halow_state s')
    \<and> core s' = (if ret = Ok then (0, True, True, buf, mem, mm_halow_sched_teardown s, mm_halow_sched_in_callback s)
                 else (0, False, mm_halow_poll s, 0, 0, mm_halow_sched_teardown s, mm_halow_sched_in_callback s))
    \<and> (ret = Ok \<longrightarrow> buf \<noteq> 0 \<and> mem \<noteq> 0)"
proof -
  let ?s1 = "upd_self (\<lambda>self. self\<lparr>itf_state := 0, scan_active := False, scan_cache := 0,
                   scan_cache_len := 0, scan_cache_max := 0, ap_sta_count := 0,
                   link_status := MM_HALOW_LINK_DOWN\<rparr>) s"
  let ?heap = "p_heap_alloc pf MM_HALOW_HEAP_SIZE"
  have mem1: "mm_halow_heap_mem ?s1 = 0" using un by (simp add: upd_self_def)
  show ?thesis
  proof (cases "?heap = 0")
    case True
    then have "mm_halow_osal_init (p_heap_alloc pf) ?s1 = (False, ?s1)"
      using mem1 by (simp add: mm_halow_osal_init_def)
    with un show ?thesis by (simp add: mm_halow_init_def core_def upd_self_def)
  next
    case False
    obtain s2 where s2: "mm_halow_osal_init (p_heap_alloc pf) ?s1 = (True, s2)" "mm_halow_heap_head s2 = ?heap"
      "mm_halow_heap_mem s2 = ?heap" "b_next (blk s2 ?heap) = 0" "mm_halow_state s2 = mm_halow_state ?s1"
      "core s2 = (0, False, mm_halow_poll s, 0, ?heap, mm_halow_sched_teardown s, mm_halow_sched_in_callback s)"
      using mem1 False un by (simp add: mm_halow_osal_init_def Let_def core_def upd_self_def)
    have "\<exists>buf s3. mm_halow_osal_malloc (MM_HALOW_TX_BUF_SIZE pf) s2 = Some (buf, s3) \<and> core s3 = core s2
        \<and> mm_halow_state s3 = mm_halow_state s2"
      using s2(2,4) False
      by (simp add: mm_halow_osal_malloc_def atomic_defs Let_def heap_first_fit.simps core_def)
    then obtain buf s3 where s3: "mm_halow_osal_malloc (MM_HALOW_TX_BUF_SIZE pf) s2 = Some (buf, s3)"
      "core s3 = core s2" "mm_halow_state s3 = mm_halow_state s2" by blast
    let ?s4 = "s3\<lparr>mm_halow_tx_buf := buf\<rparr>"
    have b4: "\<not> booted (mm_halow_state ?s4)" using un s2(5) s3(3) by (simp add: upd_self_def)
    have c4: "core ?s4 = (0, False, mm_halow_poll s, buf, ?heap, mm_halow_sched_teardown s, mm_halow_sched_in_callback s)"
      using s2(6) s3(2) by (simp add: core_def)
    show ?thesis
    proof (cases "buf = 0")
      case True
      then have "core (mm_halow_osal_deinit ?s4) = (0, False, mm_halow_poll s, 0, 0, mm_halow_sched_teardown s, mm_halow_sched_in_callback s)"
        "mm_halow_state (mm_halow_osal_deinit ?s4) = mm_halow_state ?s4"
        using c4 False by (simp_all add: core_def mm_halow_osal_deinit_def heap_release_def Let_def emit_def)
      with un s2(1) s3(1) True b4 show ?thesis by (simp add: mm_halow_init_def Let_def)
    next
      case buf: False
      let ?rest = "do {
               s5 \<leftarrow> vdo (p_wlan pf) V_init ?s4;
               (_, s6) \<leftarrow> mm_halow_apply_pm pf s5;
               s7 \<leftarrow> mm_halow_apply_radio pf s6;
               s8 \<leftarrow> vdo (p_wlan pf) V_register_fatal s7;
               s9 \<leftarrow> vdo (p_wlan pf) V_register_link_state s8;
               s10 \<leftarrow> vdo (p_wlan pf) (V_register_rx True) s9;
               store_mac pf s10
             }"
      have "ret1 K ?s4 ?rest" by (intro rets apply_pm_ret apply_radio_ret) simp_all
      then obtain s11 where s11: "?rest = Some s11" "K ?s4 s11" by (auto simp: ret1_def)
      let ?s12 = "(upd_self (\<lambda>self. self\<lparr>initted := True\<rparr>) s11)\<lparr>mm_halow_poll := True\<rparr>"
      have "mm_halow_init pf s = Option.bind ?rest
          (\<lambda>s11. Some (Ok, (upd_self (\<lambda>self. self\<lparr>initted := True\<rparr>) s11)\<lparr>mm_halow_poll := True\<rparr>))"
        using un s2(1) s3(1) buf by (simp add: mm_halow_init_def Let_def case_prod_beta')
      then have "mm_halow_init pf s = Some (Ok, ?s12)" by (simp only: s11(1) bind.simps)
      moreover have "core ?s12 = (0, True, True, buf, ?heap, mm_halow_sched_teardown s, mm_halow_sched_in_callback s)"
        "\<not> booted (mm_halow_state ?s12)"
        using s11(2) c4 b4 by (auto simp: ctl_keeps_def core_def upd_self_def)
      ultimately show ?thesis using buf False by auto
    qed
  qed
qed

section \<open>Interfaces up and down\<close>

lemma up_init_ok:
  assumes inv: "life_inv fatal s"
  shows "\<exists>ret s'. (if \<not> initted (mm_halow_state s) then mm_halow_init pf s else Some (Ok, s)) = Some (ret, s')
    \<and> life_inv fatal s' \<and> itf_state (mm_halow_state s') = itf_state (mm_halow_state s)
    \<and> mm_halow_sched_in_callback s' = mm_halow_sched_in_callback s \<and> (ret = Ok \<longrightarrow> initted (mm_halow_state s'))"
proof (cases "initted (mm_halow_state s)")
  case False
  with inv have "mm_halow_heap_mem s = 0" "mm_halow_tx_buf s = 0" "\<not> booted (mm_halow_state s)"
    by (auto simp: life_inv_def Let_def)
  from init_ok [OF False this] obtain ret s' buf mem where
    i: "mm_halow_init pf s = Some (ret, s')" "\<not> booted (mm_halow_state s')"
    "core s' = (if ret = Ok then (0, True, True, buf, mem, mm_halow_sched_teardown s, mm_halow_sched_in_callback s)
                 else (0, False, mm_halow_poll s, 0, 0, mm_halow_sched_teardown s, mm_halow_sched_in_callback s))"
    "ret = Ok \<longrightarrow> buf \<noteq> 0 \<and> mem \<noteq> 0" by blast
  with inv False show ?thesis
    by (cases "ret = Ok") (auto simp: life_inv_def Let_def core_def)
qed (use inv in simp)

lemma up_ok:
  assumes inv: "life_inv fatal s" and itf: "itf \<in> {MM_HALOW_ITF_STA, MM_HALOW_ITF_AP}"
    and down: "\<not> itf_up (mm_halow_state s) itf"
  shows "\<exists>ret s'. set_up_up pf itf country s = Some (ret, s') \<and> life_inv fatal s'
    \<and> mm_halow_sched_in_callback s' = mm_halow_sched_in_callback s
    \<and> (ret \<noteq> Ok \<longrightarrow> itf_state (mm_halow_state s') = itf_state (mm_halow_state s))
    \<and> (ret = Ok \<longrightarrow> itf_state (mm_halow_state s') = or (itf_state (mm_halow_state s)) (itf_bit itf)
         \<and> initted (mm_halow_state s') \<and> (\<not> fatal \<longrightarrow> booted (mm_halow_state s')))"
proof -
  obtain r1 s1 where s1: "(if \<not> initted (mm_halow_state s) then mm_halow_init pf s else Some (Ok, s)) = Some (r1, s1)"
    "life_inv fatal s1" "itf_state (mm_halow_state s1) = itf_state (mm_halow_state s)"
    "mm_halow_sched_in_callback s1 = mm_halow_sched_in_callback s" "r1 = Ok \<Longrightarrow> initted (mm_halow_state s1)"
    using up_init_ok [OF inv] by blast
  obtain r2 s2 where s2: "mm_halow_set_country pf country s1 = Some (r2, s2)" "K s1 s2"
    using set_country_ret [of s1 s1 country] by (auto simp: ret2_def)
  obtain r3 s3 where s3: "boot_transceiver pf s2 = Some (r3, s3)" "core s3 = core s2" "r3 \<noteq> Ok \<Longrightarrow> K s2 s3"
    "r3 = Ok \<Longrightarrow> \<not> fatal \<Longrightarrow> booted (mm_halow_state s3)" "h_pm (mm_halow_state s3) = h_pm (mm_halow_state s2)"
    using boot_transceiver_ok [of s2] by blast
  obtain r4 s4 where s4: "(if itf = MM_HALOW_ITF_AP then mm_halow_ap_enable pf s3 else Some (Ok, s3)) = Some (r4, s4)" "K s3 s4"
    using ap_enable_ret [of s3 s3] by (cases "itf = MM_HALOW_ITF_AP") (auto simp: ret2_def)
  obtain s5 where s5: "mm_halow_cb_tcpip_init (p_lwip pf) (p_wlan pf) itf s4 = Some s5" "K s4 s5"
    using tcpip_init_ret [of s4 s4 itf] by (auto simp: ret1_def)
  let ?s5 = "upd_self (\<lambda>self. self\<lparr>itf_state := or (itf_state self) (itf_bit itf)\<rparr>) s5"
  obtain s6 where s6: "(if itf = MM_HALOW_ITF_AP then mm_halow_cb_tcpip_set_link_up (p_lwip pf) itf ?s5 else Some ?s5) = Some s6"
    "K ?s5 s6"
    using link_up_ret [of ?s5 ?s5 itf] by (cases "itf = MM_HALOW_ITF_AP") (auto simp: ret1_def)
  have inv2: "life_inv fatal s2" by (rule life_inv_keeps [OF s1(2) s2(2)])
  have c2: "itf_state (mm_halow_state s2) = itf_state (mm_halow_state s)"
    "mm_halow_sched_in_callback s2 = mm_halow_sched_in_callback s" "initted (mm_halow_state s2) = initted (mm_halow_state s1)"
    using s1(3,4) s2(2) by (simp_all add: ctl_keeps_def core_def)
  have c3: "itf_state (mm_halow_state s3) = itf_state (mm_halow_state s)"
    "mm_halow_sched_in_callback s3 = mm_halow_sched_in_callback s" "initted (mm_halow_state s3) = initted (mm_halow_state s1)"
    using c2 s3(2) by (simp_all add: core_def)
  have inv3: "life_inv fatal s3" if "r1 = Ok"
  proof (cases "r3 = Ok")
    case True
    with s3(2,4,5) inv2 s1(5) [OF that] c2(3) show ?thesis by (auto simp: life_inv_def Let_def core_def itf_up_def)
  qed (use life_inv_keeps [OF inv2 s3(3)] in simp)
  have inv4: "life_inv fatal s4" if "r1 = Ok" by (rule life_inv_keeps [OF inv3 [OF that] s4(2)])
  have k45: "K s3 s5" by (rule ctl_keeps_trans [OF s4(2) s5(2)])
  have c5: "itf_state (mm_halow_state s4) = itf_state (mm_halow_state s)" "\<not> itf_up (mm_halow_state s4) itf"
    using c3 s4(2) down by (simp_all add: ctl_keeps_def core_def itf_up_def)
  have c6: "itf_state (mm_halow_state s6) = or (itf_state (mm_halow_state s)) (itf_bit itf)"
    "mm_halow_sched_in_callback s6 = mm_halow_sched_in_callback s" "initted (mm_halow_state s6) = initted (mm_halow_state s1)"
    using s6(2) k45 c3 by (simp_all add: ctl_keeps_def core_def upd_self_def)
  have ok6: "life_inv fatal s6 \<and> (\<not> fatal \<longrightarrow> booted (mm_halow_state s6))" if "r1 = Ok" "r3 = Ok" "r4 = Ok"
  proof -
    have inv5: "life_inv fatal s5" by (rule life_inv_keeps [OF inv4 [OF that(1)] s5(2)])
    have b: "\<not> fatal \<longrightarrow> booted (mm_halow_state s5)" using s3(4) [OF that(2)] k45 by (auto simp: ctl_keeps_def)
    have x5: "itf_state (mm_halow_state s5) \<in> {0, 1, 2, 3}" using inv5 by (simp add: life_inv_def Let_def)
    note m = itf_masks(1) [OF x5 itf]
    have "initted (mm_halow_state s5)" using k45 c3 s1(5) [OF that(1)] by (simp add: ctl_keeps_def core_def)
    moreover have "h_pm (mm_halow_state s5) = MM_HALOW_PM_NONE" if "itf_up (mm_halow_state ?s5) MM_HALOW_ITF_AP"
    proof (cases "itf = MM_HALOW_ITF_AP")
      case True
      with s4(1) \<open>r4 = Ok\<close> have "h_pm (mm_halow_state s3) = MM_HALOW_PM_NONE" by (auto dest: ap_enable_pm)
      with k45 show ?thesis by (simp add: ctl_keeps_def)
    next
      case False
      with itf that x5 have "itf_up (mm_halow_state s5) MM_HALOW_ITF_AP" by (auto simp: itf_up_def upd_self_def)
      with inv5 show ?thesis by (simp add: life_inv_def Let_def)
    qed
    ultimately have "life_inv fatal ?s5" using inv5 b m by (simp add: life_inv_def Let_def) (auto simp: upd_self_def)
    from life_inv_keeps [OF this s6(2)] b s6(2) show ?thesis by (auto simp: ctl_keeps_def upd_self_def)
  qed
  have eq: "set_up_up pf itf country s = Some (if r1 \<noteq> Ok then (r1, s1) else if r2 \<noteq> Ok then (r2, s2)
      else if r3 \<noteq> Ok then (r3, s3) else if r4 \<noteq> Ok then (r4, s4) else (Ok, s6))"
    unfolding set_up_up_def s1(1) using c5(2) by (simp add: s2(1) s3(1) s4(1) s5(1) s6(1))
  show ?thesis
    using eq s1(2-5) inv2 c2 inv3 c3 inv4 s4(2) c5 ok6 c6 by (auto simp: ctl_keeps_def core_def)
qed

lemma down_ok:
  assumes inv: "life_inv fatal s" and itf: "itf \<in> {MM_HALOW_ITF_STA, MM_HALOW_ITF_AP}"
    and ini: "initted (mm_halow_state s)"
  shows "\<exists>s'. set_up_down pf itf s = Some (Ok, s') \<and> life_inv fatal s' \<and> initted (mm_halow_state s')
    \<and> mm_halow_sched_in_callback s' = mm_halow_sched_in_callback s
    \<and> itf_state (mm_halow_state s') = and (itf_state (mm_halow_state s)) (not (itf_bit itf))
    \<and> (itf_state (mm_halow_state s') = 0 \<longrightarrow> \<not> booted (mm_halow_state s'))"
proof -
  let ?x = "itf_state (mm_halow_state s)"
  have x: "?x \<in> {0, 1, 2, 3}" using inv by (simp add: life_inv_def Let_def)
  note m = itf_masks [OF x itf]
  have "ret1 K s (if itf = MM_HALOW_ITF_AP then vdo (p_wlan pf) V_ap_disable s
            else map_option (upd_self (\<lambda>self. self\<lparr>link_status := MM_HALOW_LINK_DOWN\<rparr>)) (vdo (p_wlan pf) V_sta_disable s))"
    by (intro rets ctl_keeps_self) simp_all
  then obtain s1 where s1: "(if itf = MM_HALOW_ITF_AP then vdo (p_wlan pf) V_ap_disable s
            else map_option (upd_self (\<lambda>self. self\<lparr>link_status := MM_HALOW_LINK_DOWN\<rparr>)) (vdo (p_wlan pf) V_sta_disable s)) = Some s1"
      "K s s1"
    by (auto simp: ret1_def)
  obtain s' where s': "mm_halow_cb_tcpip_set_link_down (p_lwip pf) itf s1 = Some s'" "K s1 s'"
    using link_down_ret [of s1 s1 itf] by (auto simp: ret1_def)
  obtain s'' where s'': "mm_halow_cb_tcpip_deinit (p_lwip pf) itf s' = Some s''" "K s' s''"
    using tcpip_deinit_ret [of s' s' itf] by (auto simp: ret1_def)
  let ?clear = "upd_self (\<lambda>self. self\<lparr>itf_state := and (itf_state self) (not (itf_bit itf))\<rparr>) s''"
  let ?s2 = "if itf_up (mm_halow_state s1) itf then ?clear else s1"
  have k: "K s s''" by (rule ctl_keeps_trans [OF s1(2) ctl_keeps_trans [OF s'(2) s''(2)]])
  have x2: "itf_state (mm_halow_state ?s2) = and ?x (not (itf_bit itf))"
    using s1(2) k m(4) by (auto simp: ctl_keeps_def core_def upd_self_def itf_up_def)
  have c2: "core ?s2 = (and ?x (not (itf_bit itf)), True, mm_halow_poll s, mm_halow_tx_buf s, mm_halow_heap_mem s,
      mm_halow_sched_teardown s, mm_halow_sched_in_callback s)"
    using x2 s1(2) k ini by (auto simp: ctl_keeps_def core_def upd_self_def)
  have b2: "booted (mm_halow_state ?s2) = booted (mm_halow_state s) \<or> fatal"
    using s1(2) k by (auto simp: ctl_keeps_def upd_self_def)
  have "h_pm (mm_halow_state ?s2) = h_pm (mm_halow_state s)" using s1(2) k by (auto simp: ctl_keeps_def upd_self_def)
  moreover have "itf_up (mm_halow_state ?s2) MM_HALOW_ITF_AP \<Longrightarrow> itf_up (mm_halow_state s) MM_HALOW_ITF_AP"
    by (simp only: itf_up_def [of "mm_halow_state ?s2"] x2) (use x itf in \<open>auto simp: itf_up_def\<close>)
  ultimately have p2: "itf_up (mm_halow_state ?s2) MM_HALOW_ITF_AP \<Longrightarrow> h_pm (mm_halow_state ?s2) = MM_HALOW_PM_NONE"
    using inv by (simp add: life_inv_def Let_def)
  have "life_inv fatal t" if "core t = (and ?x (not (itf_bit itf)), True, mm_halow_poll s, mm_halow_tx_buf s, mm_halow_heap_mem s,
      mm_halow_sched_teardown s, mm_halow_sched_in_callback s)" "booted (mm_halow_state t) = booted (mm_halow_state s) \<or> fatal"
      "itf_up (mm_halow_state t) MM_HALOW_ITF_AP \<Longrightarrow> h_pm (mm_halow_state t) = MM_HALOW_PM_NONE" for t
    using inv ini that m(3,5) by (auto simp: life_inv_def Let_def core_def)
  from this [OF c2 b2 p2] have inv2: "life_inv fatal ?s2" .
  have eq: "set_up_down pf itf s = (if itf_state (mm_halow_state ?s2) = 0
     then do {
       s3 \<leftarrow> vdo (p_wlan pf) V_shutdown (?s2\<lparr>mm_halow_sched_teardown := True\<rparr>);
       Some (Ok, upd_self (\<lambda>self. self\<lparr>booted := False\<rparr>) (s3\<lparr>mm_halow_sched_teardown := False\<rparr>))
     }
     else Some (Ok, ?s2))"
    unfolding set_up_down_def s1(1) by (simp add: s'(1) s''(1))
  show ?thesis
  proof (cases "and ?x (not (itf_bit itf)) = 0")
    case True
    let ?t = "?s2\<lparr>mm_halow_sched_teardown := True\<rparr>"
    obtain s3 where s3: "vdo (p_wlan pf) V_shutdown ?t = Some s3" "K ?t s3"
      using vdo_ret [of ?t ?t V_shutdown] by (auto simp: ret1_def)
    let ?u = "upd_self (\<lambda>self. self\<lparr>booted := False\<rparr>) (s3\<lparr>mm_halow_sched_teardown := False\<rparr>)"
    have "core ?u = core (?s2\<lparr>mm_halow_sched_teardown := False\<rparr>)" "\<not> booted (mm_halow_state ?u)"
      using s3(2) by (auto simp: ctl_keeps_def core_def upd_self_def)
    then have "core ?u = (0, True, mm_halow_poll s, mm_halow_tx_buf s, mm_halow_heap_mem s, False,
        mm_halow_sched_in_callback s)" "\<not> booted (mm_halow_state ?u)"
      using c2 True by (auto simp: core_def)
    then show ?thesis using eq s3(1) x2 True inv ini by (auto simp: life_inv_def Let_def core_def)
  next
    case False
    with eq inv2 x2 c2 show ?thesis by (auto simp: core_def)
  qed
qed

lemma set_up_down_eq:
  "itf \<in> {MM_HALOW_ITF_STA, MM_HALOW_ITF_AP} \<Longrightarrow> initted (mm_halow_state s) \<Longrightarrow>
   mm_halow_wifi_set_up pf itf False country s = set_up_down pf itf s"
  by (auto simp: mm_halow_wifi_set_up_def)

section \<open>Deinit\<close>

lemma deinit_itf:
  assumes inv: "life_inv fatal s" and itf: "itf \<in> {MM_HALOW_ITF_STA, MM_HALOW_ITF_AP}" and ini: "initted (mm_halow_state s)"
  shows "\<exists>s'. (if itf_up (mm_halow_state s) itf
               then map_option snd (mm_halow_wifi_set_up pf itf False country s) else Some s) = Some s'
    \<and> life_inv fatal s' \<and> initted (mm_halow_state s')
    \<and> itf_state (mm_halow_state s') = and (itf_state (mm_halow_state s)) (not (itf_bit itf))"
proof (cases "itf_up (mm_halow_state s) itf")
  case True
  with down_ok [OF assms] set_up_down_eq [OF itf ini, of country] show ?thesis by auto
next
  case False
  have "itf_state (mm_halow_state s) \<in> {0, 1, 2, 3}" using inv by (simp add: life_inv_def Let_def)
  from itf_masks(4) [OF this itf] False inv ini show ?thesis by (simp add: itf_up_def)
qed

lemma deinit_ok:
  assumes inv: "life_inv fatal s" and ini: "initted (mm_halow_state s)" and cb: "\<not> mm_halow_sched_in_callback s"
  shows "\<exists>s'. mm_halow_deinit pf s = Some s' \<and> life_inv fatal s' \<and> \<not> initted (mm_halow_state s')
    \<and> scan_cache (mm_halow_state s') = 0 \<and> \<not> scan_active (mm_halow_state s')
    \<and> link_status (mm_halow_state s') = MM_HALOW_LINK_DOWN \<and> mm_halow_task_list s' = 0 \<and> mm_halow_timer_list s' = 0"
proof -
  let ?cc = "h_country (mm_halow_state s)"
  obtain s1 where s1: "(if itf_up (mm_halow_state s) MM_HALOW_ITF_STA
      then map_option snd (mm_halow_wifi_set_up pf MM_HALOW_ITF_STA False ?cc s) else Some s) = Some s1"
    "life_inv fatal s1" "initted (mm_halow_state s1)"
    "itf_state (mm_halow_state s1) = and (itf_state (mm_halow_state s)) (not (itf_bit MM_HALOW_ITF_STA))"
    using deinit_itf [OF inv _ ini, of MM_HALOW_ITF_STA ?cc] by auto
  let ?cc1 = "h_country (mm_halow_state s1)"
  obtain s2 where s2: "(if itf_up (mm_halow_state s1) MM_HALOW_ITF_AP
      then map_option snd (mm_halow_wifi_set_up pf MM_HALOW_ITF_AP False ?cc1 s1) else Some s1) = Some s2"
    "life_inv fatal s2" "initted (mm_halow_state s2)"
    "itf_state (mm_halow_state s2) = and (itf_state (mm_halow_state s1)) (not (itf_bit MM_HALOW_ITF_AP))"
    using deinit_itf [OF s1(2) _ s1(3), of MM_HALOW_ITF_AP ?cc1] by auto
  have "itf_state (mm_halow_state s) \<in> {0, 1, 2, 3}" using inv by (simp add: life_inv_def Let_def)
  then have zero: "itf_state (mm_halow_state s2) = 0" unfolding s2(4) s1(4) by auto
  obtain s3 where s3: "vdo (p_wlan pf) (V_register_rx False) s2 = Some s3" "K s2 s3"
    using vdo_ret [of s2 s2] by (auto simp: ret1_def)
  let ?s3 = "s3\<lparr>mm_halow_sched_teardown := True\<rparr>"
  obtain s4 where s4: "vdo (p_wlan pf) V_shutdown ?s3 = Some s4" "K ?s3 s4"
    using vdo_ret [of ?s3 ?s3] by (auto simp: ret1_def)
  obtain s5 where s5: "vdo (p_wlan pf) V_deinit s4 = Some s5" "K ?s3 s5"
    using vdo_ret [OF s4(2)] by (auto simp: ret1_def)
  have "itf_state (mm_halow_state s5) = 0"
    using s5(2) s3(2) zero by (simp add: ctl_keeps_def core_def)
  then show ?thesis
    using ini cb
    by (simp add: mm_halow_deinit_def s1(1) s2(1) s3(1) s4(1) s5(1) Let_def life_inv_def upd_self_def
        mm_halow_osal_deinit_def heap_release_def mm_halow_sched_deinit_def mm_halow_sched_wake_at_reset_def emit_def)
qed

section \<open>The operations of the lifecycle together\<close>

lemma set_up_ok:
  assumes inv: "life_inv fatal s"
  shows "\<exists>ret s'. mm_halow_wifi_set_up pf itf up country s = Some (ret, s') \<and> life_inv fatal s'
    \<and> (itf \<notin> {MM_HALOW_ITF_STA, MM_HALOW_ITF_AP} \<longrightarrow> ret = Neg EINVAL \<and> s' = s)
    \<and> (itf \<in> {MM_HALOW_ITF_STA, MM_HALOW_ITF_AP} \<longrightarrow>
        (up \<and> ret = Ok \<longrightarrow> itf_up (mm_halow_state s') itf \<and> initted (mm_halow_state s')
           \<and> (\<not> fatal \<longrightarrow> booted (mm_halow_state s')))
        \<and> (ret \<noteq> Ok \<longrightarrow> up \<and> itf_state (mm_halow_state s') = itf_state (mm_halow_state s))
        \<and> (\<not> up \<longrightarrow> \<not> itf_up (mm_halow_state s') itf
             \<and> (itf_state (mm_halow_state s') = 0 \<longrightarrow> \<not> booted (mm_halow_state s')))
        \<and> itf_up (mm_halow_state s') (1 - itf) = itf_up (mm_halow_state s) (1 - itf))"
proof (cases "itf \<in> {MM_HALOW_ITF_STA, MM_HALOW_ITF_AP}")
  case itf: True
  have x: "itf_state (mm_halow_state s) \<in> {0, 1, 2, 3}" using inv by (simp add: life_inv_def Let_def)
  note m = itf_masks [OF x itf]
  have other: "and (or (itf_state (mm_halow_state s)) (itf_bit itf)) (itf_bit (1 - itf))
       = and (itf_state (mm_halow_state s)) (itf_bit (1 - itf))"
    "and (and (itf_state (mm_halow_state s)) (not (itf_bit itf))) (itf_bit (1 - itf))
       = and (itf_state (mm_halow_state s)) (itf_bit (1 - itf))"
    using x itf by auto
  have unfold_up: "mm_halow_wifi_set_up pf itf up country s =
     (if up \<and> itf_up (mm_halow_state s) itf then Some (Ok, s)
      else if \<not> up \<and> \<not> initted (mm_halow_state s) then Some (Ok, s)
      else if up then set_up_up pf itf country s else set_up_down pf itf s)"
    using itf by (auto simp: mm_halow_wifi_set_up_def)
  consider (same) "up" "itf_up (mm_halow_state s) itf" | (go) "up" "\<not> itf_up (mm_halow_state s) itf"
    | (none) "\<not> up" "\<not> initted (mm_halow_state s)" | (down) "\<not> up" "initted (mm_halow_state s)" by blast
  then show ?thesis
  proof cases
    case same
    then have "itf_state (mm_halow_state s) \<noteq> 0" by (auto simp: itf_up_def)
    with inv have "initted (mm_halow_state s)" "\<not> fatal \<longrightarrow> booted (mm_halow_state s)" by (auto simp: life_inv_def Let_def)
    with same inv itf unfold_up show ?thesis by simp
  next
    case go
    from up_ok [OF inv itf go(2), of country] obtain ret s' where
      r: "set_up_up pf itf country s = Some (ret, s')" "life_inv fatal s'"
        "ret \<noteq> Ok \<Longrightarrow> itf_state (mm_halow_state s') = itf_state (mm_halow_state s)"
        "ret = Ok \<Longrightarrow> itf_state (mm_halow_state s') = or (itf_state (mm_halow_state s)) (itf_bit itf)
           \<and> initted (mm_halow_state s') \<and> (\<not> fatal \<longrightarrow> booted (mm_halow_state s'))" by blast
    have eq: "mm_halow_wifi_set_up pf itf up country s = Some (ret, s')" using unfold_up go r(1) by simp
    have oth: "itf_up (mm_halow_state s') (1 - itf) = itf_up (mm_halow_state s) (1 - itf)"
      using r(3,4) other(1) by (cases "ret = Ok") (simp_all add: itf_up_def)
    have on: "ret = Ok \<Longrightarrow> itf_up (mm_halow_state s') itf" using r(4) m(2) by (simp add: itf_up_def)
    show ?thesis using go(1) itf r(2-4) on eq oth by (intro exI [of _ ret] exI [of _ s']) blast
  next
    case none
    with inv have "itf_state (mm_halow_state s) = 0" "\<not> booted (mm_halow_state s)" by (auto simp: life_inv_def Let_def)
    with none inv itf unfold_up show ?thesis by (simp add: itf_up_def)
  next
    case down
    from down_ok [OF inv itf down(2)] obtain s' where
      r: "set_up_down pf itf s = Some (Ok, s')" "life_inv fatal s'"
        "itf_state (mm_halow_state s') = and (itf_state (mm_halow_state s)) (not (itf_bit itf))"
        "itf_state (mm_halow_state s') = 0 \<longrightarrow> \<not> booted (mm_halow_state s')" by blast
    have eq: "mm_halow_wifi_set_up pf itf up country s = Some (Ok, s')" using unfold_up down r(1) by simp
    have oth: "itf_up (mm_halow_state s') (1 - itf) = itf_up (mm_halow_state s) (1 - itf)"
      using r(3) other(2) by (simp add: itf_up_def)
    have off: "\<not> itf_up (mm_halow_state s') itf" using r(3) m(6) by (simp add: itf_up_def)
    show ?thesis using down(1) itf r(2,4) off eq oth by (intro exI [of _ Ok] exI [of _ s']) blast
  qed
qed (use inv in \<open>auto simp: mm_halow_wifi_set_up_def\<close>)

text \<open>Power save: refused while an access point is up, rolled back when morselib refuses it.\<close>

lemma pm_ok:
  assumes inv: "life_inv fatal s"
  shows "\<exists>ret s'. mm_halow_wifi_pm pf pm s = Some (ret, s') \<and> life_inv fatal s'
    \<and> h_pm (mm_halow_state s') = (if ret = Ok then pm else h_pm (mm_halow_state s))
    \<and> (pm \<noteq> MM_HALOW_PM_NONE \<and> itf_up (mm_halow_state s) MM_HALOW_ITF_AP \<longrightarrow> ret = Neg EPERM \<and> s' = s)"
proof (cases "pm \<noteq> MM_HALOW_PM_NONE \<and> itf_up (mm_halow_state s) MM_HALOW_ITF_AP")
  case True
  with inv show ?thesis by (simp add: mm_halow_wifi_pm_def)
next
  case False
  let ?s1 = "upd_self (\<lambda>self. self\<lparr>h_pm := pm\<rparr>) s"
  have inv1: "life_inv fatal ?s1" using inv False by (auto simp: life_inv_def Let_def upd_self_def itf_up_def)
  obtain ret s2 where s2: "mm_halow_apply_pm pf ?s1 = Some (ret, s2)" "K ?s1 s2"
    using apply_pm_ret [of ?s1 ?s1] by (auto simp: ret2_def)
  let ?rolled = "upd_self (\<lambda>self. self\<lparr>h_pm := h_pm (mm_halow_state s)\<rparr>) s2"
  have "K s ?rolled" using s2(2) by (simp add: ctl_keeps_def core_def upd_self_def)
  then have "life_inv fatal ?rolled" "h_pm (mm_halow_state ?rolled) = h_pm (mm_halow_state s)"
    using life_inv_keeps [OF inv] by (simp_all add: ctl_keeps_def)
  moreover have "life_inv fatal s2" "h_pm (mm_halow_state s2) = pm" "h_pm (mm_halow_state ?s1) = pm"
    using life_inv_keeps [OF inv1 s2(2)] s2(2) by (simp_all add: ctl_keeps_def upd_self_def)
  moreover have "mm_halow_wifi_pm pf pm s = Some (if \<not> booted (mm_halow_state ?s1) then (Ok, ?s1)
      else if ret \<noteq> Ok then (ret, ?rolled) else (Ok, s2))"
    unfolding mm_halow_wifi_pm_def if_not_P [OF False] Let_def by (simp add: s2(1))
  ultimately show ?thesis using inv1 False
    by (cases "booted (mm_halow_state ?s1)"; cases "ret = Ok") (simp_all only: if_True if_False not_not not_True_eq_False not_False_eq_True option.inject prod.inject, auto)
qed

end

section \<open>Reachable states\<close>

inductive life_reach :: "('l, 'a) pf \<Rightarrow> bool \<Rightarrow> ('l, 'a) halow_st_scheme \<Rightarrow> bool" for pf fatal where
  start: "mm_halow_state s = mm_halow_state_init m n \<Longrightarrow> \<not> mm_halow_poll s \<Longrightarrow> mm_halow_tx_buf s = 0 \<Longrightarrow>
    mm_halow_heap_mem s = 0 \<Longrightarrow> \<not> mm_halow_sched_teardown s \<Longrightarrow> life_reach pf fatal s"
| init: "life_reach pf fatal s \<Longrightarrow> mm_halow_init pf s = Some (ret, s') \<Longrightarrow> life_reach pf fatal s'"
| set_up: "life_reach pf fatal s \<Longrightarrow> mm_halow_wifi_set_up pf itf up country s = Some (ret, s') \<Longrightarrow> life_reach pf fatal s'"
| deinit: "life_reach pf fatal s \<Longrightarrow> mm_halow_deinit pf s = Some s' \<Longrightarrow> life_reach pf fatal s'"
| pm: "life_reach pf fatal s \<Longrightarrow> mm_halow_wifi_pm pf pm s = Some (ret, s') \<Longrightarrow> life_reach pf fatal s'"
| other: "life_reach pf fatal s \<Longrightarrow> ctl_keeps fatal s s' \<Longrightarrow> life_reach pf fatal s'"

lemma life_reach_inv:
  assumes w: "halow_world pf fatal" shows "life_reach pf fatal s \<Longrightarrow> life_inv fatal s"
proof (induction rule: life_reach.induct)
  case (start s m n)
  then show ?case by (simp add: life_inv_def mm_halow_state_init_def)
next
  case (init s ret s')
  then show ?case using halow_world.up_init_ok [OF w init.IH]
    by (cases "initted (mm_halow_state s)") (auto simp: mm_halow_init_def)
next
  case (set_up s itf up country ret s')
  then show ?case using halow_world.set_up_ok [OF w set_up.IH, of itf up country] by auto
next
  case (deinit s s')
  show ?case
  proof (cases "initted (mm_halow_state s) \<and> \<not> mm_halow_sched_in_callback s")
    case True
    with halow_world.deinit_ok [OF w deinit.IH] deinit(2) show ?thesis by auto
  next
    case False
    then have "mm_halow_deinit pf s = Some s"
      unfolding mm_halow_deinit_def by (cases "initted (mm_halow_state s)") simp_all
    with deinit show ?thesis by simp
  qed
next
  case (pm s pm ret s')
  with halow_world.pm_ok [OF w pm.IH, of pm] show ?case by auto
next
  case (other s s')
  then show ?case by (blast intro: life_inv_keeps)
qed

section \<open>The driver's own callbacks keep the contract\<close>

lemma self_callbacks_keep:
  "ctl_keeps fatal s (upd_self (mm_halow_scan_rx_cb pf r) s)"
  "ctl_keeps fatal s (upd_self mm_halow_scan_complete_cb s)"
  "ctl_keeps fatal s (upd_self (mm_halow_ap_sta_status_cb pf mac authorized) s)"
  "ctl_keeps fatal s (mm_halow_sta_status_cb st s)"
  by (intro ctl_keeps_self; simp add: scan_rx_cb_eq mm_halow_scan_cache_add_def mm_halow_scan_complete_cb_def
        mm_halow_ap_sta_status_cb_def Let_def split: option.split)+
     (simp add: mm_halow_sta_status_cb_def ctl_keeps_self)

lemma link_callbacks_keep:
  assumes w: "halow_world pf fatal"
  shows "ret1 (ctl_keeps fatal) s (mm_halow_link_state_cb pf up s)"
    and "fatal \<Longrightarrow> ret1 (ctl_keeps fatal) s (mm_halow_fatal_error_cb pf s)"
proof -
  show "ret1 (ctl_keeps fatal) s (mm_halow_link_state_cb pf up s)"
    unfolding mm_halow_link_state_cb_def
    by (intro rets halow_world.link_up_ret [OF w] halow_world.link_down_ret [OF w]) simp_all
  assume fatal
  then have "ctl_keeps fatal s (upd_self (\<lambda>self. self\<lparr>booted := False, scan_active := False,
      link_status := MM_HALOW_LINK_FAIL\<rparr>) s)"
    by (simp add: ctl_keeps_def core_def upd_self_def)
  then show "ret1 (ctl_keeps fatal) s (mm_halow_fatal_error_cb pf s)"
    unfolding mm_halow_fatal_error_cb_def by (intro rets halow_world.link_down_ret [OF w]) simp_all
qed

section \<open>A platform that keeps the contract\<close>

definition host_pf :: "('l, u8 list) pf" where
  "host_pf = \<lparr>p_env = rest_env (\<lambda>s. s), p_timer = (\<lambda>cb tm s. Some s), p_hal = echo_port, p_wlan = quiet_wlan,
     p_lwip = host_lwip, p_heap_alloc = (\<lambda>n. 536870912)\<rparr>"

lemma host_pf_simps [simp]:
  "p_wlan host_pf = quiet_wlan" "p_lwip host_pf = host_lwip" "p_heap_alloc host_pf = (\<lambda>n. 536870912)"
  by (simp_all add: host_pf_def)

lemma host_lwip_do_keeps: "ctl_keeps fatal s (host_lwip_do c s)"
  by (cases c) (simp_all add: ctl_keeps_def core_def upd_netif_def)

interpretation host_world: halow_world host_pf fatal for fatal
proof (unfold_locales, goal_cases)
  case (4 init s n)
  then show ?case by (fastforce simp: host_lwip_def ret1_def)
qed (auto simp: quiet_wlan_def ret1_def ret2_def host_lwip_def host_lwip_do_keeps)


definition halow_off :: "((ptr list), u8 list) halow_st_scheme" where
  "halow_off = halow0\<lparr>mm_halow_heap_mem := 0, mm_halow_sched_teardown := False\<rparr>"

lemma halow_off_reach: "life_reach host_pf False halow_off"
  by (rule life_reach.start [of _ 32 100]) (simp_all add: halow_off_def halow0_simps)


end
