(* ===== verification/Halow_Tx.thy ===== *)
theory Halow_Tx
  imports Halow_Lifecycle
begin

text \<open>
  The transmit path. It runs inside lwIP, outside every driver task, and has to drive the
  driver itself until morselib can take the frame; what it needs of morselib, of a poll and
  of the clock is the locale \<open>tx_world\<close>. Inside it the wait is shown to end, to keep
  received frames away from lwIP all along and to stop doing so afterwards, and what is
  handed to morselib is shown to be the frame.
\<close>

section \<open>The contract\<close>

text \<open>What the path relies on between its own steps.\<close>

definition tx_keeps :: "('l, 'a) halow_st_scheme \<Rightarrow> ('l, 'a) halow_st_scheme \<Rightarrow> bool" where
  "tx_keeps s s' \<longleftrightarrow> rx_deferred (mm_halow_state s') = rx_deferred (mm_halow_state s)
     \<and> mm_halow_tx_buf s' = mm_halow_tx_buf s \<and> mm_halow_task_cur s' = mm_halow_task_cur s"

lemma tx_keeps_refl [simp]: "tx_keeps s s"
  by (simp add: tx_keeps_def)

lemma tx_keeps_trans: "tx_keeps s t \<Longrightarrow> tx_keeps t u \<Longrightarrow> tx_keeps s u"
  by (simp add: tx_keeps_def)

text \<open>
  The clock never goes back, and moves less than 2 ^ 30 ms in one step. Checking and polling
  take time: after finitely many rounds, counted by \<open>phase\<close>, the clock has moved.
\<close>

locale tx_world =
  fixes pf :: "('l, 'a) pf" and consistent :: "('l, 'a) halow_st_scheme \<Rightarrow> bool"
    and phase :: "('l, 'a) halow_st_scheme \<Rightarrow> nat"
  assumes deferring: "consistent s \<Longrightarrow> consistent (upd_self (\<lambda>self. self\<lparr>rx_deferred := b\<rparr>) s)"
    and ready: "consistent s \<Longrightarrow> \<exists>r s'. vcall (p_wlan pf) (V_tx_wait_until_ready 0) s = Some (r, s') \<and> consistent s'
          \<and> tx_keeps s s' \<and> time_ms s \<le> time_ms s' \<and> time_ms s' < time_ms s + 2 ^ 30"
    and poll: "consistent s \<Longrightarrow> mm_halow_task_cur s = 0 \<Longrightarrow> \<exists>s'. mm_halow_poll_func pf s = Some s' \<and> consistent s'
          \<and> tx_keeps s s' \<and> time_ms s \<le> time_ms s' \<and> time_ms s' < time_ms s + 2 ^ 30"
    and progress: "consistent s \<Longrightarrow> mm_halow_task_cur s = 0 \<Longrightarrow>
          vcall (p_wlan pf) (V_tx_wait_until_ready 0) s = Some (r, s1) \<Longrightarrow> r \<noteq> MMWLAN_SUCCESS \<Longrightarrow>
          mm_halow_poll_func pf s1 = Some s2 \<Longrightarrow> time_ms s < time_ms s2 \<or> (time_ms s2 = time_ms s \<and> phase s2 < phase s)"
begin

lemma elapsed_ticks:
  assumes "t0 \<le> time_ms s" "time_ms s < t0 + 2 ^ 32"
  shows "unat (mm_halow_ticks_ms s - of_nat t0) = time_ms s - t0"
  using assms by (simp add: mm_halow_ticks_ms_def unat_of_nat_u32 flip: of_nat_diff)

text \<open>The wait: it ends, ready or after 250 ms.\<close>

lemma wait_ends:
  assumes "consistent s" "mm_halow_task_cur s = 0" "t0 \<le> time_ms s" "time_ms s < t0 + 250 + 2 ^ 30"
  shows "\<exists>ready s'. tx_ready_loop pf (of_nat t0) s = Some (ready, s') \<and> consistent s' \<and> tx_keeps s s'
    \<and> time_ms s \<le> time_ms s' \<and> (\<not> ready \<longrightarrow> t0 + 250 \<le> time_ms s')
    \<and> (ready \<longrightarrow> (\<exists>t. vcall (p_wlan pf) (V_tx_wait_until_ready 0) t = Some (MMWLAN_SUCCESS, s')))"
  using assms
proof (induction s rule: wf_induct_rule [OF wf_measures,
    of "[\<lambda>s. t0 + 250 + 2 ^ 30 - time_ms s, phase]"])
  case (1 s)
  obtain r s1 where s1: "vcall (p_wlan pf) (V_tx_wait_until_ready 0) s = Some (r, s1)" "consistent s1"
    "tx_keeps s s1" "time_ms s \<le> time_ms s1" "time_ms s1 < time_ms s + 2 ^ 30"
    using ready [OF 1(2)] by blast
  have "unat (mm_halow_ticks_ms s1 - of_nat t0) = time_ms s1 - t0"
    by (rule elapsed_ticks) (use s1(4,5) 1(4,5) in simp_all)
  then have late: "mm_halow_ticks_ms s1 - of_nat t0 \<ge> 250 \<longleftrightarrow> t0 + 250 \<le> time_ms s1"
    using s1(4) 1(4) by (auto simp: word_le_nat_alt)
  show ?case
  proof (cases "r = MMWLAN_SUCCESS")
    case True
    then show ?thesis using s1 by (subst tx_ready_loop.simps) auto
  next
    case unready: False
    show ?thesis
    proof (cases "t0 + 250 \<le> time_ms s1")
      case True
      then show ?thesis using s1 unready late by (subst tx_ready_loop.simps) auto
    next
      case False
      have cur: "mm_halow_task_cur s1 = 0" using s1(3) 1(3) by (simp add: tx_keeps_def)
      obtain s2 where s2: "mm_halow_poll_func pf s1 = Some s2" "consistent s2" "tx_keeps s1 s2"
        "time_ms s1 \<le> time_ms s2" "time_ms s2 < time_ms s1 + 2 ^ 30"
        using poll [OF s1(2) cur] by blast
      have less: "(s2, s) \<in> measures [\<lambda>s. t0 + 250 + 2 ^ 30 - time_ms s, phase]"
        using progress [OF 1(2,3) s1(1) unready s2(1)] 1(5) s2(5) False by auto
      have "mm_halow_task_cur s2 = 0" using s2(3) cur by (simp add: tx_keeps_def)
      with 1(1) [OF less s2(2)] s1(4) s2(4,5) False 1(4)
      obtain ready s' where l: "tx_ready_loop pf (of_nat t0) s2 = Some (ready, s')" "consistent s'" "tx_keeps s2 s'"
        "time_ms s2 \<le> time_ms s'" "\<not> ready \<longrightarrow> t0 + 250 \<le> time_ms s'"
        "ready \<longrightarrow> (\<exists>t. vcall (p_wlan pf) (V_tx_wait_until_ready 0) t = Some (MMWLAN_SUCCESS, s'))" by auto
      have "tx_ready_loop pf (of_nat t0) s = tx_ready_loop pf (of_nat t0) s2"
        using s1(1) unready late False s2(1) by (subst tx_ready_loop.simps) simp
      moreover have "tx_keeps s s'" by (rule tx_keeps_trans [OF s1(3) tx_keeps_trans [OF s2(3) l(3)]])
      moreover have "time_ms s \<le> time_ms s'" using s1(4) s2(4) l(4) by simp
      ultimately show ?thesis using l by auto
    qed
  qed
qed

lemma tx_ready_ok:
  assumes c: "consistent s"
  shows "\<exists>ready s1. tx_ready pf s = Some (ready, s1) \<and> consistent s1 \<and> mm_halow_tx_buf s1 = mm_halow_tx_buf s
    \<and> mm_halow_task_cur s1 = mm_halow_task_cur s
    \<and> rx_deferred (mm_halow_state s1) = (mm_halow_task_cur s \<noteq> 0 \<and> rx_deferred (mm_halow_state s))
    \<and> (\<not> ready \<and> mm_halow_task_cur s = 0 \<longrightarrow> time_ms s + 250 \<le> time_ms s1)"
proof (cases "mm_halow_task_cur s = 0")
  case True
  let ?s = "upd_self (\<lambda>self. self\<lparr>rx_deferred := True\<rparr>) s"
  have eqs: "time_ms ?s = time_ms s" "mm_halow_task_cur ?s = 0" using True by (simp_all add: upd_self_def)
  obtain ready s1 where l: "tx_ready_loop pf (of_nat (time_ms s)) ?s = Some (ready, s1)" "consistent s1" "tx_keeps ?s s1"
    "\<not> ready \<longrightarrow> time_ms s + 250 \<le> time_ms s1"
    using wait_ends [OF deferring [OF c, of True], of "time_ms s"] eqs by auto
  let ?s1 = "upd_self (\<lambda>self. self\<lparr>rx_deferred := False\<rparr>) s1"
  have "tx_ready pf s = Some (ready, ?s1)"
    using True l(1) by (simp add: tx_ready_def mm_halow_sched_task_current_def mm_halow_ticks_ms_def)
  moreover have "mm_halow_tx_buf ?s1 = mm_halow_tx_buf s" "mm_halow_task_cur ?s1 = mm_halow_task_cur s"
    "\<not> rx_deferred (mm_halow_state ?s1)" "time_ms ?s1 = time_ms s1"
    using l(3) True by (simp_all add: tx_keeps_def upd_self_def)
  ultimately show ?thesis using deferring [OF l(2), of False] l(4) True by auto
next
  case False
  obtain r s1 where "vcall (p_wlan pf) (V_tx_wait_until_ready 0) s = Some (r, s1)" "consistent s1" "tx_keeps s s1"
    using ready [OF c] by blast
  with False show ?thesis by (auto simp: tx_ready_def mm_halow_sched_task_current_def tx_keeps_def)
qed

end

section \<open>The frame\<close>

definition frame_of :: "('l, 'a) pf \<Rightarrow> ptr \<Rightarrow> bool \<Rightarrow> nat \<Rightarrow> ('l, 'a) halow_st_scheme \<Rightarrow> u8 list" where
  "frame_of pf buf is_pbuf n s =
     (if is_pbuf \<and> pbuf_next (p_lwip pf) buf s \<noteq> 0 then pbuf_copy_partial (p_lwip pf) buf n s
      else load_bytes (if is_pbuf then pbuf_payload (p_lwip pf) buf s else buf) n (bytes s))"

lemma load_bytes_cong:
  "(\<And>i. i < n \<Longrightarrow> m' (p + of_nat i) = m (p + of_nat i)) \<Longrightarrow> load_bytes p n m' = load_bytes p n m"
  by (simp add: load_bytes_def)

text \<open>morselib's packet memory is its own: allocating a packet writes nothing else.\<close>

locale tx_frames = tx_world pf consistent phase
  for pf :: "('l, 'a) pf" and consistent phase +
  fixes packet_area :: "ptr set"
  assumes alloc: "\<exists>pkt s'. alloc_mmpkt_for_tx (p_wlan pf) len s = Some (pkt, s') \<and> (\<forall>a. a \<notin> packet_area \<longrightarrow> bytes s' a = bytes s a)"
    and tx_pkt: "\<exists>r s'. vcall (p_wlan pf) (V_tx_pkt pkt) s = Some (r, s')"
begin

lemma send_frame:
  assumes fits: "\<not> (len > MM_HALOW_TX_BUF_SIZE pf \<or> mm_halow_tx_buf s = 0)"
    and ready: "tx_ready pf s = Some (True, s1)" "mm_halow_tx_buf s1 = mm_halow_tx_buf s"
    and copies: "length (pbuf_copy_partial (p_lwip pf) buf (unat len) s1) = unat len"
    and own: "\<And>d i. d \<in> {buf, pbuf_payload (p_lwip pf) buf s1, mm_halow_tx_buf s} \<Longrightarrow> i < unat len \<Longrightarrow> d + of_nat i \<notin> packet_area"
  shows "\<exists>s2 pkt s3. alloc_mmpkt_for_tx (p_wlan pf) len s2 = Some (pkt, s3)
    \<and> (pkt = 0 \<longrightarrow> mm_halow_send_ethernet pf itf len buf is_pbuf s = Some (Neg EAGAIN, s3))
    \<and> (pkt \<noteq> 0 \<longrightarrow> (\<exists>status s4. vcall (p_wlan pf) (V_tx_pkt pkt)
           (pkt_append_data (p_wlan pf) pkt (frame_of pf buf is_pbuf (unat len) s1) s3) = Some (status, s4)
         \<and> mm_halow_send_ethernet pf itf len buf is_pbuf s
           = Some (if status = MMWLAN_SUCCESS then (Ok, mm_halow_request_poll s4)
                   else (mm_halow_status_to_errno status, s4))))"
proof -
  let ?lw = "p_lwip pf" and ?n = "unat len"
  let ?copy = "s1\<lparr>bytes := store_bytes (mm_halow_tx_buf s1) (pbuf_copy_partial ?lw buf ?n s1) (bytes s1)\<rparr>"
  obtain d s2 where d: "(if is_pbuf then if pbuf_next ?lw buf s1 = 0 then (pbuf_payload ?lw buf s1, s1)
      else (mm_halow_tx_buf s1, ?copy) else (buf, s1)) = (d, s2)"
    by (cases "if is_pbuf then if pbuf_next ?lw buf s1 = 0 then (pbuf_payload ?lw buf s1, s1)
      else (mm_halow_tx_buf s1, ?copy) else (buf, s1)")
  have small: "?n \<le> 4294967296" using unat_lt_u32 [of len] by linarith
  have frame: "load_bytes d ?n (bytes s2) = frame_of pf buf is_pbuf ?n s1"
    using d copies load_store_bytes [of "pbuf_copy_partial ?lw buf ?n s1" "mm_halow_tx_buf s1" "bytes s1"] small
    by (auto simp: frame_of_def split: if_splits)
  have mine: "d \<in> {buf, pbuf_payload ?lw buf s1, mm_halow_tx_buf s}"
    using d ready(2) by (auto split: if_splits)
  obtain pkt s3 where a: "alloc_mmpkt_for_tx (p_wlan pf) len s2 = Some (pkt, s3)"
    "\<And>a. a \<notin> packet_area \<Longrightarrow> bytes s3 a = bytes s2 a"
    using alloc [of len s2] by blast
  have kept: "load_bytes d ?n (bytes s3) = frame_of pf buf is_pbuf ?n s1"
    unfolding frame [symmetric] by (rule load_bytes_cong) (rule a(2) [OF own [OF mine]])
  obtain status s4 where t: "vcall (p_wlan pf) (V_tx_pkt pkt)
      (pkt_append_data (p_wlan pf) pkt (frame_of pf buf is_pbuf ?n s1) s3) = Some (status, s4)"
    using tx_pkt by blast
  have "mm_halow_send_ethernet pf itf len buf is_pbuf s
      = (if pkt = 0 then Some (Neg EAGAIN, s3) else Some (if status = MMWLAN_SUCCESS then (Ok, mm_halow_request_poll s4)
                   else (mm_halow_status_to_errno status, s4)))"
    using fits ready(1) unfolding mm_halow_send_ethernet_def by (simp add: d a(1) kept t)
  with a(1) t show ?thesis by (intro exI [of _ s2] exI [of _ pkt] exI [of _ s3]) simp
qed

end

section \<open>A host that keeps the contract\<close>

text \<open>An idle driver on a host whose transmit path becomes ready ten milliseconds after power-up.\<close>

definition host_idle :: "('l, 'a) halow_st_scheme \<Rightarrow> bool" where
  "host_idle s \<longleftrightarrow> initted (mm_halow_state s) \<and> mm_halow_task_cur s = 0 \<and> \<not> irq_ctx s
     \<and> mm_halow_service_owner s = MM_HALOW_OWNER_NONE \<and> mm_halow_service_depth s = 0
     \<and> \<not> mm_halow_poll_requested s \<and> \<not> mm_halow_busy_irq_enabled s \<and> \<not> mm_halow_spi_irq_enabled s
     \<and> \<not> busy_seen s \<and> mm_halow_timer_list s = 0 \<and> \<not> mm_halow_sched_woken s
     \<and> mm_halow_sched_wake_at s = 1000 \<and> time_ms s \<le> 10"

definition tx_pf :: "('l, u8 list) pf" where
  "tx_pf = host_pf\<lparr>p_wlan := quiet_wlan\<lparr>vendor := (\<lambda>c s. Some (
     if c = V_tx_wait_until_ready 0 \<and> time_ms s < 10 then (MMWLAN_UNAVAILABLE, s\<lparr>time_ms := time_ms s + 1\<rparr>)
     else (MMWLAN_SUCCESS, s)))\<rparr>,
     p_lwip := host_lwip\<lparr>pbuf_copy_partial := (\<lambda>p n s. replicate n 0), pbuf_payload := (\<lambda>p s. 16384)\<rparr>\<rparr>"

lemma idle_not_pending: "host_idle s \<Longrightarrow> \<not> tick_reached (of_nat (time_ms s)) 1000"
  using tick_reached_of_nat [of "time_ms s" 1000] by (simp add: host_idle_def)

lemma idle_poll:
  assumes "host_idle s"
  shows "\<exists>s'. mm_halow_poll_func pf s = Some s' \<and> host_idle s' \<and> tx_keeps s s' \<and> time_ms s' = time_ms s"
proof -
  let ?claimed = "s\<lparr>mm_halow_service_owner := MM_HALOW_OWNER_THREAD, mm_halow_service_depth := 1\<rparr>"
  have claim: "mm_halow_sched_claim s = (True, ?claimed)"
    using assms by (simp add: mm_halow_sched_claim_def atomic_defs host_idle_def mm_halow_in_irq_def)
  have idle: "poll_idle pf ?claimed = Some (True, ?claimed)"
    using assms idle_not_pending [OF assms]
    by (simp add: poll_idle_def host_idle_def mm_halow_hal_irq_pending_def mm_halow_osal_timer_pending_def
        timer_pending_from.simps mm_halow_sched_pending_def mm_halow_ticks_ms_def)
  have release: "mm_halow_sched_release ?claimed = s"
    using assms by (simp add: mm_halow_sched_release_def atomic_defs host_idle_def)
  have "mm_halow_poll_func pf s = Some (mm_halow_hal_irq_rearm (p_hal pf) s)"
    using assms by (simp add: mm_halow_poll_func_def mm_halow_sched_task_current_def claim idle release host_idle_def)
  moreover have "host_idle (mm_halow_hal_irq_rearm (p_hal pf) s)"
    using assms by (simp add: host_idle_def mm_halow_hal_irq_rearm_def emit_def)
  ultimately show ?thesis by (simp add: tx_keeps_def mm_halow_hal_irq_rearm_def emit_def)
qed

lemma tx_pf_ready:
  "vcall (p_wlan tx_pf) (V_tx_wait_until_ready 0) s =
     Some (if time_ms s < 10 then (MMWLAN_UNAVAILABLE, s\<lparr>vendor_calls := vendor_calls s @ [V_tx_wait_until_ready 0],
                                      time_ms := time_ms s + 1\<rparr>)
           else (MMWLAN_SUCCESS, s\<lparr>vendor_calls := vendor_calls s @ [V_tx_wait_until_ready 0]\<rparr>))"
  by (simp add: vcall_def tx_pf_def quiet_wlan_def)

interpretation host_tx: tx_frames tx_pf host_idle "\<lambda>s. 0" "{4096..<8192}"
proof (unfold_locales, goal_cases)
  case (3 s)
  from idle_poll [OF 3(1), of tx_pf] show ?case by auto
next
  case (4 s r s1 s2)
  have "host_idle s1" "time_ms s < time_ms s1"
    using 4 by (auto simp: tx_pf_ready host_idle_def split: if_splits)
  with idle_poll [of s1 tx_pf] 4(5) show ?case by auto
qed (auto simp: tx_pf_ready host_idle_def tx_keeps_def upd_self_def, auto simp: tx_pf_def quiet_wlan_def vcall_def)


definition halow_idle :: "((ptr list), u8 list) halow_st_scheme" where
  "halow_idle = halow0\<lparr>mm_halow_state := (mm_halow_state halow0)\<lparr>initted := True\<rparr>, mm_halow_tx_buf := 12288,
     mm_halow_task_cur := 0, mm_halow_sched_wake_at := 1000, mm_halow_timer_list := 0\<rparr>"

lemma halow_idle_simps:
  "mm_halow_tx_buf halow_idle = 12288" "mm_halow_task_cur halow_idle = 0" "time_ms halow_idle = 0"
  by (simp_all add: halow_idle_def halow0_def halow_st.extend_def hal_st.extend_def halow_st.fields_def
      pktmem_st.extend_def hal_st.fields_def pktmem0_def osal_st.extend_def pktmem_st.fields_def)

lemma halow_idle_ok: "host_idle halow_idle"
  by (simp add: host_idle_def halow_idle_def halow0_def halow_st.extend_def hal_st.extend_def halow_st.fields_def
      pktmem_st.extend_def hal_st.fields_def pktmem0_def osal_st.extend_def pktmem_st.fields_def osal0_def)


end
