(* ===== verification/Halow_Poll.thy ===== *)
theory Halow_Poll
  imports Halow_Tx Halow_Frame
begin

text \<open>
  The poll: where the interrupt lines, the timers and the scheduler come together under the
  service claim. Each of the three was given its own contract; \<open>poll_world\<close> is their union
  with what one part must leave of the others' state, and inside it a poll is shown to
  return, to keep the driver well formed and to leave the claim as it found it.
\<close>

section \<open>Frames\<close>

lemma run_claim:
  assumes "\<And>p s s'. p \<noteq> 0 \<Longrightarrow> mm_halow_task_cur s = p \<Longrightarrow> turn env p s = Some s' \<Longrightarrow> same_claim s s'"
    and run: "mm_halow_sched_run env s = Some s'"
  shows "same_claim s s'"
  by (rule sched_frame.run_rel [OF sched_frame.intro run]) (use assms(1) in \<open>auto intro: same_claim_trans\<close>)

section \<open>The contract of a poll\<close>

definition sched_wf :: "'a sched_st_scheme \<Rightarrow> bool" where
  "sched_wf s \<longleftrightarrow> (\<exists>q L. sched_ok s q L)"

definition timers_wf :: "'a osal_st_scheme \<Rightarrow> bool" where
  "timers_wf s \<longleftrightarrow> (\<exists>ts L. timers_ok s ts L)"

text \<open>What an interrupt handler and a timer callback leave of the scheduler's state.\<close>

definition work_keeps :: "'a sched_st_scheme \<Rightarrow> 'a sched_st_scheme \<Rightarrow> bool" where
  "work_keeps s s' \<longleftrightarrow> same_claim s s' \<and> mm_halow_sched_running s' = mm_halow_sched_running s
     \<and> mm_halow_task_cur s' = mm_halow_task_cur s \<and> (sched_wf s \<longrightarrow> sched_wf s')"

lemma work_keeps_refl [simp]: "work_keeps s s"
  by (simp add: work_keeps_def)

lemma work_keeps_trans: "work_keeps s t \<Longrightarrow> work_keeps t u \<Longrightarrow> work_keeps s u"
  by (auto simp: work_keeps_def intro: same_claim_trans)

lemma sched_wf_cong:
  assumes "mm_halow_tasks s' = mm_halow_tasks s" "mm_halow_task_list s' = mm_halow_task_list s"
    "mm_halow_heap_head s' = mm_halow_heap_head s" "mm_halow_heap_mem s' = mm_halow_heap_mem s" "blk s' = blk s"
  shows "sched_wf s' = sched_wf s"
  using sched_ok_cong [OF assms] by (simp add: sched_wf_def)

lemma work_keeps_cong:
  assumes "mm_halow_tasks s' = mm_halow_tasks s" "mm_halow_task_list s' = mm_halow_task_list s"
    "mm_halow_heap_head s' = mm_halow_heap_head s" "mm_halow_heap_mem s' = mm_halow_heap_mem s" "blk s' = blk s"
    "mm_halow_sched_running s' = mm_halow_sched_running s" "mm_halow_task_cur s' = mm_halow_task_cur s"
    "mm_halow_service_owner s' = mm_halow_service_owner s" "mm_halow_service_depth s' = mm_halow_service_depth s"
  shows "work_keeps s s'"
  using assms by (simp add: work_keeps_def same_claim_def sched_wf_cong [of s' s])

lemma timers_wf_cong:
  assumes "timers s' = timers s" "mm_halow_timer_list s' = mm_halow_timer_list s"
    "mm_halow_heap_head s' = mm_halow_heap_head s" "mm_halow_heap_mem s' = mm_halow_heap_mem s" "blk s' = blk s"
  shows "timers_wf s' = timers_wf s"
  using timers_ok_cong [OF assms] by (simp add: timers_wf_def)

text \<open>What a poll looks at before it starts a pass.\<close>

definition poll_due :: "('l, 'a) pf \<Rightarrow> ('l, 'a) halow_st_scheme \<Rightarrow> bool" where
  "poll_due pf s \<longleftrightarrow> mm_halow_poll_requested s \<or> busy_irq_live (p_hal pf) s \<noteq> busy_seen s \<or> spi_irq_live (p_hal pf) s
     \<or> mm_halow_osal_timer_pending s = Some True \<or> mm_halow_sched_pending s"

definition poll_look :: "('l, 'a) pf \<Rightarrow> ('l, 'a) halow_st_scheme \<Rightarrow> ('l, 'a) halow_st_scheme" where
  "poll_look pf s = (if mm_halow_poll_requested s then s else s\<lparr>busy_seen := busy_irq_live (p_hal pf) s\<rparr>)"

text \<open>
  A pass from state \<open>s\<close> to \<open>t\<close>: the asserted interrupt lines, then the timers due by then, then
  the tasks, every one that is still on the list afterwards in each of at most four rounds.
\<close>

definition pass_serves :: "('l, 'a) pf \<Rightarrow> ('l, 'a) halow_st_scheme \<Rightarrow> ('l, 'a) halow_st_scheme \<Rightarrow> bool" where
  "pass_serves pf s t \<longleftrightarrow> (\<exists>s1 ts s2 q q' tss.
       mm_halow_hal_poll_irqs (p_hal pf) ((poll_look pf s)\<lparr>mm_halow_poll_requested := False\<rparr>) = Some s1
     \<and> mm_halow_osal_timer_poll (p_timer pf) s1 = Some s2 \<and> mm_halow_sched_run (p_env pf) s2 = Some t
     \<and> irq_calls (trace s1) = irq_calls (trace s)
         @ (if spi_irq_live (p_hal pf) s then [mm_halow_spi_irq_handler s] else [])
         @ (if busy_irq_live (p_hal pf) s then [mm_halow_busy_irq_handler s] else [])
     \<and> chain (timer_next s1) 0 (mm_halow_timer_list s1) ts
     \<and> fired (trace s2) = fired (trace s1) @ filter (timer_due s1 (mm_halow_ticks_ms s1)) ts
     \<and> chain (task_next s2) 0 (mm_halow_task_list s2) q \<and> chain (task_next t) 0 (mm_halow_task_list t) q'
     \<and> turns (trace t) = turns (trace s2) @ concat tss \<and> 0 < length tss \<and> length tss \<le> 4
     \<and> (\<forall>ts \<in> set tss. \<forall>p \<in> set q \<inter> set q'. p \<in> set ts))"

locale poll_world = irq_lines "p_hal pf" + timer_callbacks "p_timer pf" + coop_turn "p_env pf"
  for pf :: "('l, 'a) pf" +
  assumes handler_keeps: "irq_handler (p_hal pf) h s = Some s' \<Longrightarrow> work_keeps s s' \<and> (timers_wf s \<longrightarrow> timers_wf s')"
    and callback_keeps: "p_timer pf cb t u = Some u' \<Longrightarrow> work_keeps u u'"
    and pin_request: "hal_pin_read (p_hal pf) pin (s\<lparr>mm_halow_poll_requested := b\<rparr>) = hal_pin_read (p_hal pf) pin s"
    and turn_claim: "p \<noteq> 0 \<Longrightarrow> mm_halow_task_cur v = p \<Longrightarrow> turn (p_env pf) p v = Some v' \<Longrightarrow> same_claim v v'"
begin

lemma call_irq_keeps:
  "call_irq_handler (p_hal pf) h s = Some s' \<Longrightarrow> work_keeps s s' \<and> (timers_wf s \<longrightarrow> timers_wf s')"
proof -
  assume "call_irq_handler (p_hal pf) h s = Some s'"
  then have "work_keeps (emit (Ev_irq_handler h) s) s' \<and> (timers_wf (emit (Ev_irq_handler h) s) \<longrightarrow> timers_wf s')"
    by (intro handler_keeps) (simp add: call_irq_handler_def)
  moreover have "work_keeps s (emit (Ev_irq_handler h) s)" by (rule work_keeps_cong) (simp_all add: emit_def)
  moreover have "timers_wf (emit (Ev_irq_handler h) s) = timers_wf s"
    by (rule timers_wf_cong) (simp_all add: emit_def)
  ultimately show ?thesis by (blast intro: work_keeps_trans)
qed

lemma irqs_keep:
  assumes "mm_halow_hal_poll_irqs (p_hal pf) s = Some s'" and "timers_wf s"
  shows "work_keeps s s' \<and> timers_wf s'"
  using assms by (auto simp: mm_halow_hal_poll_irqs_def split: if_splits bind_splits
      dest!: call_irq_keeps intro: work_keeps_trans)

lemma timer_poll_keeps:
  assumes run: "timer_poll_from (p_timer pf) now t s = Some s'"
  shows "work_keeps s s'"
proof (rule mp [OF timer_poll_from.raw_induct [where
      P = "\<lambda>cb now t s s'. cb = p_timer pf \<longrightarrow> work_keeps s s'", OF _ run]], goal_cases)
  case (1 f cb now t s s')
  show ?case
  proof
    assume cb: "cb = p_timer pf"
    show "work_keeps s s'"
    proof (cases "t = 0")
      case False
      show ?thesis
      proof (cases "tm_active (timers s t) \<and> tick_reached now (tm_expires_at (timers s t))")
        case True
        let ?s1 = "emit (Ev_callback t) (timer_fire now t s)"
        obtain s2 where s2: "cb (tm_callback (timers s t)) t ?s1 = Some s2"
          "f cb now (tm_next (timers s t)) (mm_halow_sched_wake s2) = Some s'"
          using 1(2) False True by (auto split: bind_splits)
        have "work_keeps s ?s1" by (rule work_keeps_cong) (simp_all add: emit_def timer_fire_def upd_timer_def)
        moreover have "work_keeps ?s1 s2" using s2(1) cb by (intro callback_keeps) simp
        moreover have "work_keeps s2 (mm_halow_sched_wake s2)" by (rule work_keeps_cong) (simp_all add: mm_halow_sched_wake_def)
        ultimately show ?thesis using 1(1) [OF s2(2)] cb by (blast intro: work_keeps_trans)
      qed (use 1 False cb in \<open>auto split: if_splits\<close>)
    qed (use 1(2) in simp)
  qed
qed simp_all

lemma idle_eq:
  assumes "timers_wf s"
  shows "poll_idle pf s = Some (\<not> poll_due pf s, poll_look pf s)"
proof -
  obtain ts L where "timers_ok s ts L" using assms by (auto simp: timers_wf_def)
  then have "chain (timer_next s) 0 (mm_halow_timer_list s) ts" by (simp add: timers_ok_def)
  from timer_pending_from_eq [OF this]
  have "mm_halow_osal_timer_pending (s\<lparr>busy_seen := b\<rparr>) = mm_halow_osal_timer_pending s"
    "\<exists>b. mm_halow_osal_timer_pending s = Some b" for b
    by (simp_all add: mm_halow_osal_timer_pending_def mm_halow_ticks_ms_def)
  then show ?thesis
    by (auto simp: poll_idle_def poll_due_def poll_look_def pending_eq mm_halow_sched_pending_def mm_halow_ticks_ms_def)
qed

lemma look_live [simp]:
  "spi_irq_live (p_hal pf) ((poll_look pf s)\<lparr>mm_halow_poll_requested := b\<rparr>) = spi_irq_live (p_hal pf) s"
  "busy_irq_live (p_hal pf) ((poll_look pf s)\<lparr>mm_halow_poll_requested := b\<rparr>) = busy_irq_live (p_hal pf) s"
  by (simp_all add: poll_look_def spi_irq_live_def busy_irq_live_def pin_request pin_note)

lemma pass_ok:
  assumes wf: "timers_wf s" "sched_wf s" and idle: "\<not> mm_halow_sched_running s" "mm_halow_task_cur s = 0"
  shows "\<exists>t. pass_serves pf s t \<and> same_claim s t \<and> sched_wf t \<and> \<not> mm_halow_sched_running t \<and> mm_halow_task_cur t = 0"
proof -
  let ?s0 = "(poll_look pf s)\<lparr>mm_halow_poll_requested := False\<rparr>"
  have s0: "work_keeps s ?s0" "timers_wf ?s0"
    by (rule work_keeps_cong; simp add: poll_look_def)
       (rule iffD2 [OF timers_wf_cong wf(1)]; simp add: poll_look_def)
  obtain s1 where s1: "mm_halow_hal_poll_irqs (p_hal pf) ?s0 = Some s1"
    "irq_calls (trace s1) = irq_calls (trace ?s0)
        @ (if spi_irq_live (p_hal pf) ?s0 then [mm_halow_spi_irq_handler ?s0] else [])
        @ (if busy_irq_live (p_hal pf) ?s0 then [mm_halow_busy_irq_handler ?s0] else [])"
    using poll_irqs_ok by blast
  have k1: "work_keeps ?s0 s1" "timers_wf s1" using irqs_keep [OF s1(1) s0(2)] by simp_all
  obtain ts L where ts: "timers_ok s1 ts L" using k1(2) by (auto simp: timers_wf_def)
  obtain s2 where s2: "mm_halow_osal_timer_poll (p_timer pf) s1 = Some s2"
    "fired (trace s2) = fired (trace s1) @ filter (timer_due s1 (mm_halow_ticks_ms s1)) ts"
    using poll_ok [OF ts] by blast
  have "work_keeps s1 s2" by (rule timer_poll_keeps [OF s2(1) [unfolded mm_halow_osal_timer_poll_def]])
  then have k2: "work_keeps s s2" using s0(1) k1(1) by (blast intro: work_keeps_trans)
  obtain q M where q: "sched_ok s2 q M" using k2 wf(2) by (auto simp: work_keeps_def sched_wf_def)
  have "\<not> mm_halow_sched_running s2" "mm_halow_task_cur s2 = 0" using k2 idle by (simp_all add: work_keeps_def)
  from run_ok [OF q this] obtain s3 q' M' tss where s3: "mm_halow_sched_run (p_env pf) s2 = Some s3" "sched_ok s3 q' M'"
    "\<not> mm_halow_sched_running s3" "mm_halow_task_cur s3 = 0" "turns (trace s3) = turns (trace s2) @ concat tss"
    "tss \<noteq> []" "length tss \<le> 4" "\<forall>ts \<in> set tss. \<forall>p \<in> set q \<inter> set q'. p \<in> set ts" by blast
  have "same_claim s2 s3" by (rule run_claim [OF turn_claim s3(1)])
  then have "same_claim s s3" using k2 by (auto simp: work_keeps_def intro: same_claim_trans)
  moreover have "chain (timer_next s1) 0 (mm_halow_timer_list s1) ts" using ts by (simp add: timers_ok_def)
  moreover have "chain (task_next s2) 0 (mm_halow_task_list s2) q" "chain (task_next s3) 0 (mm_halow_task_list s3) q'"
    using q s3(2) by (simp_all add: sched_ok_def)
  moreover have "sched_wf s3" using s3(2) by (auto simp: sched_wf_def)
  moreover have "irq_calls (trace s1) = irq_calls (trace s)
        @ (if spi_irq_live (p_hal pf) s then [mm_halow_spi_irq_handler s] else [])
        @ (if busy_irq_live (p_hal pf) s then [mm_halow_busy_irq_handler s] else [])"
    using s1(2) by (simp only: look_live) (simp add: poll_look_def)
  ultimately have "pass_serves pf s s3" unfolding pass_serves_def using s1(1) s2 s3
    by (intro exI [of _ s1] exI [of _ ts] exI [of _ s2] exI [of _ q] exI [of _ q'] exI [of _ tss]) simp
  with \<open>same_claim s s3\<close> \<open>sched_wf s3\<close> s3(3,4) show ?thesis by blast
qed

end

section \<open>Claim and release around a pass\<close>

lemma claim_granted:
  assumes "claim_inv s nt ni"
  shows "fst (mm_halow_sched_claim s) \<longleftrightarrow> (if irq_ctx s then nt else ni) = 0"
  using assms by (auto simp: claim_inv_def claim_eq Let_def)

lemma claim_keeps:
  assumes "mm_halow_sched_claim s = (True, c)"
  shows "work_keeps (s\<lparr>mm_halow_service_owner := mm_halow_service_owner c, mm_halow_service_depth := mm_halow_service_depth c\<rparr>) c"
    and "c = s\<lparr>mm_halow_service_owner := mm_halow_service_owner c, mm_halow_service_depth := mm_halow_service_depth c\<rparr>"
  using assms by (auto simp: claim_eq Let_def split: if_splits)

lemma release_restores:
  assumes inv: "claim_inv s nt ni" "nt + ni < 255" and c: "mm_halow_sched_claim s = (True, c)" and t: "same_claim c t"
  shows "mm_halow_sched_release t = t\<lparr>mm_halow_service_owner := mm_halow_service_owner s,
    mm_halow_service_depth := mm_halow_service_depth s\<rparr>"
proof -
  have d: "mm_halow_service_depth s = of_nat (nt + ni)" using inv(1) by (simp add: claim_inv_def)
  have n: "(of_nat (nt + ni) + 1 :: u8) \<noteq> 0" "(of_nat (nt + ni) + 1 :: u8) = 1 \<longleftrightarrow> nt + ni = 0"
    using of_nat_u8_eq_0 [of "Suc (nt + ni)"] of_nat_u8_eq_1 [of "Suc (nt + ni)"] inv(2) by (auto simp: add.commute)
  have "mm_halow_service_depth t = of_nat (nt + ni) + 1"
    "mm_halow_service_owner t = (if irq_ctx s then MM_HALOW_OWNER_IRQ else MM_HALOW_OWNER_THREAD)"
    "mm_halow_service_owner s = MM_HALOW_OWNER_NONE \<or> mm_halow_service_owner s = mm_halow_service_owner t"
    using c t d by (auto simp: same_claim_def claim_eq Let_def split: if_splits)
  moreover have "mm_halow_service_owner s = MM_HALOW_OWNER_NONE \<longleftrightarrow> nt + ni = 0"
    using inv(1) by (simp add: claim_inv_def)
  ultimately have "(if mm_halow_service_depth t = 1 then MM_HALOW_OWNER_NONE else mm_halow_service_owner t)
      = mm_halow_service_owner s" "mm_halow_service_depth t \<noteq> 0" "mm_halow_service_depth t - 1 = mm_halow_service_depth s"
    using n d by (simp_all only: add_diff_cancel) metis+
  then show ?thesis by (simp only: release_eq if_False) simp
qed

section \<open>Scripted tasks and timers keep the contract\<close>

lemma malloc_claim: "mm_halow_osal_malloc n s = Some (p, s') \<Longrightarrow> same_claim s s'"
  using task_change_steps(6) by (auto simp: task_change_def)

lemma script_claim:
  "mm_halow_task_cur s \<noteq> 0 \<Longrightarrow> turn (script_env prog) p s = Some s' \<Longrightarrow> same_claim s s'"
  using script_change by (auto simp: task_change_def)

lemma do_cb_work:
  assumes "do_cb c t s = Some s'" shows "work_keeps s s'"
proof (cases c)
  case (Cb_create nm per re a cb)
  then obtain p where c: "mmosal_timer_create nm per re a cb s = Some (p, s')" using assms by (auto simp: do_cb_def)
  obtain q s1 where m: "mm_halow_osal_malloc 28 s = Some (q, s1)" using c by (auto simp: mmosal_timer_create_def split: bind_splits)
  have "work_keeps s s1"
    using malloc_claim [OF m] malloc_sched_frame [OF m] sched_ok_malloc [of s _ _ 28] m
    by (force simp: work_keeps_def sched_wf_def)
  moreover have "work_keeps s1 s'"
    using c m by (auto simp: mmosal_timer_create_def atomic_defs upd_timer_def Let_def split: if_splits intro!: work_keeps_cong)
  ultimately show ?thesis by (rule work_keeps_trans)
qed (use assms in \<open>auto simp: do_cb_def mmosal_timer_start_def mmosal_timer_stop_def mmosal_timer_change_period_def
      Let_def upd_timer_def intro!: work_keeps_cong split: if_splits\<close>)

lemma do_cbs_work: "do_cbs cs t s = Some s' \<Longrightarrow> work_keeps s s'"
  by (induction cs arbitrary: s) (auto split: bind_splits dest!: do_cb_work intro: work_keeps_trans)

text \<open>Tasks and timer callbacks that run the driver's own operations, on the host's quiet lines.\<close>

definition busy_pf :: "(nat \<Rightarrow> ('l, u8 list) halow_st_scheme \<Rightarrow> act list \<times> finish) \<Rightarrow>
    (ptr \<Rightarrow> ptr \<Rightarrow> ('l, u8 list) halow_st_scheme \<Rightarrow> cb_op list) \<Rightarrow> ('l, u8 list) pf" where
  "busy_pf tasks cbs = host_pf\<lparr>p_env := script_env tasks, p_timer := cb_script (\<lambda>cb t s. (cbs cb t s, False))\<rparr>"

interpretation scripted_world: poll_world "busy_pf tasks cbs" for tasks cbs
proof -
  have p: "p_env (busy_pf tasks cbs) = script_env tasks" "p_hal (busy_pf tasks cbs) = echo_port"
    "p_timer (busy_pf tasks cbs) = cb_script (\<lambda>cb t s. (cbs cb t s, False))" by (simp_all add: busy_pf_def host_pf_def)
  show "poll_world (busy_pf tasks cbs)"
    unfolding poll_world_def poll_world_axioms_def p
    using echo.irq_lines_axioms scripted.timer_callbacks_axioms script.coop_turn_axioms script_claim
    by (auto simp: echo_port_def cb_script_def split: bind_splits dest: do_cbs_work)
qed

section \<open>Property\<close>

lemma poll_func_granted:
  assumes "initted (mm_halow_state s)" "mm_halow_task_cur s = 0" "mm_halow_sched_claim s = (True, c)"
    and idle: "poll_idle pf c = Some (\<not> due, look)"
  shows "mm_halow_poll_func pf s =
    (if \<not> due then Some (mm_halow_hal_irq_rearm (p_hal pf) (mm_halow_sched_release look))
     else do {
       s3 \<leftarrow> mm_halow_hal_poll_irqs (p_hal pf) (look\<lparr>mm_halow_poll_requested := False\<rparr>);
       s4 \<leftarrow> mm_halow_osal_timer_poll (p_timer pf) s3;
       s5 \<leftarrow> mm_halow_sched_run (p_env pf) s4;
       Some (mm_halow_hal_irq_rearm (p_hal pf) (mm_halow_sched_release s5))
     })"
  using assms by (simp add: mm_halow_poll_func_def mm_halow_sched_task_current_def)

lemma poll_func_skipped:
  assumes "claim_inv s nt ni"
    and "\<not> initted (mm_halow_state s) \<or> mm_halow_task_cur s \<noteq> 0 \<or> (if irq_ctx s then nt else ni) \<noteq> 0"
  shows "mm_halow_poll_func pf s = Some s"
proof (cases "mm_halow_sched_claim s")
  case (Pair granted c)
  have g: "granted \<longleftrightarrow> (if irq_ctx s then nt else ni) = 0" using claim_granted [OF assms(1)] Pair by simp
  moreover have "c = s" if "\<not> granted" using claim_refused [of s] Pair that by simp
  ultimately show ?thesis
    using assms(2) Pair unfolding mm_halow_poll_func_def mm_halow_sched_task_current_def by (auto split: if_splits)
qed

lemma rearm_keeps:
  "sched_wf (mm_halow_hal_irq_rearm port (s\<lparr>mm_halow_service_owner := n, mm_halow_service_depth := d\<rparr>)) = sched_wf s"
  "same_claim u (mm_halow_hal_irq_rearm port (s\<lparr>mm_halow_service_owner := mm_halow_service_owner u,
     mm_halow_service_depth := mm_halow_service_depth u\<rparr>))"
  "mm_halow_sched_running (mm_halow_hal_irq_rearm port s) = mm_halow_sched_running s"
  "mm_halow_task_cur (mm_halow_hal_irq_rearm port s) = mm_halow_task_cur s"
  by (rule sched_wf_cong; simp add: mm_halow_hal_irq_rearm_def emit_def)
     (simp_all add: mm_halow_hal_irq_rearm_def emit_def same_claim_def)

text \<open>A poll that is granted the claim, up to the point where it gives it back.\<close>

lemma granted_poll:
  fixes pf :: "('l, 'a) pf"
  assumes w: "poll_world pf" and wf: "timers_wf s" "sched_wf s" "\<not> mm_halow_sched_running s"
    and on: "initted (mm_halow_state s)" "mm_halow_task_cur s = 0" and c: "mm_halow_sched_claim s = (True, c)"
  shows "\<exists>t. mm_halow_poll_func pf s = Some (mm_halow_hal_irq_rearm (p_hal pf) (mm_halow_sched_release t))
    \<and> same_claim c t \<and> sched_wf t \<and> \<not> mm_halow_sched_running t \<and> mm_halow_task_cur t = 0
    \<and> (if \<not> poll_due pf c then t = c\<lparr>busy_seen := busy_irq_live (p_hal pf) c\<rparr> else pass_serves pf c t)"
proof -
  note cs = claim_keeps(2) [OF c]
  have "timers_wf c" by (subst cs, rule iffD2 [OF timers_wf_cong wf(1)]) simp_all
  moreover have "sched_wf c" by (subst cs, rule iffD2 [OF sched_wf_cong wf(2)]) simp_all
  moreover have "\<not> mm_halow_sched_running c" "mm_halow_task_cur c = 0" by (subst cs, use wf(3) on(2) in simp)+
  ultimately have cwf: "timers_wf c" "sched_wf c" "\<not> mm_halow_sched_running c" "mm_halow_task_cur c = 0" .
  note poll = poll_func_granted [OF on c poll_world.idle_eq [OF w cwf(1)]]
  show ?thesis
  proof (cases "poll_due pf c")
    case idle: False
    let ?look = "c\<lparr>busy_seen := busy_irq_live (p_hal pf) c\<rparr>"
    have "poll_look pf c = ?look" using idle by (simp add: poll_look_def poll_due_def)
    moreover have "same_claim c ?look" by (simp add: same_claim_def)
    moreover have "sched_wf ?look" by (rule iffD2 [OF sched_wf_cong cwf(2)]) simp_all
    ultimately show ?thesis unfolding poll using idle cwf(3,4) by (intro exI [of _ ?look]) simp
  next
    case due: True
    obtain t where t: "pass_serves pf c t" "same_claim c t" "sched_wf t" "\<not> mm_halow_sched_running t" "mm_halow_task_cur t = 0"
      using poll_world.pass_ok [OF w cwf] by blast
    then have "mm_halow_poll_func pf s = Some (mm_halow_hal_irq_rearm (p_hal pf) (mm_halow_sched_release t))"
      unfolding poll pass_serves_def using due by auto
    with t due show ?thesis by auto
  qed
qed

text \<open>
  C4: The poll. On a platform whose interrupt handlers, timer callbacks and tasks keep their
  contracts, a poll always returns, with the scheduler well formed and the service claim as it
  was. Before init, from inside a task, or while the other context holds the claim, it does
  nothing. Otherwise, with nothing due it only notes the level of the BUSY line, and with
  something due it serves, in this order and under the claim, exactly the interrupt lines that
  are asserted, exactly the timers then due, and every task of the list, each in every one of
  at most four passes. Either way it re-arms the pin interrupt last, after giving up the claim.
\<close>

theorem poll_serves:
  fixes pf :: "('l, 'a) pf"
  assumes w: "poll_world pf" and wf: "timers_wf s" "sched_wf s" "\<not> mm_halow_sched_running s"
    and claim: "claim_inv s nt ni" "nt + ni < 255"
  defines "c \<equiv> snd (mm_halow_sched_claim s)"
  shows "\<exists>s' t. mm_halow_poll_func pf s = Some s' \<and> same_claim s s' \<and> sched_wf s' \<and> \<not> mm_halow_sched_running s'
    \<and> mm_halow_task_cur s' = mm_halow_task_cur s
    \<and> (if \<not> initted (mm_halow_state s) \<or> mm_halow_task_cur s \<noteq> 0 \<or> (if irq_ctx s then nt else ni) \<noteq> 0 then s' = s
       else s' = mm_halow_hal_irq_rearm (p_hal pf) (mm_halow_sched_release t)
         \<and> (if \<not> poll_due pf c then mm_halow_sched_release t = s\<lparr>busy_seen := busy_irq_live (p_hal pf) c\<rparr>
            else pass_serves pf c t))"
proof (cases "\<not> initted (mm_halow_state s) \<or> mm_halow_task_cur s \<noteq> 0 \<or> (if irq_ctx s then nt else ni) \<noteq> 0")
  case True
  show ?thesis unfolding poll_func_skipped [OF claim(1) True] if_P [OF True] using wf by simp
next
  case False
  then have on: "initted (mm_halow_state s)" "mm_halow_task_cur s = 0" and "(if irq_ctx s then nt else ni) = 0" by blast+
  then have "fst (mm_halow_sched_claim s)" using claim_granted [OF claim(1)] by blast
  then have c: "mm_halow_sched_claim s = (True, c)" unfolding c_def by (simp add: prod_eq_iff)
  obtain t where t: "mm_halow_poll_func pf s = Some (mm_halow_hal_irq_rearm (p_hal pf) (mm_halow_sched_release t))"
    "same_claim c t" "sched_wf t" "\<not> mm_halow_sched_running t" "mm_halow_task_cur t = 0"
    "if \<not> poll_due pf c then t = c\<lparr>busy_seen := busy_irq_live (p_hal pf) c\<rparr> else pass_serves pf c t"
    using granted_poll [OF w wf on c] by blast
  note r = release_restores [OF claim c t(2)]
  have "c\<lparr>busy_seen := b, mm_halow_service_owner := mm_halow_service_owner s, mm_halow_service_depth := mm_halow_service_depth s\<rparr>
      = s\<lparr>busy_seen := b\<rparr>" for b by (subst claim_keeps(2) [OF c]) simp
  then have "mm_halow_sched_release t = s\<lparr>busy_seen := busy_irq_live (p_hal pf) c\<rparr>" if "\<not> poll_due pf c"
    unfolding r using t(6) that by simp
  moreover have "same_claim s (mm_halow_hal_irq_rearm (p_hal pf) (mm_halow_sched_release t))"
    "sched_wf (mm_halow_hal_irq_rearm (p_hal pf) (mm_halow_sched_release t))"
    "\<not> mm_halow_sched_running (mm_halow_hal_irq_rearm (p_hal pf) (mm_halow_sched_release t))"
    "mm_halow_task_cur (mm_halow_hal_irq_rearm (p_hal pf) (mm_halow_sched_release t)) = mm_halow_task_cur s"
    unfolding r using t(3-5) on(2) by (simp_all add: rearm_keeps)
  moreover have "pass_serves pf c t" if "poll_due pf c" using t(6) that by simp
  ultimately show ?thesis unfolding if_not_P [OF False] using t(1)
    by (intro exI [of _ "mm_halow_hal_irq_rearm (p_hal pf) (mm_halow_sched_release t)"] exI [of _ t]) presburger
qed

lemma halow_idle_wf: "timers_wf halow_idle" "sched_wf halow_idle"
proof -
  have "heap_live halow_idle {}" unfolding halow_idle_def
    by (rule iffD2 [OF heap_live_cong pktmem0_live]) (simp_all add: halow0_def halow_st.extend_def hal_st.extend_def
        halow_st.fields_def pktmem_st.extend_def hal_st.fields_def)
  moreover have "chain f 0 (0 :: ptr) []" "chain g 0 (0 :: nat) []" for f g by simp_all
  moreover have "mm_halow_timer_list halow_idle = 0" "mm_halow_task_list halow_idle = 0"
    "mm_halow_tasks halow_idle = (\<lambda>_. task0)"
    by (simp_all add: halow_idle_def halow0_def halow_st.extend_def hal_st.extend_def halow_st.fields_def
      pktmem_st.extend_def hal_st.fields_def pktmem0_def osal_st.extend_def pktmem_st.fields_def osal0_def)
  ultimately have "timers_ok halow_idle [] {}" "sched_ok halow_idle [] {}"
    by (simp_all add: timers_ok_def sched_ok_def task0_def)
  then show "timers_wf halow_idle" "sched_wf halow_idle" unfolding timers_wf_def sched_wf_def by blast+
qed

theorem poll_serves_witness:
  "\<forall>tasks cbs. \<exists>s'. mm_halow_poll_func (busy_pf tasks cbs) (halow_idle\<lparr>mm_halow_poll_requested := True\<rparr>) = Some s'
     \<and> sched_wf s' \<and> mm_halow_service_owner s' = MM_HALOW_OWNER_NONE"
proof (intro allI)
  fix tasks cbs
  let ?s = "halow_idle\<lparr>mm_halow_poll_requested := True\<rparr>"
  have wf: "timers_wf ?s" "sched_wf ?s"
    by (rule iffD2 [OF timers_wf_cong halow_idle_wf(1)]; simp) (rule iffD2 [OF sched_wf_cong halow_idle_wf(2)]; simp)
  have s: "\<not> mm_halow_sched_running ?s" "claim_inv ?s 0 0" "0 + 0 < (255 :: nat)"
    by (simp_all add: claim_inv_def halow_idle_def halow0_def halow_st.extend_def hal_st.extend_def halow_st.fields_def
      pktmem_st.extend_def hal_st.fields_def pktmem0_def osal_st.extend_def pktmem_st.fields_def osal0_def)
  have s_owner: "mm_halow_service_owner ?s = MM_HALOW_OWNER_NONE" using s(2) by (simp add: claim_inv_def)
  from poll_serves [OF scripted_world.poll_world_axioms wf s, of tasks cbs]
  obtain s' where "mm_halow_poll_func (busy_pf tasks cbs) ?s = Some s'" "same_claim ?s s'" "sched_wf s'"
    by (elim exE conjE) (rule that; assumption)
  then show "\<exists>s'. mm_halow_poll_func (busy_pf tasks cbs) ?s = Some s'
     \<and> sched_wf s' \<and> mm_halow_service_owner s' = MM_HALOW_OWNER_NONE" by (auto simp: same_claim_def s_owner)
qed

end
