(* ===== verification/Halow_Protocol.thy ===== *)
theory Halow_Protocol
  imports Halow_Lifecycle Halow_Frame
begin

text \<open>
  The order in which the driver calls morselib's control interface. An automaton says which
  calls are in order: everything happens between mmwlan_init() and mmwlan_deinit(), the
  transceiver is shut down before the latter, it is booted only with a channel list set
  since it was last off, and what needs a running transceiver is asked only after a boot.
  The locale \<open>talk_world\<close> extends \<open>halow_world\<close> by the law that nobody else speaks on the
  control interface while a call is under way; frames may be sent meanwhile. In every
  reachable state the calls so far are in order.
\<close>

section \<open>The automaton\<close>

text \<open>How far a session has got; the phases are ordered by it.\<close>

datatype phase = Closed | Opened | Channels_set | Boot_asked

fun progress :: "phase \<Rightarrow> nat" where
  "progress Closed = 0"
| "progress Opened = 1"
| "progress Channels_set = 2"
| "progress Boot_asked = 3"

lemma progress_inj: "progress p = progress q \<Longrightarrow> p = q"
  by (cases p; cases q) simp_all

instantiation phase :: linorder
begin

definition less_eq_phase :: "phase \<Rightarrow> phase \<Rightarrow> bool" where
  "p \<le> q \<longleftrightarrow> progress p \<le> progress q"

definition less_phase :: "phase \<Rightarrow> phase \<Rightarrow> bool" where
  "p < q \<longleftrightarrow> progress p < progress q"

instance
  by intro_classes (auto simp: less_eq_phase_def less_phase_def intro: progress_inj)

end

lemma phase_le_simps [simp]:
  "Boot_asked \<le> ph \<longleftrightarrow> ph = Boot_asked" "ph < Channels_set \<longleftrightarrow> ph = Closed \<or> ph = Opened"
  by (cases ph; simp add: less_eq_phase_def less_phase_def)+

fun traffic :: "vendor_call \<Rightarrow> bool" where
  "traffic (V_tx_wait_until_ready _) = True"
| "traffic (V_tx_pkt _) = True"
| "traffic _ = False"

definition talk :: "phase \<Rightarrow> vendor_call \<Rightarrow> phase option" where
  "talk ph c =
     (if ph = Closed then if c = V_init then Some Opened else None
      else case c of
        V_init \<Rightarrow> None
      | V_deinit \<Rightarrow> if ph = Opened then Some Closed else None
      | V_shutdown \<Rightarrow> Some Opened
      | V_set_channel_list _ \<Rightarrow> Some (if ph = Opened then Channels_set else ph)
      | V_boot \<Rightarrow> if ph < Channels_set then None else Some Boot_asked
      | V_ap_enable _ \<Rightarrow> if Boot_asked \<le> ph then Some ph else None
      | V_override_max_tx_power _ \<Rightarrow> if Boot_asked \<le> ph then Some ph else None
      | V_set_duty_cycle_mode _ \<Rightarrow> if Boot_asked \<le> ph then Some ph else None
      | V_twt_add _ _ _ \<Rightarrow> if Boot_asked \<le> ph then Some ph else None
      | V_override_rate_control _ _ _ \<Rightarrow> if Boot_asked \<le> ph then Some ph else None
      | _ \<Rightarrow> Some ph)"

definition dialogue :: "vendor_call list \<Rightarrow> phase option" where
  "dialogue cs = fold (\<lambda>c ph. Option.bind ph (\<lambda>p. talk p c)) cs (Some Closed)"

definition ctrl_calls :: "('l, 'a) halow_st_scheme \<Rightarrow> vendor_call list" where
  "ctrl_calls s = filter (\<lambda>c. \<not> traffic c) (vendor_calls s)"

definition in_phase :: "phase \<Rightarrow> ('l, 'a) halow_st_scheme \<Rightarrow> bool" where
  "in_phase ph s \<longleftrightarrow> dialogue (ctrl_calls s) = Some ph"

text \<open>
  Where the dialogue stands, together with what the driver has on record about it: booted only
  after a boot, and whether it is initialised.
\<close>

definition stands :: "phase \<Rightarrow> bool \<Rightarrow> ('l, 'a) halow_st_scheme \<Rightarrow> bool" where
  "stands ph ini s \<longleftrightarrow> in_phase ph s \<and> (booted (mm_halow_state s) \<longrightarrow> ph = Boot_asked)
     \<and> initted (mm_halow_state s) = ini"

lemma dialogue_snoc: "dialogue (cs @ [c]) = Option.bind (dialogue cs) (\<lambda>p. talk p c)"
  by (simp add: dialogue_def)

lemma in_phase_cong: "ctrl_calls s' = ctrl_calls s \<Longrightarrow> in_phase ph s' = in_phase ph s"
  by (simp add: in_phase_def)

lemma in_phase_upd [simp]:
  "in_phase ph (upd_self f s) = in_phase ph s"
  "in_phase ph (upd_netif n g s) = in_phase ph s"
  "in_phase ph (s\<lparr>lwip_calls := lc\<rparr>) = in_phase ph s"
  "in_phase ph (s\<lparr>mm_halow_sched_teardown := b\<rparr>) = in_phase ph s"
  "in_phase ph (s\<lparr>mm_halow_poll := b\<rparr>) = in_phase ph s"
  "in_phase ph (s\<lparr>mm_halow_tx_buf := p\<rparr>) = in_phase ph s"
  by (simp_all add: in_phase_def ctrl_calls_def upd_self_def upd_netif_def)

lemma stands_self [simp]:
  "(\<And>self. booted (f self) = booted self \<and> initted (f self) = initted self) \<Longrightarrow>
     stands ph ini (upd_self f s) = stands ph ini s"
  by (simp add: stands_def) (simp add: upd_self_def)

lemma stands_upd [simp]:
  "stands ph ini (upd_netif n g s) = stands ph ini s"
  "stands ph ini (s\<lparr>lwip_calls := lc\<rparr>) = stands ph ini s"
  "stands ph ini (emit e s) = stands ph ini s"
  by (simp_all add: stands_def) (simp_all add: upd_netif_def emit_def in_phase_def ctrl_calls_def)

lemma ctrl_calls_upd [simp]:
  "ctrl_calls (upd_self f s) = ctrl_calls s" "ctrl_calls (s\<lparr>mm_halow_tx_buf := p\<rparr>) = ctrl_calls s"
  "ctrl_calls (s\<lparr>mm_halow_poll := b\<rparr>) = ctrl_calls s" "ctrl_calls (s\<lparr>mm_halow_sched_teardown := b\<rparr>) = ctrl_calls s"
  by (simp_all add: ctrl_calls_def upd_self_def)

lemma deinit_frame [simp]:
  "mm_halow_state (mm_halow_osal_deinit s) = mm_halow_state s" "ctrl_calls (mm_halow_osal_deinit s) = ctrl_calls s"
  "mm_halow_state (mm_halow_sched_deinit s) = mm_halow_state s" "ctrl_calls (mm_halow_sched_deinit s) = ctrl_calls s"
  by (simp_all add: mm_halow_osal_deinit_def heap_release_def Let_def emit_def ctrl_calls_def
      mm_halow_sched_deinit_def mm_halow_sched_wake_at_reset_def)

text \<open>A session opened is a session closed, or the one that is still open.\<close>

lemma talk_count:
  "talk ph c = Some ph' \<Longrightarrow> of_bool (c = V_init) + of_bool (ph \<noteq> Closed)
     = (of_bool (c = V_deinit) + of_bool (ph' \<noteq> Closed) :: nat)"
  by (cases c; cases ph) (auto simp: talk_def split: if_splits)

lemma dialogue_count:
  "dialogue cs = Some ph \<Longrightarrow> count_list cs V_init = count_list cs V_deinit + of_bool (ph \<noteq> Closed)"
proof (induction cs arbitrary: ph rule: rev_induct)
  case Nil
  then show ?case by (simp add: dialogue_def)
next
  case (snoc c cs)
  then obtain p where p: "dialogue cs = Some p" "talk p c = Some ph" by (auto simp: dialogue_snoc bind_eq_Some_conv)
  from snoc.IH [OF p(1)] talk_count [OF p(2)] show ?case by (auto simp: of_bool_def split: if_splits)
qed

text \<open>Between operations the driver is initialised exactly while a dialogue is open.\<close>

definition talk_inv :: "('l, 'a) halow_st_scheme \<Rightarrow> bool" where
  "talk_inv s \<longleftrightarrow> (\<exists>ph. stands ph (ph \<noteq> Closed) s)"

lemma talk_inv_open: "stands ph True s \<Longrightarrow> ph \<noteq> Closed \<Longrightarrow> talk_inv s"
  unfolding talk_inv_def by (rule exI [of _ ph]) simp

lemma talk_inv_closed: "stands Closed False s \<Longrightarrow> talk_inv s"
  unfolding talk_inv_def by (rule exI [of _ Closed]) simp

lemma talk_inv_cases:
  assumes "talk_inv s"
  obtains (closed) "stands Closed False s" "\<not> initted (mm_halow_state s)"
    | (opened) ph where "stands ph True s" "ph \<noteq> Closed" "initted (mm_halow_state s)"
proof -
  obtain ph where ph: "stands ph (ph \<noteq> Closed) s" using assms by (auto simp: talk_inv_def)
  show thesis
  proof (cases "ph = Closed")
    case True
    with ph closed show thesis by (simp add: stands_def)
  next
    case False
    with ph opened [of ph] show thesis by (simp add: stands_def)
  qed
qed

section \<open>What holds of an operation if it returns\<close>

definition safe1 :: "('s \<Rightarrow> bool) \<Rightarrow> 's option \<Rightarrow> bool" where
  "safe1 Q m \<longleftrightarrow> (\<forall>s'. m = Some s' \<longrightarrow> Q s')"

definition safe2 :: "('s \<Rightarrow> bool) \<Rightarrow> ('r \<times> 's) option \<Rightarrow> bool" where
  "safe2 Q m \<longleftrightarrow> (\<forall>r s'. m = Some (r, s') \<longrightarrow> Q s')"

named_theorems safes

lemma safe_Some [safes]: "Q s \<Longrightarrow> safe1 Q (Some s)" "Q s \<Longrightarrow> safe2 Q (Some (r, s))"
  by (simp_all add: safe1_def safe2_def)

lemma safe_bind:
  "safe1 P m \<Longrightarrow> (\<And>s. P s \<Longrightarrow> safe1 Q (f s)) \<Longrightarrow> safe1 Q (Option.bind m f)"
  "safe2 P m2 \<Longrightarrow> (\<And>r s. P s \<Longrightarrow> safe1 Q (g r s)) \<Longrightarrow> safe1 Q (Option.bind m2 (\<lambda>(r, s). g r s))"
  "safe1 P m \<Longrightarrow> (\<And>s. P s \<Longrightarrow> safe2 Q (f2 s)) \<Longrightarrow> safe2 Q (Option.bind m f2)"
  "safe2 P m2 \<Longrightarrow> (\<And>r s. P s \<Longrightarrow> safe2 Q (g2 r s)) \<Longrightarrow> safe2 Q (Option.bind m2 (\<lambda>(r, s). g2 r s))"
  by (auto simp: safe1_def safe2_def bind_eq_Some_conv)

lemma safe_bindr:
  "(\<And>r s. m = Some (r, s) \<Longrightarrow> P r s) \<Longrightarrow> (\<And>r s. P r s \<Longrightarrow> safe2 Q (g r s)) \<Longrightarrow>
     safe2 Q (Option.bind m (\<lambda>(r, s). g r s))"
  by (auto simp: safe2_def bind_eq_Some_conv)

lemma safe2_weaken: "safe2 P m \<Longrightarrow> (\<And>s. P s \<Longrightarrow> Q s) \<Longrightarrow> safe2 Q m"
  by (simp add: safe2_def)

lemma safe_if [safes]:
  "(b \<Longrightarrow> safe1 Q m) \<Longrightarrow> (\<not> b \<Longrightarrow> safe1 Q n) \<Longrightarrow> safe1 Q (if b then m else n)"
  "(b \<Longrightarrow> safe2 Q m2) \<Longrightarrow> (\<not> b \<Longrightarrow> safe2 Q n2) \<Longrightarrow> safe2 Q (if b then m2 else n2)"
  by simp_all

lemmas safe_bind_same [safes] = safe_bind [where P = Q and Q = Q for Q]

lemma safe_map:
  "safe1 P m \<Longrightarrow> (\<And>s. P s \<Longrightarrow> Q (h s)) \<Longrightarrow> safe1 Q (map_option h m)"
  "safe1 P m \<Longrightarrow> (\<And>s. P s \<Longrightarrow> Q s) \<Longrightarrow> safe2 Q (map_option (Pair r) m)"
  by (auto simp: safe1_def safe2_def)

lemmas safe_map_same [safes] = safe_map [where P = Q and Q = Q for Q]

lemma safe_map_pair [safes]:
  "safe2 Q m \<Longrightarrow> safe1 Q (map_option snd m)"
  "safe2 Q m \<Longrightarrow> safe2 Q (map_option (\<lambda>(r, s). (f r, s)) m)"
  by (auto simp: safe1_def safe2_def)

lemma safe_option [safes]:
  "(x = None \<Longrightarrow> safe1 Q m) \<Longrightarrow> (\<And>v. x = Some v \<Longrightarrow> safe1 Q (f v)) \<Longrightarrow>
     safe1 Q (case x of None \<Rightarrow> m | Some v \<Rightarrow> f v)"
  "(x = None \<Longrightarrow> safe2 Q m2) \<Longrightarrow> (\<And>v. x = Some v \<Longrightarrow> safe2 Q (g v)) \<Longrightarrow>
     safe2 Q (case x of None \<Rightarrow> m2 | Some v \<Rightarrow> g v)"
  by (simp_all split: option.split)

lemma safe1_D: "safe1 Q m \<Longrightarrow> m = Some s' \<Longrightarrow> Q s'"
  by (simp add: safe1_def)

lemma safe2_D: "safe2 Q m \<Longrightarrow> m = Some (r, s') \<Longrightarrow> Q s'"
  by (simp add: safe2_def)

lemma safe1_quiet:
  "(\<And>s'. m = Some s' \<Longrightarrow> ctrl_calls s' = ctrl_calls s) \<Longrightarrow> in_phase ph s \<Longrightarrow> safe1 (in_phase ph) m"
  unfolding safe1_def in_phase_def by simp

section \<open>The contract\<close>

text \<open>What runs while the driver gives up the processor keeps the contract and says nothing.\<close>

definition silent :: "bool \<Rightarrow> ('l, 'a) halow_st_scheme \<Rightarrow> ('l, 'a) halow_st_scheme \<Rightarrow> bool" where
  "silent fatal s s' \<longleftrightarrow> ctl_keeps fatal s s' \<and> ctrl_calls s' = ctrl_calls s"

lemma silent_trans: "silent fatal s t \<Longrightarrow> silent fatal t u \<Longrightarrow> silent fatal s u"
  by (auto simp: silent_def intro: ctl_keeps_trans)

lemma silent_own: "own_change s s' \<Longrightarrow> silent fatal s s'"
  by (cases s; cases s') (simp add: own_change_def silent_def ctl_keeps_def core_def ctrl_calls_def)

lemma silent_stands: "stands ph ini s \<Longrightarrow> silent fatal s s' \<Longrightarrow> stands ph ini s'"
  by (auto simp: silent_def stands_def in_phase_def ctl_keeps_def core_def)

locale talk_world = halow_world +
  assumes vend_quiet: "vendor (p_wlan pf) c s = Some (st, s') \<Longrightarrow> ctrl_calls s' = ctrl_calls s"
    and mac_quiet: "get_vif_mac_addr (p_wlan pf) vif b s = Some (st, m, s') \<Longrightarrow> ctrl_calls s' = ctrl_calls s"
    and lwip_quiet: "lwip_do (p_lwip pf) lc s = Some s' \<Longrightarrow> ctrl_calls s' = ctrl_calls s"
    and add_quiet: "(\<And>t t'. init t = Some t' \<Longrightarrow> ctrl_calls t' = ctrl_calls t) \<Longrightarrow>
      netif_add (p_lwip pf) n init s = Some s' \<Longrightarrow> ctrl_calls s' = ctrl_calls s"
    and turn_quiet: "p \<noteq> 0 \<Longrightarrow> mm_halow_task_cur s = p \<Longrightarrow> turn (p_env pf) p s = Some s' \<Longrightarrow> silent fatal s s'"
    and switch_quiet: "switch (p_env pf) s = Some s' \<Longrightarrow> silent fatal s s'"
    and hook_quiet: "silent fatal s (hook (p_env pf) s)"
    and irq_quiet: "silent fatal s (irq (p_env pf) s)"
begin

text \<open>One call moves the dialogue one step; a call of lwIP does not move it.\<close>

lemma vcall_safe:
  assumes "in_phase ph s" and "\<not> traffic c" and "talk ph c = Some ph'"
  shows "safe2 (in_phase ph') (vcall (p_wlan pf) c s)"
  unfolding safe2_def
proof (intro allI impI)
  fix r s' assume "vcall (p_wlan pf) c s = Some (r, s')"
  then have "ctrl_calls s' = ctrl_calls s @ [c]"
    using vend_quiet [of c "s\<lparr>vendor_calls := vendor_calls s @ [c]\<rparr>" r s'] assms(2)
    by (simp add: vcall_def ctrl_calls_def)
  with assms(1,3) show "in_phase ph' s'" by (simp add: in_phase_def dialogue_snoc)
qed

lemma vret_safe:
  "in_phase ph s \<Longrightarrow> \<not> traffic c \<Longrightarrow> talk ph c = Some ph' \<Longrightarrow> safe2 (in_phase ph') (vret (p_wlan pf) c s)"
  using vcall_safe [of ph s c ph'] by (auto simp: safe2_def vret_def)

lemma vdo_safe:
  "in_phase ph s \<Longrightarrow> \<not> traffic c \<Longrightarrow> talk ph c = Some ph' \<Longrightarrow> safe1 (in_phase ph') (vdo (p_wlan pf) c s)"
  using vcall_safe [of ph s c ph'] by (auto simp: safe1_def safe2_def vdo_def)

lemma ldo_quiet:
  assumes "ldo (p_lwip pf) c s = Some s'"
  shows "ctrl_calls s' = ctrl_calls s"
proof -
  have "ctrl_calls s' = ctrl_calls (s\<lparr>lwip_calls := lwip_calls s @ [c]\<rparr>)"
    by (rule lwip_quiet) (use assms in \<open>simp add: ldo_def\<close>)
  then show ?thesis by (simp add: ctrl_calls_def)
qed

lemma fatal_cb_says: "mm_halow_fatal_error_cb pf s = Some s' \<Longrightarrow> ctrl_calls s' = ctrl_calls s"
  by (auto simp: mm_halow_fatal_error_cb_def mm_halow_cb_tcpip_set_link_down_def Let_def trace_printf_def emit_def
      ctrl_calls_def upd_self_def split: if_splits dest!: ldo_quiet)

lemma store_mac_quiet:
  assumes "store_mac pf s = Some s'"
  shows "ctrl_calls s' = ctrl_calls s"
proof -
  obtain st m s1 where m: "get_vif_mac_addr (p_wlan pf) MMWLAN_VIF_STA (h_mac (mm_halow_state s)) s = Some (st, m, s1)"
    and s': "s' = upd_self (\<lambda>self. self\<lparr>h_mac := m\<rparr>) s1"
    using assms by (auto simp: store_mac_def)
  from mac_quiet [OF m] show "ctrl_calls s' = ctrl_calls s" by (simp add: s' ctrl_calls_def upd_self_def)
qed

lemma netif_init_quiet:
  assumes "mm_halow_netif_init (p_lwip pf) (p_wlan pf) n t = Some t'"
  shows "ctrl_calls t' = ctrl_calls t"
proof -
  let ?t1 = "upd_netif n (\<lambda>i. i\<lparr>netif_driver := True, netif_mtu := MM_HALOW_MTU,
                                netif_flags := NETIF_FLAGS_INIT (p_lwip pf)\<rparr>) t"
  obtain m t2 where m: "mm_halow_wifi_get_mac (p_wlan pf) (name_itf (netif_name (netifs t n)))
      (netif_hwaddr (netifs ?t1 n)) ?t1 = Some (m, t2)"
    and t': "(if LWIP_IGMP (p_lwip pf) then ldo (p_lwip pf) (L_igmp_filter n)
            (upd_netif n (\<lambda>i. i\<lparr>netif_flags := or (netif_flags i) (NETIF_FLAG_IGMP (p_lwip pf))\<rparr>)
              (upd_netif n (\<lambda>i. i\<lparr>netif_hwaddr := m\<rparr>) t2))
          else Some (upd_netif n (\<lambda>i. i\<lparr>netif_hwaddr := m\<rparr>) t2)) = Some t'"
    using assms by (auto simp: mm_halow_netif_init_def Let_def bind_eq_Some_conv)
  have "ctrl_calls t2 = ctrl_calls ?t1"
    using m by (auto simp: mm_halow_wifi_get_mac_def bind_eq_Some_conv dest!: mac_quiet)
  moreover have "ctrl_calls t' = ctrl_calls t2"
    using t' by (cases "LWIP_IGMP (p_lwip pf)") (auto dest!: ldo_quiet simp: ctrl_calls_def upd_netif_def)
  ultimately show ?thesis by (simp add: ctrl_calls_def upd_netif_def)
qed

text \<open>What keeps the contract of \<open>halow_world\<close> and says nothing leaves the dialogue where it stands.\<close>

lemma stands_K: "stands ph ini s \<Longrightarrow> K s s' \<Longrightarrow> in_phase ph s' \<Longrightarrow> stands ph ini s'"
  by (auto simp: stands_def ctl_keeps_def core_def)

lemma quiet_stands:
  assumes "stands ph ini s" and "ret1 K s m" and "\<And>s'. m = Some s' \<Longrightarrow> ctrl_calls s' = ctrl_calls s"
  shows "safe1 (stands ph ini) m"
proof -
  have "in_phase ph s" using assms(1) by (simp add: stands_def)
  with assms(3) have "safe1 (in_phase ph) m" by (intro safe1_quiet)
  then show ?thesis using assms(1,2) by (auto simp: safe1_def ret1_def intro: stands_K)
qed

lemma ldo_safe [safes]: "stands ph ini s \<Longrightarrow> safe1 (stands ph ini) (ldo (p_lwip pf) c s)"
  by (rule quiet_stands [OF _ ldo_ret ldo_quiet]) simp_all

lemma store_mac_safe [safes]: "stands ph ini s \<Longrightarrow> safe1 (stands ph ini) (store_mac pf s)"
  by (rule quiet_stands [OF _ store_mac_ret store_mac_quiet]) simp_all

lemma netif_add_safe [safes]:
  "stands ph ini s \<Longrightarrow> safe1 (stands ph ini)
     (netif_add (p_lwip pf) n (mm_halow_netif_init (p_lwip pf) (p_wlan pf) n) s)"
  by (rule quiet_stands [OF _ add [OF netif_init_ret] add_quiet [OF netif_init_quiet]])

lemma vcall_stays [safes]:
  "stands ph ini s \<Longrightarrow> \<not> traffic c \<Longrightarrow> talk ph c = Some ph \<Longrightarrow> safe2 (stands ph ini) (vcall (p_wlan pf) c s)"
  unfolding safe2_def
proof (intro allI impI)
  fix r s' assume a: "stands ph ini s" "\<not> traffic c" "talk ph c = Some ph" "vcall (p_wlan pf) c s = Some (r, s')"
  then have "in_phase ph s'" by (intro safe2_D [OF vcall_safe a(4)]) (simp_all add: stands_def)
  moreover have "K s s'" using vcall_ret [of s s c] a(4) by (simp add: ret2_def)
  ultimately show "stands ph ini s'" using stands_K [OF a(1)] by simp
qed

lemma vret_stays [safes]:
  "stands ph ini s \<Longrightarrow> \<not> traffic c \<Longrightarrow> talk ph c = Some ph \<Longrightarrow> safe2 (stands ph ini) (vret (p_wlan pf) c s)"
  using vcall_stays [of ph ini s c] by (auto simp: safe2_def vret_def)

lemma vdo_stays [safes]:
  "stands ph ini s \<Longrightarrow> \<not> traffic c \<Longrightarrow> talk ph c = Some ph \<Longrightarrow> safe1 (stands ph ini) (vdo (p_wlan pf) c s)"
  using vcall_stays [of ph ini s c] by (auto simp: safe1_def safe2_def vdo_def)

lemma tcpip_safe [safes]:
  "stands ph ini s \<Longrightarrow> safe1 (stands ph ini) (mm_halow_cb_tcpip_init (p_lwip pf) (p_wlan pf) itf s)"
  "stands ph ini s \<Longrightarrow> safe1 (stands ph ini) (mm_halow_cb_tcpip_deinit (p_lwip pf) itf s)"
  "stands ph ini s \<Longrightarrow> safe1 (stands ph ini) (mm_halow_cb_tcpip_set_link_up (p_lwip pf) itf s)"
  "stands ph ini s \<Longrightarrow> safe1 (stands ph ini) (mm_halow_cb_tcpip_set_link_down (p_lwip pf) itf s)"
proof -
  assume p: "stands ph ini s"
  obtain a m g where cfg: "tcpip_config (p_lwip pf) itf = (a, m, g)" by (cases "tcpip_config (p_lwip pf) itf")
  show "safe1 (stands ph ini) (mm_halow_cb_tcpip_init (p_lwip pf) (p_wlan pf) itf s)"
    unfolding mm_halow_cb_tcpip_init_def Let_def cfg prod.case by (intro safes) (simp_all add: p)
  show "safe1 (stands ph ini) (mm_halow_cb_tcpip_deinit (p_lwip pf) itf s)"
    unfolding mm_halow_cb_tcpip_deinit_def Let_def by (intro safes) (simp_all add: p)
  show "safe1 (stands ph ini) (mm_halow_cb_tcpip_set_link_up (p_lwip pf) itf s)"
    unfolding mm_halow_cb_tcpip_set_link_up_def Let_def by (intro safes) (simp_all add: p)
  show "safe1 (stands ph ini) (mm_halow_cb_tcpip_set_link_down (p_lwip pf) itf s)"
    unfolding mm_halow_cb_tcpip_set_link_down_def Let_def by (intro safes) (simp_all add: p)
qed

lemma settings_safe [safes]:
  "stands ph ini s \<Longrightarrow> ph \<noteq> Closed \<Longrightarrow> safe2 (stands ph ini) (mm_halow_apply_pm pf s)"
  "stands ph ini s \<Longrightarrow> ph \<noteq> Closed \<Longrightarrow> safe1 (stands ph ini) (mm_halow_apply_radio pf s)"
  unfolding mm_halow_apply_pm_def mm_halow_apply_radio_def Let_def by (intro safes; simp add: talk_def)+

lemma ap_enable_safe [safes]: "stands Boot_asked ini s \<Longrightarrow> safe2 (stands Boot_asked ini) (mm_halow_ap_enable pf s)"
  unfolding mm_halow_ap_enable_def Let_def by (intro safes; simp add: talk_def)

end

sublocale talk_world \<subseteq> hand: handover "p_env pf" "silent fatal"
  by unfold_locales (blast intro: silent_own silent_trans turn_quiet switch_quiet hook_quiet irq_quiet)+

section \<open>Coming up and going down\<close>

context talk_world
begin

lemma K_facts:
  "K s s' \<Longrightarrow> initted (mm_halow_state s') = initted (mm_halow_state s)"
  "K s s' \<Longrightarrow> booted (mm_halow_state s') \<Longrightarrow> booted (mm_halow_state s)"
  by (auto simp: ctl_keeps_def core_def)

text \<open>A call that moves the dialogue, from where it stands to where it then stands.\<close>

lemma vcall_moves:
  assumes s: "stands ph ini s" "\<not> traffic c" "talk ph c = Some ph'"
    and run: "vcall (p_wlan pf) c s = Some (r, s')"
  shows "in_phase ph' s' \<and> initted (mm_halow_state s') = ini"
    and "(booted (mm_halow_state s) \<Longrightarrow> ph' = Boot_asked) \<Longrightarrow> stands ph' ini s'"
proof -
  have "in_phase ph s" using s(1) by (simp add: stands_def)
  from safe2_D [OF vcall_safe [OF this s(2,3)] run] have p: "in_phase ph' s'" .
  have k: "K s s'" using vcall_ret [of s s c] run by (simp add: ret2_def)
  show q: "in_phase ph' s' \<and> initted (mm_halow_state s') = ini"
    using p K_facts(1) [OF k] s(1) by (simp add: stands_def)
  show "stands ph' ini s'" if "booted (mm_halow_state s) \<Longrightarrow> ph' = Boot_asked"
    using q K_facts(2) [OF k] that by (auto simp: stands_def)
qed

lemma vdo_moves:
  assumes "stands ph ini s" "\<not> traffic c" "talk ph c = Some ph'" "vdo (p_wlan pf) c s = Some s'"
  shows "in_phase ph' s' \<and> initted (mm_halow_state s') = ini"
    and "(booted (mm_halow_state s) \<Longrightarrow> ph' = Boot_asked) \<Longrightarrow> stands ph' ini s'"
  using vcall_moves [OF assms(1-3)] assms(4) by (auto simp: vdo_def)

lemma vret_moves:
  assumes "stands ph ini s" "\<not> traffic c" "talk ph c = Some ph'" "vret (p_wlan pf) c s = Some (r, s')"
  shows "(booted (mm_halow_state s) \<Longrightarrow> ph' = Boot_asked) \<Longrightarrow> stands ph' ini s'"
  using vcall_moves(2) [OF assms(1-3)] assms(4) by (auto simp: vret_def)

lemma scan_wait_safe [safes]:
  "stands ph ini s \<Longrightarrow> safe2 (stands ph ini) (mm_halow_sched_wait (p_env pf) mm_halow_scan_idle_cond t s)"
  unfolding safe2_def
proof (intro allI impI)
  fix b s' assume s: "stands ph ini s" and run: "mm_halow_sched_wait (p_env pf) mm_halow_scan_idle_cond t s = Some (b, s')"
  have "silent fatal s s'"
    by (rule hand.wait_rel [OF _ run]) (simp add: mm_halow_scan_idle_cond_def silent_def)
  with s show "stands ph ini s'" by (rule silent_stands)
qed

lemma malloc_safe_stands [safes]: "stands ph ini s \<Longrightarrow> safe2 (stands ph ini) (mm_halow_osal_malloc n s)"
  by (auto simp: safe2_def malloc_eq stands_def in_phase_def ctrl_calls_def split: if_splits)

lemma init_stands:
  assumes s: "stands Closed False s" and run: "mm_halow_init pf s = Some (ret, s')"
  shows "stands (if ret = Ok then Opened else Closed) (ret = Ok) s'"
proof -
  let ?s1 = "upd_self (\<lambda>self. self\<lparr>itf_state := 0, scan_active := False, scan_cache := 0,
                   scan_cache_len := 0, scan_cache_max := 0, ap_sta_count := 0,
                   link_status := MM_HALOW_LINK_DOWN\<rparr>) s"
  obtain ok s2 where s2: "mm_halow_osal_init (p_heap_alloc pf) ?s1 = (ok, s2)" by (cases "mm_halow_osal_init (p_heap_alloc pf) ?s1")
  have "stands Closed False ?s1" using s by simp
  moreover have "mm_halow_state s2 = mm_halow_state ?s1" "ctrl_calls s2 = ctrl_calls ?s1"
    using s2 by (auto simp: mm_halow_osal_init_def Let_def ctrl_calls_def split: if_splits)
  ultimately have p2: "stands Closed False s2" by (simp add: stands_def in_phase_def)
  show ?thesis
  proof (cases ok)
    case False
    then have "ret = Neg ENOMEM" "s' = s2" using run s s2 by (simp_all add: mm_halow_init_def stands_def)
    with p2 show ?thesis by simp
  next
    case True
    obtain buf s3 where s3: "mm_halow_osal_malloc (MM_HALOW_TX_BUF_SIZE pf) s2 = Some (buf, s3)"
      using run s s2 True by (auto simp: mm_halow_init_def stands_def split: bind_splits)
    have p3: "stands Closed False (s3\<lparr>mm_halow_tx_buf := buf\<rparr>)"
      using safe2_D [OF malloc_safe_stands [OF p2] s3] by (simp add: stands_def)
    show ?thesis
    proof (cases "buf = 0")
      case True
      have "s' = mm_halow_osal_deinit (s3\<lparr>mm_halow_tx_buf := buf\<rparr>)" "ret = Neg ENOMEM"
        using run s s2 s3 \<open>ok\<close> True by (auto simp: mm_halow_init_def stands_def Let_def)
      with p3 show ?thesis by (simp add: stands_def in_phase_def)
    next
      case False
      let ?rest = "do {
               s5 \<leftarrow> vdo (p_wlan pf) V_init (s3\<lparr>mm_halow_tx_buf := buf\<rparr>);
               (_, s6) \<leftarrow> mm_halow_apply_pm pf s5;
               s7 \<leftarrow> mm_halow_apply_radio pf s6;
               s8 \<leftarrow> vdo (p_wlan pf) V_register_fatal s7;
               s9 \<leftarrow> vdo (p_wlan pf) V_register_link_state s8;
               s10 \<leftarrow> vdo (p_wlan pf) (V_register_rx True) s9;
               store_mac pf s10
             }"
      have init: "safe1 (stands Opened False) (vdo (p_wlan pf) V_init (s3\<lparr>mm_halow_tx_buf := buf\<rparr>))"
        unfolding safe1_def using vdo_moves(2) [OF p3, of V_init Opened] p3 by (auto simp: talk_def stands_def)
      have "safe1 (stands Opened False) ?rest"
        by (rule safe_bind(1) [OF init]) (intro safes; simp add: talk_def)
      moreover obtain s11 where "?rest = Some s11" "ret = Ok" "s' = (upd_self (\<lambda>self. self\<lparr>initted := True\<rparr>) s11)\<lparr>mm_halow_poll := True\<rparr>"
        using run s s2 s3 \<open>ok\<close> False by (auto simp: mm_halow_init_def stands_def Let_def case_prod_beta' split: bind_splits)
      ultimately show ?thesis by (auto simp: safe1_def stands_def) (simp_all add: upd_self_def)
    qed
  qed
qed

lemma country_stands:
  assumes s: "stands ph ini s" "ph \<noteq> Closed" and run: "mm_halow_set_country pf country s = Some (ret, s')"
  shows "if ret = Ok then stands (if ph = Opened then Channels_set else ph) ini s' else \<exists>ph'. ph' \<noteq> Closed \<and> stands ph' ini s'"
proof (cases "lookup_regulatory_domain (p_wlan pf) country")
  case (Some chs)
  let ?s1 = "upd_self (\<lambda>self. self\<lparr>h_country := take 2 country, h_channels := Some chs\<rparr>) s"
  let ?ph = "if ph = Opened then Channels_set else ph"
  have r: "vret (p_wlan pf) (V_set_channel_list chs) ?s1 = Some (ret, s')"
    using run Some by (simp add: mm_halow_set_country_def)
  have "stands ph ini ?s1" using s(1) by simp
  then have "stands ?ph ini s'"
    by (rule vret_moves [OF _ _ _ r]) (use s in \<open>auto simp: talk_def stands_def upd_self_def\<close>)
  with s(2) show ?thesis by (cases "ph = Opened") auto
qed (use run s in \<open>auto simp: mm_halow_set_country_def\<close>)

lemma boot_stands:
  assumes s: "stands ph ini s" "ph \<in> {Channels_set, Boot_asked}" and run: "boot_transceiver pf s = Some (ret, s')"
  shows "stands Boot_asked ini s'"
proof (cases "booted (mm_halow_state s)")
  case False
  obtain r s1 where s1: "vret (p_wlan pf) V_boot s = Some (r, s1)"
    using vret_ret [of s s V_boot] by (auto simp: ret2_def)
  have p1: "stands Boot_asked ini s1"
    by (rule vret_moves [OF s(1) _ _ s1]) (use s(2) in \<open>auto simp: talk_def\<close>)
  then have p2: "stands Boot_asked ini (upd_self (\<lambda>self. self\<lparr>booted := True\<rparr>) s1)"
    by (simp add: stands_def) (simp add: upd_self_def)
  show ?thesis
    using run False s1 p1 store_mac_safe [OF p2]
    by (auto simp: boot_transceiver_def safe1_def split: if_splits)
qed (use run s in \<open>auto simp: boot_transceiver_def stands_def\<close>)

lemma up_talk:
  assumes s: "talk_inv s" shows "safe2 talk_inv (set_up_up pf itf country s)"
proof -
  let ?open = "\<lambda>phs s. \<exists>ph\<in>phs. ph \<noteq> Closed \<and> stands ph True s"
  have inv: "?open phs t \<Longrightarrow> talk_inv t" for phs t by (auto intro: talk_inv_open)
  have 1: "if r = Ok then ?open UNIV t else talk_inv t"
    if "(if \<not> initted (mm_halow_state s) then mm_halow_init pf s else Some (Ok, s)) = Some (r, t)" for r t
    using s
  proof (cases rule: talk_inv_cases)
    case closed
    with init_stands [OF closed(1), of r t] that show ?thesis
      by (cases "r = Ok") (auto intro: talk_inv_closed)
  qed (use that in auto)
  have 2: "if r = Ok then ?open {Channels_set, Boot_asked} t else talk_inv t"
    if "?open UNIV u" "mm_halow_set_country pf country u = Some (r, t)" for r t u
  proof -
    note u = that
    obtain ph where "stands ph True u" "ph \<noteq> Closed" using u(1) by auto
    from country_stands [OF this u(2)] this show ?thesis
      by (cases "r = Ok"; cases ph) (auto intro: talk_inv_open)
  qed
  have 3: "stands Boot_asked True t" if "?open {Channels_set, Boot_asked} u" "boot_transceiver pf u = Some (r, t)" for r t u
    using that boot_stands [of _ True u r t] by auto
  have 4: "safe2 talk_inv m" if "safe2 (stands Boot_asked True) m" for m :: "(result \<times> ('a, 'b) halow_st_scheme) option"
    by (rule safe2_weaken [OF that]) (blast intro: talk_inv_open)
  show ?thesis
    unfolding set_up_up_def
    apply (rule safe_bindr [OF 1], assumption)
    apply (rule safe_if(2), rule safe_Some(2), simp)
    apply (rule safe_bindr, erule 2 [rotated], simp)
    apply (rule safe_if(2), rule safe_Some(2), simp)
    apply (rule safe_bindr, erule 3 [rotated], simp)
    apply (rule safe_if(2), rule safe_Some(2), erule talk_inv_open, simp)
    apply (rule 4)
    apply (intro safes)
    apply simp_all
    done
qed

text \<open>Down: morselib is told to stop before the interface goes, and the last one down powers it off.\<close>

lemma disable_stands:
  assumes "stands ph True s" and "ph \<noteq> Closed"
  shows "safe1 (stands ph True) (if itf = MM_HALOW_ITF_AP then vdo (p_wlan pf) V_ap_disable s
            else map_option (upd_self (\<lambda>self. self\<lparr>link_status := MM_HALOW_LINK_DOWN\<rparr>))
                   (vdo (p_wlan pf) V_sta_disable s))"
  by (intro safes; (use assms in \<open>simp add: talk_def\<close>)?)

lemma down_talk:
  assumes s: "stands ph True s" "ph \<noteq> Closed"
  shows "safe2 (\<lambda>s'. \<exists>ph'. ph' \<noteq> Closed \<and> stands ph' True s') (set_up_down pf itf s)"
proof -
  let ?P = "\<lambda>s'. \<exists>ph'. ph' \<noteq> Closed \<and> stands ph' True s'"
  have off: "?P (upd_self (\<lambda>self. self\<lparr>booted := False\<rparr>) (s3\<lparr>mm_halow_sched_teardown := False\<rparr>))"
    if "stands ph True s2" "vdo (p_wlan pf) V_shutdown (s2\<lparr>mm_halow_sched_teardown := True\<rparr>) = Some s3" for s2 s3
  proof -
    have "stands ph True (s2\<lparr>mm_halow_sched_teardown := True\<rparr>)" using that(1) by (simp add: stands_def)
    from vdo_moves(1) [OF this _ _ that(2), of Opened] s(2)
    have "in_phase Opened s3 \<and> initted (mm_halow_state s3)" by (simp add: talk_def)
    then have "stands Opened True (upd_self (\<lambda>self. self\<lparr>booted := False\<rparr>) (s3\<lparr>mm_halow_sched_teardown := False\<rparr>))"
      by (simp add: stands_def) (simp add: upd_self_def)
    then show ?thesis by blast
  qed
  show ?thesis
    unfolding set_up_down_def
    apply (rule safe_bind(3) [OF disable_stands [OF s]])
    apply (rule safe_bind(3) [where P = "stands ph True"])
     apply (intro safes; simp)
    apply (rule safe_if(2))
     apply (use off in \<open>fastforce simp: safe2_def bind_eq_Some_conv\<close>)
    apply (rule safe_Some(2))
    using s(2) by blast
qed

lemma set_up_talk:
  assumes s: "talk_inv s" shows "safe2 talk_inv (mm_halow_wifi_set_up pf itf up country s)"
  using s
proof (cases rule: talk_inv_cases)
  case closed
  then show ?thesis unfolding mm_halow_wifi_set_up_def by (intro safes up_talk s) simp_all
next
  case (opened ph)
  have "safe2 talk_inv (set_up_down pf itf s)"
    by (rule safe2_weaken [OF down_talk [OF opened(1,2)]]) (blast intro: talk_inv_open)
  then show ?thesis unfolding mm_halow_wifi_set_up_def by (intro safes up_talk s)
qed

lemma deinit_itf_talk:
  assumes "stands ph True s" "ph \<noteq> Closed"
  shows "safe1 (\<lambda>s'. \<exists>ph'. ph' \<noteq> Closed \<and> stands ph' True s') (if itf_up (mm_halow_state s) itf
               then map_option snd (mm_halow_wifi_set_up pf itf False country s) else Some s)"
proof -
  have "safe2 (\<lambda>s'. \<exists>ph'. ph' \<noteq> Closed \<and> stands ph' True s') (mm_halow_wifi_set_up pf itf False country s)"
    unfolding mm_halow_wifi_set_up_def
    by (intro safes) (use assms down_talk [OF assms] in auto)
  with assms show ?thesis by (auto simp: safe1_def safe2_def)
qed

lemma deinit_talk:
  assumes s: "talk_inv s" shows "safe1 talk_inv (mm_halow_deinit pf s)"
  using s
proof (cases rule: talk_inv_cases)
  case (opened ph)
  let ?P = "\<lambda>s'. \<exists>ph'. ph' \<noteq> Closed \<and> stands ph' True s'"
  have fin: "talk_inv t"
    if u: "stands ph2 True u" "ph2 \<noteq> Closed" "vdo (p_wlan pf) (V_register_rx False) u = Some s3"
      "vdo (p_wlan pf) V_shutdown (s3\<lparr>mm_halow_sched_teardown := True\<rparr>) = Some s4" "vdo (p_wlan pf) V_deinit s4 = Some s5"
      "ctrl_calls t = ctrl_calls s5" "\<not> booted (mm_halow_state t)" "\<not> initted (mm_halow_state t)" for ph2 u s3 s4 s5 t
  proof -
    have p3: "stands ph2 True s3"
      by (rule safe1_D [OF vdo_stays [OF u(1)] u(3)]) (use u(2) in \<open>simp_all add: talk_def\<close>)
    then have "stands ph2 True (s3\<lparr>mm_halow_sched_teardown := True\<rparr>)" by (simp add: stands_def)
    from vdo_moves(1) [OF this _ _ u(4), of Opened] u(2) have "in_phase Opened s4" by (simp add: talk_def)
    from safe1_D [OF vdo_safe [OF this, of V_deinit Closed] u(5)] have "in_phase Closed s5" by (simp add: talk_def)
    with u(6-8) show ?thesis by (intro talk_inv_closed) (simp add: stands_def in_phase_def)
  qed
  show ?thesis
    using opened(3) unfolding mm_halow_deinit_def
    apply (simp only: not_True_eq_False if_False)
    apply (rule safe_if(1), rule safe_Some(1), rule s)
    apply (rule safe_bind(1) [OF deinit_itf_talk [OF opened(1,2)]], elim exE conjE)
    apply (rule safe_bind(1) [OF deinit_itf_talk], assumption, assumption, elim exE conjE)
    apply (simp add: safe1_def bind_eq_Some_conv)
    apply (intro allI impI, elim exE conjE)
    apply (rule fin, assumption, assumption, assumption, assumption, assumption)
    apply (auto, auto simp: upd_self_def)
    done
next
  case closed
  with s show ?thesis by (simp add: mm_halow_deinit_def safe1_def)
qed

end

section \<open>The other operations\<close>

datatype control_op = Op_pm u32 | Op_ps_timeout u32 | Op_radio radio_setting u32 | Op_duty_cycle int
  | Op_twt u64 u32 int | Op_health_check u32 u32 | Op_fixed_rate int int int
  | Op_scan nat | Op_join "u8 list" "u8 list" u32 "u8 list option" | Op_leave int | Op_wnm_sleep bool bool

fun control :: "('l, 'a) pf \<Rightarrow> control_op \<Rightarrow> ('l, 'a) halow_st_scheme \<Rightarrow> ('l, 'a) halow_st_scheme option" where
  "control pf (Op_pm pm) s = map_option snd (mm_halow_wifi_pm pf pm s)"
| "control pf (Op_ps_timeout ms) s = map_option snd (mm_halow_wifi_set_ps_timeout pf ms s)"
| "control pf (Op_radio what v) s = map_option snd (mm_halow_wifi_set_radio pf what v s)"
| "control pf (Op_duty_cycle mode) s = map_option snd (mm_halow_wifi_set_duty_cycle pf mode s)"
| "control pf (Op_twt interval duration setup) s = map_option snd (mm_halow_wifi_twt pf interval duration setup s)"
| "control pf (Op_health_check min_ms max_ms) s = map_option snd (mm_halow_wifi_set_health_check pf min_ms max_ms s)"
| "control pf (Op_fixed_rate mcs bw gi) s = map_option snd (mm_halow_wifi_fixed_rate pf mcs bw gi s)"
| "control pf (Op_scan mx) s = map_option snd (mm_halow_wifi_scan_cached pf mx s)"
| "control pf (Op_join ssid key auth bssid) s = map_option snd (mm_halow_wifi_join pf ssid key auth bssid s)"
| "control pf (Op_leave itf) s = map_option snd (mm_halow_wifi_leave pf itf s)"
| "control pf (Op_wnm_sleep en powerdown) s = map_option snd (mm_halow_wifi_wnm_sleep pf en powerdown s)"

text \<open>The operations that test \<open>booted\<close> themselves.\<close>

fun guarded :: "control_op \<Rightarrow> bool" where
  "guarded (Op_scan _) = False"
| "guarded (Op_join _ _ _ _) = False"
| "guarded (Op_leave _) = False"
| "guarded (Op_wnm_sleep _ _) = False"
| "guarded _ = True"

lemma radio_push_off: "radio_push False False what v = None"
  by (cases what) simp_all

lemma radio_push_talk:
  "radio_push (boot \<and> down) boot what v = Some c \<Longrightarrow> (boot \<Longrightarrow> ph = Boot_asked) \<Longrightarrow> ph \<noteq> Closed \<Longrightarrow>
     \<not> traffic c \<and> talk ph c = Some ph"
  by (cases what) (auto simp: talk_def split: if_splits)

lemma radio_store_frame:
  "booted (radio_store what v self) = booted self" "initted (radio_store what v self) = initted self"
  by (cases what; simp)+

lemma guarded_silent:
  assumes "guarded op" and "\<not> booted (mm_halow_state s)"
  shows "\<exists>s'. control pf op s = Some s' \<and> vendor_calls s' = vendor_calls s \<and> initted (mm_halow_state s') = initted (mm_halow_state s)
    \<and> \<not> booted (mm_halow_state s')"
  using assms
  by (cases op) (auto simp: mm_halow_wifi_pm_def mm_halow_wifi_set_ps_timeout_def mm_halow_wifi_set_radio_def
      mm_halow_wifi_set_duty_cycle_def mm_halow_wifi_twt_def mm_halow_wifi_set_health_check_def
      mm_halow_wifi_fixed_rate_def Let_def upd_self_def radio_push_off split: radio_setting.split)

context talk_world
begin

lemma scan_start_stands [safes]:
  "stands ph ini s \<Longrightarrow> ph \<noteq> Closed \<Longrightarrow> safe2 (stands ph ini) (mm_halow_scan_start_locked pf s)"
  unfolding mm_halow_scan_start_locked_def Let_def by (intro safes; simp add: talk_def)

lemma scan_stands:
  assumes "stands ph ini s" "ph \<noteq> Closed"
  shows "safe2 (stands ph ini) (mm_halow_wifi_scan_cached pf mx s)"
proof -
  have 1: "stands ph ini t \<Longrightarrow> safe2 (stands ph ini) (Some (atomically (\<lambda>s. (f s, s)) t))" for f and t :: "('a, 'b) halow_st_scheme"
    by (simp add: safe2_def atomic_defs stands_def in_phase_def ctrl_calls_def)
  show ?thesis unfolding mm_halow_wifi_scan_cached_def Let_def
    by (intro safes 1) (use assms in \<open>simp_all add: safe2_def\<close>)
qed

lemma join_stands:
  "stands ph ini s \<Longrightarrow> ph \<noteq> Closed \<Longrightarrow> safe2 (stands ph ini) (mm_halow_wifi_join pf ssid key auth bssid s)"
  unfolding mm_halow_wifi_join_def Let_def trace_printf_def
  by (intro safes) (simp_all add: talk_def)

lemma control_stands:
  assumes s: "stands ph ini s" "ph \<noteq> Closed"
  shows "safe1 (stands ph ini) (control pf op s)"
proof -
  have b: "booted (mm_halow_state s) \<Longrightarrow> ph = Boot_asked" using s by (simp add: stands_def)
  show ?thesis
  proof (cases op)
    case (Op_radio what v)
    have "safe2 (stands ph ini) (mm_halow_wifi_set_radio pf what v s)"
    proof (cases "radio_push (booted (mm_halow_state s) \<and> link_status (mm_halow_state s) = MM_HALOW_LINK_DOWN)
        (booted (mm_halow_state s)) what v")
      case None
      then show ?thesis using s(1)
        by (cases what) (simp_all add: mm_halow_wifi_set_radio_def Let_def safe2_def radio_store_frame)
    next
      case (Some c)
      from radio_push_talk [OF this b s(2)] s(1)
      have "safe2 (stands ph ini) (vret (p_wlan pf) c (upd_self (radio_store what v) s))"
        by (intro vret_stays) (simp_all add: radio_store_frame)
      with Some show ?thesis by (cases what) (simp_all add: mm_halow_wifi_set_radio_def Let_def)
    qed
    then show ?thesis unfolding Op_radio control.simps by (rule safe_map_pair)
  next
    case (Op_scan mx)
    then show ?thesis using scan_stands [OF s] by (simp add: safe_map_pair)
  next
    case (Op_join ssid key auth bssid)
    then show ?thesis using join_stands [OF s] by (simp add: safe_map_pair)
  next
    case (Op_pm pm)
    show ?thesis unfolding Op_pm control.simps mm_halow_wifi_pm_def Let_def
      by (intro safes) (use s in simp_all)
  next
    case (Op_ps_timeout ms)
    show ?thesis unfolding Op_ps_timeout control.simps mm_halow_wifi_set_ps_timeout_def Let_def
      by (intro safes) (use s in \<open>simp_all add: talk_def\<close>)
  next
    case (Op_duty_cycle mode)
    have "booted (mm_halow_state (upd_self (\<lambda>self. self\<lparr>duty_cycle_mode := word_of_int mode\<rparr>) s)) = booted (mm_halow_state s)"
      by (simp add: upd_self_def)
    then show ?thesis unfolding Op_duty_cycle control.simps mm_halow_wifi_set_duty_cycle_def Let_def
      by (intro safes) (use s b in \<open>simp_all add: talk_def\<close>)
  next
    case (Op_twt interval duration mode)
    show ?thesis unfolding Op_twt control.simps mm_halow_wifi_twt_def Let_def
      by (intro safes) (use s b in \<open>simp_all add: talk_def\<close>)
  next
    case (Op_health_check min_ms max_ms)
    show ?thesis unfolding Op_health_check control.simps mm_halow_wifi_set_health_check_def Let_def
      by (intro safes) (use s b in \<open>simp_all add: talk_def\<close>)
  next
    case (Op_fixed_rate mcs bw gi)
    show ?thesis unfolding Op_fixed_rate control.simps mm_halow_wifi_fixed_rate_def Let_def
      by (intro safes) (use s b in \<open>simp_all add: talk_def\<close>)
  next
    case (Op_leave itf)
    show ?thesis unfolding Op_leave control.simps mm_halow_wifi_leave_def Let_def
      by (intro safes) (use s in \<open>simp_all add: talk_def\<close>)
  next
    case (Op_wnm_sleep en powerdown)
    show ?thesis unfolding Op_wnm_sleep control.simps mm_halow_wifi_wnm_sleep_def Let_def
      by (intro safes) (use s in \<open>simp_all add: talk_def\<close>)
  qed
qed

end

section \<open>Reachable states\<close>

text \<open>
  From power-up: the lifecycle and the operations in any order, those that do not test
  \<open>booted\<close> themselves only on an initialised driver; in between, whatever else runs, which
  says nothing.
\<close>

inductive talk_reach :: "('l, 'a) pf \<Rightarrow> bool \<Rightarrow> ('l, 'a) halow_st_scheme \<Rightarrow> bool" for pf fatal where
  start: "mm_halow_state s = mm_halow_state_init m n \<Longrightarrow> vendor_calls s = [] \<Longrightarrow> talk_reach pf fatal s"
| init: "talk_reach pf fatal s \<Longrightarrow> mm_halow_init pf s = Some (ret, s') \<Longrightarrow> talk_reach pf fatal s'"
| set_up: "talk_reach pf fatal s \<Longrightarrow> mm_halow_wifi_set_up pf itf up country s = Some (ret, s') \<Longrightarrow> talk_reach pf fatal s'"
| deinit: "talk_reach pf fatal s \<Longrightarrow> mm_halow_deinit pf s = Some s' \<Longrightarrow> talk_reach pf fatal s'"
| control: "talk_reach pf fatal s \<Longrightarrow> guarded op \<or> initted (mm_halow_state s) \<Longrightarrow> control pf op s = Some s' \<Longrightarrow>
    talk_reach pf fatal s'"
| other: "talk_reach pf fatal s \<Longrightarrow> silent fatal s s' \<Longrightarrow> talk_reach pf fatal s'"

lemma talk_reach_inv:
  assumes w: "talk_world pf fatal" shows "talk_reach pf fatal s \<Longrightarrow> talk_inv s"
proof (induction rule: talk_reach.induct)
  case (start s m n)
  then show ?case
    by (intro talk_inv_closed) (simp add: stands_def in_phase_def ctrl_calls_def dialogue_def mm_halow_state_init_def)
next
  case (init s ret s')
  from init.IH show ?case
  proof (cases rule: talk_inv_cases)
    case closed
    from talk_world.init_stands [OF w closed(1) init.hyps(2)] show ?thesis
      by (cases "ret = Ok") (auto intro: talk_inv_closed talk_inv_open)
  qed (use init in \<open>auto simp: mm_halow_init_def\<close>)
next
  case (set_up s itf up country ret s')
  then show ?case by (blast intro: safe2_D talk_world.set_up_talk [OF w])
next
  case (deinit s s')
  then show ?case by (blast intro: safe1_D talk_world.deinit_talk [OF w])
next
  case (control s op s')
  from control.IH show ?case
  proof (cases rule: talk_inv_cases)
    case closed
    then have "\<not> booted (mm_halow_state s)" by (simp add: stands_def)
    with guarded_silent [of op s pf] control(2,3) closed show ?thesis
      by (intro talk_inv_closed) (auto simp: stands_def in_phase_def ctrl_calls_def)
  next
    case (opened ph)
    from safe1_D [OF talk_world.control_stands [OF w opened(1,2)] control(3)] opened(2) show ?thesis
      by (rule talk_inv_open)
  qed
next
  case (other s s')
  then show ?case by (auto simp: talk_inv_def intro: silent_stands)
qed

lemma count_list_filter: "P x \<Longrightarrow> count_list (filter P xs) x = count_list xs x"
  by (induction xs) auto

text \<open>
  Leaving a network does not test \<open>booted\<close>, nor does waking from WNM sleep: on a driver that is
  not initialised both are calls out of order.
\<close>

lemma leave_needs_session:
  assumes w: "talk_world pf fatal" and r: "talk_reach pf fatal s" and off: "\<not> initted (mm_halow_state s)"
    and op: "op = Op_leave itf \<or> op = Op_wnm_sleep False powerdown" and run: "control pf op s = Some s'"
  shows "dialogue (ctrl_calls s') = None"
proof -
  have closed: "dialogue (ctrl_calls t) = Some Closed" if "ctrl_calls t = ctrl_calls s" for t :: "('a, 'b) halow_st_scheme"
    using talk_reach_inv [OF w r] off that by (auto elim!: talk_inv_cases simp: stands_def in_phase_def)
  have out: "dialogue (ctrl_calls s') = None"
    if c: "vcall (p_wlan pf) c t = Some (st, s')" "\<not> traffic c" "c \<noteq> V_init" "ctrl_calls t = ctrl_calls s" for c t st
  proof -
    have "ctrl_calls s' = ctrl_calls t @ [c]"
      using talk_world.vend_quiet [OF w, of c "t\<lparr>vendor_calls := vendor_calls t @ [c]\<rparr>" st s'] c(1,2)
      by (simp add: vcall_def ctrl_calls_def)
    with closed [OF c(4)] c(3,4) show ?thesis by (simp add: dialogue_snoc talk_def)
  qed
  from op run show ?thesis
    by (auto simp: mm_halow_wifi_leave_def mm_halow_wifi_wnm_sleep_def vret_def split: if_splits dest!: out)
qed

text \<open>
  The second interface up sets the channel list of a running transceiver; if morselib refuses
  that, the interface cannot come up.
\<close>

lemma second_itf_channels:
  assumes "itf \<in> {MM_HALOW_ITF_STA, MM_HALOW_ITF_AP}" "\<not> itf_up (mm_halow_state s) itf"
    and "initted (mm_halow_state s)" "lookup_regulatory_domain (p_wlan pf) country = Some chs"
    and "vcall (p_wlan pf) (V_set_channel_list chs)
           (upd_self (\<lambda>self. self\<lparr>h_country := take 2 country, h_channels := Some chs\<rparr>) s) = Some (st, s')"
    and "st \<noteq> MMWLAN_SUCCESS"
  shows "\<exists>e. mm_halow_wifi_set_up pf itf True country s = Some (Neg e, s')"
  using assms by (cases st) (auto simp: mm_halow_wifi_set_up_def set_up_up_def mm_halow_set_country_def vret_def)

section \<open>Hosts that say nothing\<close>

lemma host_lwip_says:
  "lwip_do host_lwip lc s = Some s' \<Longrightarrow> ctrl_calls s' = ctrl_calls s"
  "(\<And>t t'. init t = Some t' \<Longrightarrow> ctrl_calls t' = ctrl_calls t) \<Longrightarrow>
     netif_add host_lwip n init s = Some s' \<Longrightarrow> ctrl_calls s' = ctrl_calls s"
  by (cases lc) (auto simp: host_lwip_def ctrl_calls_def upd_netif_def)

interpretation host_talk: talk_world host_pf fatal for fatal
proof (rule talk_world.intro [OF host_world.halow_world_axioms], unfold_locales, goal_cases)
  case (4 init n s s')
  from host_lwip_says(2) [of init n s s'] 4 show ?case by simp
qed (auto simp: host_pf_def rest_env_def silent_def ctl_keeps_def core_def ctrl_calls_def quiet_wlan_def
       dest: host_lwip_says(1) [unfolded ctrl_calls_def])

text \<open>
  A rough host: the tasks run arbitrary programs of driver operations, morselib answers what it
  likes, and when it likes, it fails for good and calls the driver's fatal error callback.
\<close>

definition rough_pf :: "(vendor_call \<Rightarrow> mmwlan_status) \<Rightarrow> (vendor_call \<Rightarrow> bool)
    \<Rightarrow> (nat \<Rightarrow> ('l, u8 list) halow_st_scheme \<Rightarrow> act list \<times> finish) \<Rightarrow> ('l, u8 list) pf" where
  "rough_pf answer dies tasks = host_pf\<lparr>
     p_env := script_env tasks,
     p_wlan := quiet_wlan\<lparr>vendor := (\<lambda>c s. map_option (Pair (answer c))
        (if dies c then mm_halow_fatal_error_cb host_pf s else Some s))\<rparr>\<rparr>"

lemma rough_simps [simp]:
  "p_env (rough_pf answer dies tasks) = script_env tasks" "p_lwip (rough_pf answer dies tasks) = host_lwip"
  "vendor (p_wlan (rough_pf answer dies tasks)) c s = map_option (Pair (answer c))
     (if dies c then mm_halow_fatal_error_cb host_pf s else Some s)"
  "get_vif_mac_addr (p_wlan (rough_pf answer dies tasks)) vif b s = Some (MMWLAN_SUCCESS, [2, 0, 0, 0, 0, 1], s)"
  by (simp_all add: rough_pf_def quiet_wlan_def)

lemma rough_fatal: "\<exists>s'. mm_halow_fatal_error_cb host_pf s = Some s' \<and> silent True s s'"
  using link_callbacks_keep(2) [OF host_world.halow_world_axioms, of True s] host_talk.fatal_cb_says [of s]
  by (auto simp: ret1_def silent_def)

interpretation rough_world: halow_world "rough_pf answer dies tasks" True for answer dies tasks
proof (unfold_locales, goal_cases)
  case (1 s c)
  obtain s' where "mm_halow_fatal_error_cb host_pf s = Some s'" "silent True s s'" using rough_fatal [of s] by blast
  then show ?case by (simp add: ret2_def silent_def)
next
  case (3 s lc)
  then show ?case using host_world.lwip [of True s lc] by simp
next
  case (4 init s n)
  then show ?case using host_world.add [of True init s n] by simp
qed simp

interpretation rough_talk: talk_world "rough_pf answer dies tasks" True for answer dies tasks
proof (rule talk_world.intro [OF rough_world.halow_world_axioms], unfold_locales, goal_cases)
  case (1 c s st s')
  then show ?case using rough_fatal [of s] by (auto simp: silent_def split: if_splits)
next
  case (4 init n s s')
  from host_lwip_says(2) [of init n s s'] 4 show ?case by simp
next
  case (5 p s s')
  then show ?case using script_change [of s tasks p s'] by (auto simp: task_change_def intro: silent_own)
qed (auto simp: script_env_def silent_def ctl_keeps_def core_def ctrl_calls_def
       dest: host_lwip_says(1) [unfolded ctrl_calls_def])

section \<open>Property\<close>



end
