(* ===== verification/Halow_Session.thy ===== *)
theory Halow_Session
  imports Halow_Lifecycle
begin

text \<open>
  Scanning and joining a network. Both wait while the rest of the system runs, so what they
  need of it is a locale, \<open>session_world\<close>: the wait for the end of a scan is a wait in the
  sense of \<open>wait_env\<close>, nobody else calls morselib's control interface meanwhile, and
  morselib's calls return. Inside it, scans and joins are shown to return and to keep out of
  each other's way.
\<close>

section \<open>The arguments of a join\<close>

definition join_refused :: "('l, 'a) pf \<Rightarrow> u8 list \<Rightarrow> u8 list \<Rightarrow> u32 \<Rightarrow> bool" where
  "join_refused pf ssid key auth \<longleftrightarrow> length ssid = 0 \<or> length ssid > MMWLAN_SSID_MAXLEN (p_wlan pf)
     \<or> length key > MMWLAN_PASSPHRASE_MAXLEN (p_wlan pf) \<or> auth = MM_HALOW_SEC_SAE \<and> length key = 0"

definition join_call :: "u8 list \<Rightarrow> u8 list \<Rightarrow> u32 \<Rightarrow> u8 list option \<Rightarrow> vendor_call" where
  "join_call ssid key auth bssid = V_sta_enable \<lparr>sta_ssid_arg = ssid, sta_passphrase = key, sta_security_type = auth,
     sta_pmf_disabled = (auth = MM_HALOW_SEC_OPEN), sta_bssid_arg = map_option (take MMWLAN_MAC_ADDR_LEN) bssid,
     scan_interval_base_s = 2, scan_interval_limit_s = 10\<rparr>"

lemma join_refused_unchanged: "join_refused pf ssid key auth \<Longrightarrow> mm_halow_wifi_join pf ssid key auth bssid s = Some (Neg EINVAL, s)"
  by (auto simp: join_refused_def mm_halow_wifi_join_def)

section \<open>The contract\<close>

locale session_world =
  fixes pf :: "('l, 'a) pf" and I :: "('l, 'a) halow_st_scheme \<Rightarrow> bool"
    and idle :: "('l, 'a) halow_st_scheme \<Rightarrow> nat" and M :: nat
  assumes wait: "wait_env (p_env pf) mm_halow_scan_idle_cond (\<lambda>s. I s \<and> vendor_calls s = log) idle M"
    and vend: "I s \<Longrightarrow> \<exists>st s'. vendor (p_wlan pf) c (s\<lparr>vendor_calls := log\<rparr>) = Some (st, s') \<and> I s'
      \<and> vendor_calls s' = log \<and> time_ms s \<le> time_ms s'"
    and pool: "I s \<Longrightarrow> \<exists>p s'. mm_halow_osal_malloc n s = Some (p, s') \<and> I s'"
    and self: "I s \<Longrightarrow> I (upd_self f s)"
    and noted: "I s \<Longrightarrow> I (emit e s) \<and> I (mm_halow_sched_wake s)"
begin

lemma depth: "I (s\<lparr>mm_halow_wait_depth := d\<rparr>) = I s"
  using wait_env.I_depth [OF wait [where log = "vendor_calls s"], where s = s and d = d] by simp

lemma vcall_ok:
  assumes "I s"
  shows "\<exists>st s'. vcall (p_wlan pf) c s = Some (st, s') \<and> I s' \<and> vendor_calls s' = vendor_calls s @ [c]
    \<and> time_ms s \<le> time_ms s'"
  using vend [OF assms] by (simp add: vcall_def)

lemma wait_ok:
  assumes "I s" and "t \<noteq> UINT32_MAX"
  shows "\<exists>b s'. mm_halow_sched_wait (p_env pf) mm_halow_scan_idle_cond t s = Some (b, s') \<and> I s'
    \<and> vendor_calls s' = vendor_calls s \<and> (\<not> scan_active (mm_halow_state s') \<or> time_ms s + min (unat t) 10000 \<le> time_ms s')
    \<and> time_ms s \<le> time_ms s'"
proof -
  have "I s \<and> vendor_calls s = vendor_calls s" using assms(1) by simp
  from wait_env.sched_wait_bounded [OF wait this] assms(2) obtain b s' s0 s1 where
    r: "mm_halow_sched_wait (p_env pf) mm_halow_scan_idle_cond t s = Some (b, s')" "mm_halow_scan_idle_cond s0 = (b, s1)"
      "s' = (let s2 = (if mm_halow_task_cur s = 0
                then s1\<lparr>mm_halow_wait_depth := mm_halow_wait_depth s\<rparr> else s1)
             in if b then mm_halow_sched_wake s2 else s2)"
      "\<not> b \<longrightarrow> time_ms s + min (unat t) 10000 \<le> time_ms s'" "time_ms s \<le> time_ms s'"
      "I s1 \<and> vendor_calls s1 = vendor_calls s"
    by blast
  have "b = (\<not> scan_active (mm_halow_state s1))" using r(2) by (auto simp: mm_halow_scan_idle_cond_def)
  moreover have "I s' \<and> vendor_calls s' = vendor_calls s \<and> mm_halow_state s' = mm_halow_state s1"
    unfolding r(3) Let_def using r(6) noted depth by (auto simp: mm_halow_sched_wake_def)
  ultimately show ?thesis using r(1,4,5) by auto
qed

lemma start_ok:
  assumes "I s"
  shows "\<exists>ret s'. mm_halow_scan_start_locked pf s = Some (ret, s') \<and> I s'
    \<and> vendor_calls s' = vendor_calls s @ [V_scan_request 110] \<and> time_ms s \<le> time_ms s'
    \<and> (ret \<noteq> Ok \<longrightarrow> \<not> scan_active (mm_halow_state s'))"
proof -
  obtain st s1 where "vcall (p_wlan pf) (V_scan_request 110)
        (upd_self (\<lambda>self. self\<lparr>scan_active := True, scan_started_ms := mm_halow_ticks_ms s\<rparr>) s) = Some (st, s1)"
    "I s1" "vendor_calls s1 = vendor_calls s @ [V_scan_request 110]" "time_ms s \<le> time_ms s1"
    using vcall_ok [OF self [OF assms]] by (fastforce simp: upd_self_def)
  then show ?thesis by (auto simp: mm_halow_scan_start_locked_def self) (simp_all add: upd_self_def)
qed

lemma cached_ok:
  assumes "I s"
  shows "\<exists>rs s'. mm_halow_wifi_scan_cached pf mx s = Some (rs, s') \<and> I s' \<and> length rs \<le> mx
    \<and> (link_status (mm_halow_state s) \<noteq> MM_HALOW_LINK_DOWN \<longrightarrow> rs = [] \<and> s' = s)
    \<and> (vendor_calls s' = vendor_calls s
        \<or> vendor_calls s' = vendor_calls s @ [V_scan_request 110] \<and> link_status (mm_halow_state s) = MM_HALOW_LINK_DOWN
            \<and> \<not> scan_active (mm_halow_state s))
    \<and> (rs \<noteq> [] \<longrightarrow> rs = map (scan_results (mm_halow_state s')) [0..<min (unat (scan_cache_len (mm_halow_state s'))) mx]
          \<and> (\<not> scan_active (mm_halow_state s') \<or> time_ms s + 10000 \<le> time_ms s'))"
proof (cases "link_status (mm_halow_state s) = MM_HALOW_LINK_DOWN")
  case False
  then show ?thesis using assms by (simp add: mm_halow_wifi_scan_cached_def)
next
  case True
  let ?alloc = "if scan_cache (mm_halow_state s) = 0
          then do {
            (cache, s') \<leftarrow> mm_halow_osal_malloc (of_nat (unat MM_HALOW_SCAN_CACHE_MAX * sizeof_scan_result pf)) s;
            let s'' = upd_self (\<lambda>self. self\<lparr>scan_cache := cache\<rparr>) s';
            Some (if cache = 0 then (False, s'')
                  else (True, upd_self (\<lambda>self. self\<lparr>scan_cache_max := MM_HALOW_SCAN_CACHE_MAX\<rparr>) s''))
          }
          else Some (True, s)"
  have "\<exists>ok s1. ?alloc = Some (ok, s1) \<and> I s1 \<and> vendor_calls s1 = vendor_calls s \<and> time_ms s1 = time_ms s
    \<and> scan_active (mm_halow_state s1) = scan_active (mm_halow_state s)"
  proof (cases "scan_cache (mm_halow_state s) = 0")
    case True
    obtain p s1 where m: "mm_halow_osal_malloc (of_nat (unat MM_HALOW_SCAN_CACHE_MAX * sizeof_scan_result pf)) s = Some (p, s1)" "I s1"
      using pool [OF assms] by blast
    have "vendor_calls s1 = vendor_calls s" "time_ms s1 = time_ms s" "mm_halow_state s1 = mm_halow_state s"
      using m(1) by (auto simp: malloc_eq split: if_splits)
    then show ?thesis using True m(1)
        self [OF m(2), of "\<lambda>self. self\<lparr>scan_cache := p\<rparr>"]
        self [OF self [OF m(2), of "\<lambda>self. self\<lparr>scan_cache := p\<rparr>"], of "\<lambda>self. self\<lparr>scan_cache_max := MM_HALOW_SCAN_CACHE_MAX\<rparr>"]
      by (auto simp: Let_def upd_self_def)
  qed (use assms in auto)
  then obtain ok s1 where s1: "?alloc = Some (ok, s1)" "I s1" "vendor_calls s1 = vendor_calls s" "time_ms s1 = time_ms s"
    "scan_active (mm_halow_state s1) = scan_active (mm_halow_state s)" by blast
  show ?thesis
  proof (cases ok)
    case False
    with s1 True show ?thesis unfolding mm_halow_wifi_scan_cached_def by (simp only: if_False not_not bind.bind_lunit prod.case) auto
  next
    case ok: True
    let ?start = "if \<not> scan_active (mm_halow_state s1)
            then map_option (\<lambda>(ret, s'). (ret = Ok, s'))
                   (mm_halow_scan_start_locked pf (upd_self (\<lambda>self. self\<lparr>scan_cache_len := 0\<rparr>) s1))
            else Some (True, s1)"
    have "\<exists>ok s2. ?start = Some (ok, s2) \<and> I s2 \<and> time_ms s \<le> time_ms s2 \<and> vendor_calls s2 = vendor_calls s
        @ (if scan_active (mm_halow_state s) then [] else [V_scan_request 110])"
      using start_ok [OF self [OF s1(2)], of "\<lambda>self. self\<lparr>scan_cache_len := 0\<rparr>"] s1 by (fastforce simp: upd_self_def)
    then obtain go s2 where s2: "?start = Some (go, s2)" "I s2" "time_ms s \<le> time_ms s2" "vendor_calls s2 = vendor_calls s
        @ (if scan_active (mm_halow_state s) then [] else [V_scan_request 110])" by blast
    obtain b s3 where s3: "mm_halow_sched_wait (p_env pf) mm_halow_scan_idle_cond 30000 s2 = Some (b, s3)" "I s3"
      "vendor_calls s3 = vendor_calls s2"
      "\<not> scan_active (mm_halow_state s3) \<or> time_ms s2 + min (unat (30000 :: u32)) 10000 \<le> time_ms s3" "time_ms s2 \<le> time_ms s3"
      using wait_ok [OF s2(2), of 30000] by auto
    let ?r = "atomically (\<lambda>s. (map (scan_results (mm_halow_state s))
                     [0..<min (unat (scan_cache_len (mm_halow_state s))) mx], s)) s3"
    have r: "?r = (map (scan_results (mm_halow_state s3)) [0..<min (unat (scan_cache_len (mm_halow_state s3))) mx], s3)"
      by (simp add: atomic_defs)
    have "mm_halow_wifi_scan_cached pf mx s = (if \<not> go then Some ([], s2) else Some ?r)"
      unfolding mm_halow_wifi_scan_cached_def using True ok by (simp add: s1(1) s2(1) s3(1) del: not_None_eq)
    then show ?thesis unfolding r using s2 s3 True by (cases go) (auto simp: min_def)
  qed
qed

text \<open>A join that is not refused: the scan is over, or 5 s have passed, when morselib is told.\<close>

lemma join_ok:
  assumes "I s" and "\<not> join_refused pf ssid key auth"
  shows "\<exists>ret s' t st t'. mm_halow_wifi_join pf ssid key auth bssid s = Some (ret, s') \<and> I s'
    \<and> vendor_calls t = vendor_calls s @ (if scan_active (mm_halow_state s) then [V_scan_abort] else [])
    \<and> (\<not> scan_active (mm_halow_state t) \<or> time_ms s + 5000 \<le> time_ms t)
    \<and> vcall (p_wlan pf) (join_call ssid key auth bssid) t = Some (st, t')
    \<and> vendor_calls s' = vendor_calls t @ [join_call ssid key auth bssid]
    \<and> ret = (if st = MMWLAN_SUCCESS then Ok else mm_halow_status_to_errno st)
    \<and> (st \<noteq> MMWLAN_SUCCESS \<longrightarrow> link_status (mm_halow_state s') = MM_HALOW_LINK_FAIL)"
proof -
  let ?s2 = "upd_self (\<lambda>self. self\<lparr>link_status := MM_HALOW_LINK_JOIN\<rparr>)
     (upd_self (\<lambda>self. self\<lparr>sta_ssid := overwrite (sta_ssid self) (length ssid) ssid, sta_ssid_len := of_nat (length ssid)\<rparr>) s)"
  have s2: "I ?s2" "vendor_calls ?s2 = vendor_calls s" "time_ms ?s2 = time_ms s"
    "scan_active (mm_halow_state ?s2) = scan_active (mm_halow_state s)"
    using assms(1) by (simp add: self, simp_all add: upd_self_def)
  let ?abort = "if scan_active (mm_halow_state ?s2)
     then do {
       s' \<leftarrow> vdo (p_wlan pf) V_scan_abort ?s2;
       map_option snd (mm_halow_sched_wait (p_env pf) mm_halow_scan_idle_cond 5000 s')
     }
     else Some ?s2"
  have "\<exists>t. ?abort = Some t \<and> I t \<and> vendor_calls t = vendor_calls s @ (if scan_active (mm_halow_state s) then [V_scan_abort] else [])
    \<and> (\<not> scan_active (mm_halow_state t) \<or> time_ms s + 5000 \<le> time_ms t)"
  proof (cases "scan_active (mm_halow_state ?s2)")
    case True
    obtain st s3 where s3: "vcall (p_wlan pf) V_scan_abort ?s2 = Some (st, s3)" "I s3"
      "vendor_calls s3 = vendor_calls s @ [V_scan_abort]" "time_ms s \<le> time_ms s3"
      using vcall_ok [OF s2(1), of V_scan_abort] unfolding s2(2,3) by blast
    obtain b t where "mm_halow_sched_wait (p_env pf) mm_halow_scan_idle_cond 5000 s3 = Some (b, t)" "I t"
      "vendor_calls t = vendor_calls s3" "\<not> scan_active (mm_halow_state t) \<or> time_ms s3 + min (unat (5000 :: u32)) 10000 \<le> time_ms t"
      using wait_ok [OF s3(2), of 5000] by auto
    with True s3 s2(4) show ?thesis by (intro exI [of _ t]) (auto simp: vdo_def min_def)
  next
    case False
    with s2 show ?thesis by (intro exI [of _ ?s2]) simp
  qed
  then obtain t where t: "?abort = Some t" "I t"
    "vendor_calls t = vendor_calls s @ (if scan_active (mm_halow_state s) then [V_scan_abort] else [])"
    "\<not> scan_active (mm_halow_state t) \<or> time_ms s + 5000 \<le> time_ms t" by blast
  obtain st t' where t': "vcall (p_wlan pf) (join_call ssid key auth bssid) t = Some (st, t')" "I t'"
    "vendor_calls t' = vendor_calls t @ [join_call ssid key auth bssid]"
    using vcall_ok [OF t(2)] by blast
  let ?s5 = "trace_printf ''sta_enable'' t'"
  have s5: "I ?s5" "vendor_calls ?s5 = vendor_calls t'" using t'(2) noted by (simp_all add: trace_printf_def emit_def)
  have g: "\<not> (length ssid = 0 \<or> length ssid > MMWLAN_SSID_MAXLEN (p_wlan pf))"
    "\<not> length key > MMWLAN_PASSPHRASE_MAXLEN (p_wlan pf)" "\<not> (auth = MM_HALOW_SEC_SAE \<and> length key = 0)"
    using assms(2) by (auto simp: join_refused_def)
  have "mm_halow_wifi_join pf ssid key auth bssid s = (if st \<noteq> MMWLAN_SUCCESS
      then Some (mm_halow_status_to_errno st, upd_self (\<lambda>self. self\<lparr>link_status := MM_HALOW_LINK_FAIL\<rparr>) ?s5) else Some (Ok, ?s5))"
    unfolding mm_halow_wifi_join_def Let_def if_not_P [OF g(1)] if_not_P [OF g(2)] if_not_P [OF g(3)] t(1)
    using t'(1) by (simp only: bind.bind_lunit join_call_def prod.case)
  with t t' s5 self [OF s5(1)] show ?thesis
    by (intro exI [of _ "if st = MMWLAN_SUCCESS then Ok else mm_halow_status_to_errno st"]
        exI [of _ "if st = MMWLAN_SUCCESS then ?s5 else upd_self (\<lambda>self. self\<lparr>link_status := MM_HALOW_LINK_FAIL\<rparr>) ?s5"]
        exI [of _ t] exI [of _ st] exI [of _ t']) (auto simp: upd_self_def)
qed

end

section \<open>A host on which scans end\<close>

text \<open>Whenever the driver gives up the processor, a scan reports some networks and completes.\<close>

definition scan_done :: "mmwlan_scan_result list \<Rightarrow> ('l, u8 list) halow_st_scheme \<Rightarrow> ('l, u8 list) halow_st_scheme" where
  "scan_done rs = upd_self (\<lambda>self. mm_halow_scan_complete_cb (fold (mm_halow_scan_rx_cb (host_pf :: ('l, u8 list) pf)) rs self))"

definition scan_pf :: "mmwlan_scan_result list \<Rightarrow> ('l, u8 list) pf" where
  "scan_pf rs = host_pf\<lparr>p_env := rest_env (scan_done rs)\<rparr>"

definition session_ok :: "('l, u8 list) halow_st_scheme \<Rightarrow> bool" where
  "session_ok s \<longleftrightarrow> in_task s \<and> (\<exists>L. heap_live s L)"

lemma session_ok_cong:
  assumes "mm_halow_task_cur s' = mm_halow_task_cur s" "mm_halow_heap_head s' = mm_halow_heap_head s"
    "mm_halow_heap_mem s' = mm_halow_heap_mem s" "blk s' = blk s"
  shows "session_ok s' = session_ok s"
  using heap_live_cong [of s' s] assms by (simp add: session_ok_def in_task_def)

interpretation scan_host: session_world "scan_pf rs" session_ok "\<lambda>_. 0" 1 for rs
proof (rule session_world.intro)
  fix log
  have env: "p_env (scan_pf rs) = rest_env (scan_done rs)" by (simp add: scan_pf_def)
  show "wait_env (p_env (scan_pf rs)) mm_halow_scan_idle_cond (\<lambda>s. session_ok s \<and> vendor_calls s = log) (\<lambda>_. 0) 1"
    unfolding env
  proof (unfold_locales, goal_cases)
    case (1 s timed w)
    let ?s1 = "if timed \<and> sint (w - mm_halow_sched_wake_at s) < 0 then s\<lparr>mm_halow_sched_wake_at := w\<rparr> else s"
    let ?s' = "(scan_done rs ?s1)\<lparr>time_ms := time_ms ?s1 + 1, mm_halow_task_cur := mm_halow_task_cur ?s1,
                mm_halow_wait_depth := mm_halow_wait_depth ?s1\<rparr>"
    have "mm_halow_sched_park (rest_env (scan_done rs)) timed w s = Some ?s'"
      using 1 by (simp add: mm_halow_sched_park_def session_ok_def in_task_def rest_env_def Let_def)
    moreover have "session_ok ?s' = session_ok s" by (rule session_ok_cong) (simp_all add: scan_done_def upd_self_def)
    moreover have "vendor_calls ?s' = vendor_calls s" "time_ms ?s' = time_ms s + 1" "mm_halow_wait_depth ?s' = mm_halow_wait_depth s"
      by (simp_all add: scan_done_def upd_self_def)
    ultimately show ?case using 1 by (intro exI [of _ ?s']) simp
  next
    case (4 d s)
    show ?case by (simp add: session_ok_cong [of "s\<lparr>mm_halow_wait_depth := d\<rparr>" s])
  qed (auto simp: mm_halow_scan_idle_cond_def rest_env_def)
next
  fix s :: "('l, u8 list) halow_st_scheme" and n assume ok: "session_ok s"
  then obtain L where L: "heap_live s L" "in_task s" by (auto simp: session_ok_def)
  then obtain p s' where m: "mm_halow_osal_malloc n s = Some (p, s')" using heap.malloc_returns by blast
  have "\<exists>L. heap_live s' L" using heap.malloc_null [OF L(1), of n s'] heap.malloc_block [OF L(1) m] m L(1) by (cases "p = 0") blast+
  then show "\<exists>p s'. mm_halow_osal_malloc n s = Some (p, s') \<and> session_ok s'"
    using m L(2) malloc_sched_frame [OF m] by (auto simp: session_ok_def in_task_def)
next
  fix s :: "('l, u8 list) halow_st_scheme" and f e assume ok: "session_ok s"
  show "session_ok (upd_self f s)" by (rule iffD2 [OF session_ok_cong ok]) (simp_all add: upd_self_def)
  show "session_ok (emit e s) \<and> session_ok (mm_halow_sched_wake s)"
    by (intro conjI; rule iffD2 [OF session_ok_cong ok]) (simp_all add: emit_def mm_halow_sched_wake_def)
next
  fix s :: "('l, u8 list) halow_st_scheme" and c log assume ok: "session_ok s"
  have "session_ok (s\<lparr>vendor_calls := log\<rparr>)" by (rule iffD2 [OF session_ok_cong ok]) simp_all
  then show "\<exists>st s'. vendor (p_wlan (scan_pf rs)) c (s\<lparr>vendor_calls := log\<rparr>) = Some (st, s') \<and> session_ok s'
      \<and> vendor_calls s' = log \<and> time_ms s \<le> time_ms s'"
    by (simp add: scan_pf_def quiet_wlan_def)
qed

section \<open>Property\<close>



end
