(* ===== verification/Halow_Settings.thy ===== *)
theory Halow_Settings
  imports Halow_Lifecycle
begin

text \<open>
  The radio settings (mm_halow_ctrl.c): whatever the state of the driver, and whether or not
  morselib accepts a value, the stored settings are a plain map from settings to values, and
  init tells morselib what that map says. The contract, \<open>radio_vendor\<close>, is that morselib
  does not write the driver's own copy of the settings while it is being told one.
\<close>

section \<open>The abstract settings\<close>

definition radio_value :: "radio_setting \<Rightarrow> u32 \<Rightarrow> u32" where
  "radio_value what v = (case what of
      MM_HALOW_RADIO_RTS \<Rightarrow> v | MM_HALOW_RADIO_FRAG \<Rightarrow> v
    | MM_HALOW_RADIO_LISTEN \<Rightarrow> and v 0xffff | MM_HALOW_RADIO_TXPOWER \<Rightarrow> and v 0xffff
    | _ \<Rightarrow> of_bool (v \<noteq> 0))"

text \<open>A number that names no setting is refused by the setter and reads as the listen interval.\<close>

definition radio_known :: "radio_setting \<Rightarrow> bool" where
  "radio_known what \<longleftrightarrow> (\<forall>n. what \<noteq> MM_HALOW_RADIO_OTHER n)"

definition radio_slot :: "radio_setting \<Rightarrow> radio_setting" where
  "radio_slot what = (if radio_known what then what else MM_HALOW_RADIO_LISTEN)"

definition radio_spec :: "radio_setting \<times> u32 \<Rightarrow> (radio_setting \<Rightarrow> u32) \<Rightarrow> radio_setting \<Rightarrow> u32" where
  "radio_spec op g = (if radio_known (fst op)
     then (\<lambda>r. if radio_slot r = fst op then radio_value (fst op) (snd op) else g r) else g)"

lemma ucast_u16: "ucast (ucast (v :: u32) :: u16) = and v 0xffff"
proof -
  have m: "(0xffff :: u32) = mask 16" by (simp add: mask_eq_exp_minus_1)
  show ?thesis unfolding m by (rule bit_word_eqI) (auto simp: bit_simps)
qed

lemma ucast_back: "(ucast (ucast (x :: u16) :: u32) :: u16) = x"
  by (rule bit_word_eqI) (auto simp: bit_simps)

lemma ucast_up: "(ucast (x :: u16) :: u32) = ucast y \<longleftrightarrow> x = y" "(ucast (x :: u16) :: u32) = 0 \<longleftrightarrow> x = 0"
  using ucast_back [of x] ucast_back [of y] by (metis, auto)

lemma radio_store_spec: "mm_halow_wifi_get_radio (radio_store what v self)
    = radio_spec (what, v) (mm_halow_wifi_get_radio self)"
proof
  fix r
  show "mm_halow_wifi_get_radio (radio_store what v self) r = radio_spec (what, v) (mm_halow_wifi_get_radio self) r"
    by (cases what; cases r) (simp_all add: radio_spec_def radio_known_def radio_slot_def radio_value_def ucast_u16)
qed

section \<open>What morselib is told\<close>

text \<open>The calls of mm_halow_apply_radio(), from the settings alone.\<close>

definition radio_calls :: "mm_halow_t \<Rightarrow> vendor_call list" where
  "radio_calls self = (let g = mm_halow_wifi_get_radio self in
     [V_set_ampdu (g MM_HALOW_RADIO_AMPDU \<noteq> 0), V_set_sgi (g MM_HALOW_RADIO_SGI \<noteq> 0),
      V_set_subbands (g MM_HALOW_RADIO_SUBBANDS \<noteq> 0)]
     @ (if g MM_HALOW_RADIO_RTS \<noteq> 0 then [V_set_rts_threshold (g MM_HALOW_RADIO_RTS)] else [])
     @ (if g MM_HALOW_RADIO_FRAG \<noteq> 0 then [V_set_fragment_threshold (g MM_HALOW_RADIO_FRAG)] else [])
     @ (if g MM_HALOW_RADIO_LISTEN \<noteq> 0 then [V_set_listen_interval (ucast (g MM_HALOW_RADIO_LISTEN))] else [])
     @ (if health_max_ms self \<noteq> 0 then [V_set_health_check (health_min_ms self) (health_max_ms self)] else []))"

definition radio_same :: "mm_halow_t \<Rightarrow> mm_halow_t \<Rightarrow> bool" where
  "radio_same self self' \<longleftrightarrow> mm_halow_wifi_get_radio self' = mm_halow_wifi_get_radio self
     \<and> health_min_ms self' = health_min_ms self \<and> health_max_ms self' = health_max_ms self
     \<and> booted self' = booted self \<and> link_status self' = link_status self"

lemma radio_same_refl [simp]: "radio_same self self"
  by (simp add: radio_same_def)

lemma radio_same_trans: "radio_same s t \<Longrightarrow> radio_same t u \<Longrightarrow> radio_same s u"
  by (simp add: radio_same_def)

lemma radio_same_fields:
  assumes "radio_same self self'"
  shows "h_ampdu self' = h_ampdu self" "h_sgi self' = h_sgi self" "h_subbands self' = h_subbands self"
    "rts_threshold self' = rts_threshold self" "fragment_threshold self' = fragment_threshold self"
    "listen_interval self' = listen_interval self"
proof -
  have g: "mm_halow_wifi_get_radio self' w = mm_halow_wifi_get_radio self w" for w
    using assms by (simp add: radio_same_def)
  show "h_ampdu self' = h_ampdu self" using g [of MM_HALOW_RADIO_AMPDU] by (simp add: of_bool_eq_iff)
  show "h_sgi self' = h_sgi self" using g [of MM_HALOW_RADIO_SGI] by (simp add: of_bool_eq_iff)
  show "h_subbands self' = h_subbands self" using g [of MM_HALOW_RADIO_SUBBANDS] by (simp add: of_bool_eq_iff)
  show "rts_threshold self' = rts_threshold self" using g [of MM_HALOW_RADIO_RTS] by simp
  show "fragment_threshold self' = fragment_threshold self" using g [of MM_HALOW_RADIO_FRAG] by simp
  have "ucast (listen_interval self') = (ucast (listen_interval self) :: u32)" using g [of MM_HALOW_RADIO_LISTEN] by simp
  then show "listen_interval self' = listen_interval self" by (simp add: ucast_up)
qed

text \<open>A run of the setter, and the calls of morselib it makes: those its state admits.\<close>

fun set_radios :: "('l, 'a) pf \<Rightarrow> (radio_setting \<times> u32) list \<Rightarrow> ('l, 'a) halow_st_scheme \<Rightarrow> ('l, 'a) halow_st_scheme option" where
  "set_radios pf [] s = Some s"
| "set_radios pf (op # ops) s = Option.bind (mm_halow_wifi_set_radio pf (fst op) (snd op) s) (\<lambda>(_, s'). set_radios pf ops s')"

definition radio_pushed :: "mm_halow_t \<Rightarrow> radio_setting \<times> u32 \<Rightarrow> vendor_call list" where
  "radio_pushed self op = (case radio_push (booted self \<and> link_status self = MM_HALOW_LINK_DOWN) (booted self) (fst op) (snd op) of
      None \<Rightarrow> [] | Some c \<Rightarrow> [c])"

locale radio_vendor =
  fixes pf :: "('l, 'a) pf"
  assumes told: "\<exists>st s'. vendor (p_wlan pf) c s = Some (st, s') \<and> radio_same (mm_halow_state s) (mm_halow_state s')
      \<and> vendor_calls s' = vendor_calls s"
begin

lemma vcall_told: "\<exists>st s'. vcall (p_wlan pf) c s = Some (st, s') \<and> radio_same (mm_halow_state s) (mm_halow_state s')
      \<and> vendor_calls s' = vendor_calls s @ [c]"
  using told [of c "s\<lparr>vendor_calls := vendor_calls s @ [c]\<rparr>"] by (simp add: vcall_def)

lemma vdo_told:
  assumes "radio_same (mm_halow_state s) (mm_halow_state t)" "vendor_calls t = vendor_calls s @ cs"
  shows "\<exists>t'. (if b then vdo (p_wlan pf) c t else Some t) = Some t' \<and> radio_same (mm_halow_state s) (mm_halow_state t')
      \<and> vendor_calls t' = vendor_calls s @ cs @ (if b then [c] else [])"
  using vcall_told [of c t] assms by (auto simp: vdo_def intro: radio_same_trans)

lemma apply_radio_told:
  "\<exists>s'. mm_halow_apply_radio pf s = Some s' \<and> radio_same (mm_halow_state s) (mm_halow_state s')
     \<and> vendor_calls s' = vendor_calls s @ radio_calls (mm_halow_state s)"
proof -
  let ?R = "\<lambda>t cs. radio_same (mm_halow_state s) (mm_halow_state t) \<and> vendor_calls t = vendor_calls s @ cs"
  have step: "\<exists>t'. (if b then vdo (p_wlan pf) c t else Some t) = Some t' \<and> ?R t' (cs @ (if b then [c] else []))"
    if "?R t cs" for t cs b c
    using vdo_told [of s t cs b c] that by simp
  note rs = radio_same_fields
  have step1: "\<exists>t'. vdo (p_wlan pf) c t = Some t' \<and> ?R t' (cs @ [c])" if "?R t cs" for t cs c
    using step [OF that, of True c] by simp
  let ?self = "mm_halow_state s"
  obtain t1 where t1: "vdo (p_wlan pf) (V_set_ampdu (h_ampdu (mm_halow_state s))) s = Some t1" "?R t1 [V_set_ampdu (h_ampdu ?self)]"
    using step1 [of s "[]"] by auto
  obtain t2 where t2: "vdo (p_wlan pf) (V_set_sgi (h_sgi ?self)) t1 = Some t2" "?R t2 [V_set_ampdu (h_ampdu ?self), V_set_sgi (h_sgi ?self)]"
    using step1 [OF t1(2)] by fastforce
  let ?c3 = "[V_set_ampdu (h_ampdu ?self), V_set_sgi (h_sgi ?self), V_set_subbands (h_subbands ?self)]"
  obtain t3 where t3: "vdo (p_wlan pf) (V_set_subbands (h_subbands ?self)) t2 = Some t3" "?R t3 ?c3"
    using step1 [OF t2(2)] by fastforce
  let ?if = "\<lambda>b c. if b then [c] else []"
  let ?c4 = "?if (rts_threshold ?self \<noteq> 0) (V_set_rts_threshold (rts_threshold ?self))"
  let ?c5 = "?if (fragment_threshold ?self \<noteq> 0) (V_set_fragment_threshold (fragment_threshold ?self))"
  let ?c6 = "?if (listen_interval ?self \<noteq> 0) (V_set_listen_interval (listen_interval ?self))"
  let ?c7 = "?if (health_max_ms ?self \<noteq> 0) (V_set_health_check (health_min_ms ?self) (health_max_ms ?self))"
  obtain t4 where t4: "(if rts_threshold ?self \<noteq> 0 then vdo (p_wlan pf) (V_set_rts_threshold (rts_threshold ?self)) t3 else Some t3) = Some t4"
    "?R t4 (?c3 @ ?c4)" using step [OF t3(2)] by blast
  obtain t5 where t5: "(if fragment_threshold ?self \<noteq> 0 then vdo (p_wlan pf) (V_set_fragment_threshold (fragment_threshold ?self)) t4
      else Some t4) = Some t5" "?R t5 ((?c3 @ ?c4) @ ?c5)" using step [OF t4(2)] by blast
  obtain t6 where t6: "(if listen_interval ?self \<noteq> 0 then vdo (p_wlan pf) (V_set_listen_interval (listen_interval ?self)) t5
      else Some t5) = Some t6" "?R t6 (((?c3 @ ?c4) @ ?c5) @ ?c6)" using step [OF t5(2)] by blast
  obtain t7 where t7: "(if health_max_ms ?self \<noteq> 0 then vdo (p_wlan pf) (V_set_health_check (health_min_ms ?self) (health_max_ms ?self)) t6
      else Some t6) = Some t7" "?R t7 ((((?c3 @ ?c4) @ ?c5) @ ?c6) @ ?c7)" using step [OF t6(2)] by blast
  have f: "radio_same ?self (mm_halow_state t1)" "radio_same ?self (mm_halow_state t2)" "radio_same ?self (mm_halow_state t3)"
    "radio_same ?self (mm_halow_state t4)" "radio_same ?self (mm_halow_state t5)" "radio_same ?self (mm_halow_state t6)"
    using t1 t2 t3 t4 t5 t6 by blast+
  have h: "health_min_ms (mm_halow_state t6) = health_min_ms ?self" "health_max_ms (mm_halow_state t6) = health_max_ms ?self"
    using f(6) by (simp_all add: radio_same_def)
  have "mm_halow_apply_radio pf s = Some t7"
    unfolding mm_halow_apply_radio_def Let_def t1(1) bind.bind_lunit rs [OF f(1)] t2(1) rs [OF f(2)] t3(1) rs [OF f(3)] t4(1)
      rs [OF f(4)] t5(1) rs [OF f(5)] t6(1) h t7(1) ..
  moreover have "(((?c3 @ ?c4) @ ?c5) @ ?c6) @ ?c7 = radio_calls ?self"
    by (simp add: radio_calls_def Let_def ucast_up ucast_back)
  ultimately show ?thesis using t7(2) by simp
qed

lemma set_radio_told:
  "\<exists>ret s'. mm_halow_wifi_set_radio pf what v s = Some (ret, s')
    \<and> mm_halow_wifi_get_radio (mm_halow_state s') = radio_spec (what, v) (mm_halow_wifi_get_radio (mm_halow_state s))
    \<and> booted (mm_halow_state s') = booted (mm_halow_state s) \<and> link_status (mm_halow_state s') = link_status (mm_halow_state s)
    \<and> vendor_calls s' = vendor_calls s @ radio_pushed (mm_halow_state s) (what, v)"
proof (cases "radio_known what")
  case False
  then obtain n where "what = MM_HALOW_RADIO_OTHER n" by (auto simp: radio_known_def)
  then show ?thesis using False by (simp add: mm_halow_wifi_set_radio_def Let_def radio_spec_def radio_pushed_def)
next
  case True
  let ?s1 = "upd_self (radio_store what v) s"
  let ?push = "radio_push (booted (mm_halow_state s) \<and> link_status (mm_halow_state s) = MM_HALOW_LINK_DOWN) (booted (mm_halow_state s)) what v"
  have s1: "mm_halow_wifi_get_radio (mm_halow_state ?s1) = radio_spec (what, v) (mm_halow_wifi_get_radio (mm_halow_state s))"
    "booted (mm_halow_state ?s1) = booted (mm_halow_state s)" "link_status (mm_halow_state ?s1) = link_status (mm_halow_state s)"
    "vendor_calls ?s1 = vendor_calls s"
    by (simp_all add: upd_self_def radio_store_spec) (cases what; simp)+
  have eq: "mm_halow_wifi_set_radio pf what v s = (case ?push of None \<Rightarrow> Some (Ok, ?s1) | Some c \<Rightarrow> vret (p_wlan pf) c ?s1)"
    using True by (cases what) (simp_all add: mm_halow_wifi_set_radio_def Let_def radio_known_def)
  show ?thesis
  proof (cases ?push)
    case None
    then show ?thesis using s1 eq by (simp add: radio_pushed_def)
  next
    case (Some c)
    obtain st s2 where "vcall (p_wlan pf) c ?s1 = Some (st, s2)" "radio_same (mm_halow_state ?s1) (mm_halow_state s2)"
      "vendor_calls s2 = vendor_calls ?s1 @ [c]" using vcall_told [of c ?s1] by blast
    then show ?thesis using s1 eq Some by (simp add: radio_pushed_def vret_def radio_same_def)
  qed
qed

lemma set_radios_told:
  "\<exists>s'. set_radios pf ops s = Some s'
    \<and> mm_halow_wifi_get_radio (mm_halow_state s') = fold radio_spec ops (mm_halow_wifi_get_radio (mm_halow_state s))
    \<and> vendor_calls s' = vendor_calls s @ concat (map (radio_pushed (mm_halow_state s)) ops)"
proof (induction ops arbitrary: s)
  case (Cons op ops)
  obtain ret s1 where s1: "mm_halow_wifi_set_radio pf (fst op) (snd op) s = Some (ret, s1)"
    "mm_halow_wifi_get_radio (mm_halow_state s1) = radio_spec op (mm_halow_wifi_get_radio (mm_halow_state s))"
    "booted (mm_halow_state s1) = booted (mm_halow_state s)" "link_status (mm_halow_state s1) = link_status (mm_halow_state s)"
    "vendor_calls s1 = vendor_calls s @ radio_pushed (mm_halow_state s) op"
    using set_radio_told [of "fst op" "snd op" s] by auto
  have "radio_pushed (mm_halow_state s1) = radio_pushed (mm_halow_state s)" using s1(3,4) by (simp add: radio_pushed_def fun_eq_iff)
  with Cons.IH [of s1] s1 show ?case by auto
qed simp

end

section \<open>A vendor that may refuse\<close>

definition told_pf :: "(vendor_call \<Rightarrow> mmwlan_status) \<Rightarrow> ('l, u8 list) pf" where
  "told_pf f = host_pf\<lparr>p_wlan := quiet_wlan\<lparr>vendor := (\<lambda>c s. Some (f c, s))\<rparr>\<rparr>"

interpretation told: radio_vendor "told_pf f" for f
  by unfold_locales (simp add: told_pf_def)

section \<open>Property\<close>



end
