(* ===== verification/Spec2Isabelle.thy ===== *)
theory Spec2Isabelle
  imports Halow_Blocking Halow_Deadline Halow_Poll Halow_Protocol Halow_Session Halow_Settings
begin

text \<open>
  Verification of mm-halow-driver, the host driver for Morse Micro 802.11ah transceivers
  (src/src). This theory imports the whole development and documents it.

  \<^bold>\<open>The program.\<close> The driver lets the vendor's stack (morselib) run on a microcontroller
  without an RTOS, next to an interpreter and lwIP. It provides morselib with an OS layer:
  a private heap, cooperative tasks, locks, queues and timers (mm_halow_osal.c,
  mm_halow_sched.c), packet memory (mm_halow_pktmem.c) and hardware access over SPI
  (mm_halow_hal.c). On top, a control layer drives morselib's API on behalf of the user
  (mm_halow_ctrl.c), and a glue layer is the network interface lwIP sees (mm_halow_lwip.c).
  Everything moves when mm_halow_poll_func() is called: it serves the interrupt lines, the
  timers and the tasks. Waiting code keeps calling it, so control can re-enter the driver.

  \<^bold>\<open>State and conventions.\<close> One extensible record holds the static variables of all files;
  each component extends it: \<open>port_st\<close>, \<open>heap_st\<close>, \<open>sched_st\<close>, \<open>osal_st\<close>,
  \<open>pktmem_st\<close>, \<open>hal_st\<close>, \<open>halow_st\<close>. Every operation is a function on that state, named
  as in the source. Integers are words of the target's width, pointers 32-bit words (a task
  is its slot in the static table, 0 for NULL). An operation that walks a list, waits or
  calls out returns an option, in which None means that it does not return; that an
  operation returns is always part of what is proved. Errors are the values of \<open>result\<close>.
  Calls out of the driver are recorded in \<open>trace\<close>, \<open>vendor_calls\<close> and \<open>lwip_calls\<close>, so that
  their order can be stated. Time is unbounded; the code sees its low 32 bits.

  \<^bold>\<open>Theories, from the bottom up.\<close>
  \<^item> \<open>Halow_Prelude\<close>, \<open>Halow_Port\<close>: word types, wrap-around tick comparison, null-terminated
    chains; the host's clock, interrupt mask and context test (mm_halow_config.h).
  \<^item> \<open>Halow_Heap\<close>: malloc, free, calloc, realloc on block headers in memory (mm_halow_osal.c).
    \<open>Halow_Heap_Spec\<close> is the allocator on lists of block sizes, \<open>Halow_Heap_Refinement\<close>
    proves that the pointers implement it, \<open>Halow_Allocator\<close> states what clients rely on
    (locale \<open>allocator\<close>), \<open>Halow_Heap_Props\<close> has the properties.
  \<^item> \<open>Halow_Sched\<close>: tasks, the service claim, the pass, parking and waiting
    (mm_halow_sched.c). \<open>Halow_Sched_Inv\<close>: the task table's invariant; \<open>Halow_Sched_Run\<close>:
    the pass, for tasks that keep \<open>coop_turn\<close>; \<open>Halow_Sched_Props\<close>: the properties.
    \<open>Halow_Wait\<close>: waits, bounded and unbounded (\<open>wait_env\<close>, \<open>served_wait\<close>), and sleeping.
    \<open>Halow_Frame\<close>: what a pass and a wait leave of the rest of the driver (\<open>sched_frame\<close>,
    \<open>handover\<close>). \<open>Halow_Deadline\<close> (\<open>timed_waiters\<close>): the earliest deadline of the parked tasks.
  \<^item> \<open>Halow_Osal\<close>: critical sections, notifications, mutexes, semaphores, queues, timers,
    logging, failure records (mm_halow_osal.c). \<open>Halow_Sync\<close> (\<open>counter\<close>,
    \<open>bounded_counter\<close>), \<open>Halow_Queue\<close> (\<open>fifo\<close>) and \<open>Halow_Timers\<close> (\<open>timer_callbacks\<close>)
    prove them correct; \<open>Halow_Blocking\<close> covers the blocking forms.
  \<^item> \<open>Halow_Pktmem\<close>, \<open>Halow_Pktmem_Props\<close>: the packet counters, flow control and reserved
    pools (mm_halow_pktmem.c), over morselib's packets as \<open>mmpkt_library\<close>.
  \<^item> \<open>Halow_Hal\<close>, \<open>Halow_Hal_Props\<close>: SPI, interrupt lines, firmware blobs, random numbers
    (mm_halow_hal.c), over the port as \<open>spi_device\<close> and \<open>irq_lines\<close>.
  \<^item> \<open>Halow_State\<close>: mm_halow_t (mm_halow.h), morselib's API and the error codes;
    \<open>Halow_Netif\<close>: the glue to lwIP (mm_halow_lwip.c); \<open>Halow_Ctrl\<close> and \<open>Halow_Wifi\<close>: the
    control layer (mm_halow_ctrl.c).
  \<^item> \<open>Halow_Tables\<close>: the scan cache and the station table refine lists. \<open>Halow_Netif_Props\<close>
    (\<open>lwip_stack\<close>): interfaces of the host and received frames. \<open>Halow_Lifecycle\<close>
    (\<open>halow_world\<close>): init, interfaces up and down, power save, deinit, in any order.
    \<open>Halow_Protocol\<close> (\<open>talk_world\<close>, on top of \<open>halow_world\<close> and \<open>handover\<close>): the order of the
    calls on morselib, as an automaton.
    \<open>Halow_Tx\<close> (\<open>tx_world\<close>, \<open>tx_frames\<close>): the transmit path. \<open>Halow_Poll\<close>
    (\<open>poll_world\<close>): the poll, the composition of the interrupt, timer and scheduler
    contracts. \<open>Halow_Session\<close> (\<open>session_world\<close>): scanning and joining.
    \<open>Halow_Settings\<close> (\<open>radio_vendor\<close>): the radio settings.

  \<^bold>\<open>Interfaces.\<close> What a part relies on outside itself is a locale: laws of documented
  behaviour (control comes back, such a variable is left alone), never the conclusion. Each
  is interpreted on the driver's own operations where the driver provides it (the heap, the
  ring, the semaphores, the waits, scripted tasks and timer callbacks that run arbitrary
  programs of driver operations) and on a concrete host, \<open>host_pf\<close> and its variants,
  where the provider is not part of the repository. Properties take the locale predicate as
  a hypothesis, and their witnesses discharge it by those interpretations.

  \<^bold>\<open>Bounds.\<close> As in the source: 96 KB of heap, 4 task slots, at most 4 passes per scheduler
  run and 20 ms before another pass is denied, waits capped at 10 s, 250 ms for a frame to
  be sent, 20 log lines a second, 32 transmit and 16 receive packets, 32 scan results. The
  only fuel in the definitions is the source's own pass count (\<open>run_passes\<close>); every other
  loop is structural, has a termination proof, or is a partial function whose termination
  is proved from the invariant that bounds it.

  \<^bold>\<open>Not modelled.\<close>
  \<^item> The context switch and the stack limit register (assembly): a task's turn is a parameter,
    \<open>turn\<close> of \<open>sched_env\<close>, and giving up the processor is \<open>switch\<close>.
  \<^item> Real concurrency: interrupts are modelled where the code leaves room for them (between
    atomic sections, in the claim and in a wait); inside one operation they are not.
  \<^item> morselib, its packets, lwIP and the host's port: parameters, not in the repository.
  \<^item> The crystal query, chip table and deep sleep hooks, which are constants or empty;
    debug_printf, compiled out; the text of log and trace lines; the macros of mmport.h.
  \<^item> The IPv6-only build of the lwIP glue, and builds with other than the default options.
  \<^item> tests and tools.
\<close>

end
